(* ===== verification/Prelude.thy ===== *)
theory Prelude
  imports Main "HOL-Library.Word"
begin

text \<open>
  Shared vocabulary of the development: the machine integers and byte strings of the C
  sources, the faults a C function can run into, the little-endian reads and writes of the
  packed telemetry structures, the C string operations, and the theorem collections the
  component theories fill.

  The target is the one the Yocto configuration names (\<open>raspberrypi0-2w-64\<close>): a
  little-endian machine whose \<open>unsigned long\<close> has 8 bytes. On it \<open>htole16\<close>,
  \<open>htole32\<close>, \<open>le16toh\<close> and \<open>le32toh\<close> keep the value (\<open>le32toh\<close> of an
  \<open>unsigned long\<close> keeps its low 32 bits), and the memory image of an integer is its
  bytes from the least significant one.
\<close>

unbundle bit_operations_syntax

section \<open>Machine integers and bytes\<close>

type_synonym u8 = "8 word"
type_synonym u16 = "16 word"
type_synonym u32 = "32 word"
type_synonym u64 = "64 word"
type_synonym bytes = "8 word list"

named_theorems wire_simps "memory images of structures and what reading them back gives"
named_theorems frame_simps "fields an operation does not touch"
named_theorems own_simps "ownership of packet buffers"

text \<open>The bytes of a string literal, without the terminating NUL.\<close>

definition str_bytes :: "string \<Rightarrow> bytes" where
  "str_bytes s = map of_char s"

lemma length_str_bytes [simp]: "length (str_bytes s) = length s"
  by (simp add: str_bytes_def)

section \<open>Errors\<close>

text \<open>
  A C function of the model either returns or runs into undefined behaviour: it writes
  beyond an array (\<open>Write_overrun\<close>), reads beyond the memory it may read
  (\<open>Read_overrun\<close>), dereferences NULL, or uses a \<open>FILE\<close> that is not open.
  Error codes of the program itself are integers, as in the code.
\<close>

datatype c_fault = Write_overrun | Read_overrun | Null_deref | Bad_file

type_synonym 'a res = "c_fault + 'a"

text \<open>The \<open>errno\<close> values the program returns (Linux).\<close>

abbreviation (input) ENOENT :: int where "ENOENT \<equiv> 2"
abbreviation (input) EIO :: int where "EIO \<equiv> 5"
abbreviation (input) EEXIST :: int where "EEXIST \<equiv> 17"
abbreviation (input) ENODEV :: int where "ENODEV \<equiv> 19"
abbreviation (input) EINVAL :: int where "EINVAL \<equiv> 22"
abbreviation (input) EMFILE :: int where "EMFILE \<equiv> 24"
abbreviation (input) ENOTSUP :: int where "ENOTSUP \<equiv> 95"
abbreviation (input) ENOSYS :: int where "ENOSYS \<equiv> 38"
abbreviation (input) ETIMEDOUT :: int where "ETIMEDOUT \<equiv> 110"

text \<open>
  \<open>res_fault r\<close> is the fault of a result, \<open>res_val r\<close> its value; a client of a handler
  proves which of the two it has.
\<close>

definition safe :: "'a res \<Rightarrow> bool" where
  "safe r \<longleftrightarrow> (\<exists>v. r = Inr v)"

lemma safe_simps [simp]: "safe (Inr v)" "\<not> safe (Inl e)"
  by (simp_all add: safe_def)

lemma safe_iff: "safe r \<longleftrightarrow> (\<forall>e. r \<noteq> Inl e)"
  by (cases r) auto

text \<open>Two calls in sequence, the second only after the first has returned.\<close>

lemma safe_seq:
  "safe (case r of Inl flt \<Rightarrow> Inl flt | Inr v \<Rightarrow> g v) \<longleftrightarrow> (\<exists>v. r = Inr v \<and> safe (g v))"
  by (auto simp: safe_def split: sum.splits)

lemma seq_Inr:
  "(case r of Inl flt \<Rightarrow> Inl flt | Inr v \<Rightarrow> g v) = Inr w \<longleftrightarrow> (\<exists>v. r = Inr v \<and> g v = Inr w)"
  by (auto split: sum.splits)

section \<open>Little-endian memory images\<close>

definition le16 :: "u16 \<Rightarrow> bytes" where
  "le16 w = [ucast w, ucast (drop_bit 8 w)]"

definition le32 :: "u32 \<Rightarrow> bytes" where
  "le32 w = [ucast w, ucast (drop_bit 8 w), ucast (drop_bit 16 w), ucast (drop_bit 24 w)]"

text \<open>Reads through a cast pointer: \<open>*(unsigned short *)&d[i]\<close> and
  \<open>*(unsigned long *)&d[i]\<close>.\<close>

definition rd16 :: "bytes \<Rightarrow> nat \<Rightarrow> u16" where
  "rd16 d i = ucast (d ! i) OR push_bit 8 (ucast (d ! (i + 1)))"

definition rd32 :: "bytes \<Rightarrow> nat \<Rightarrow> u32" where
  "rd32 d i = ucast (d ! i) OR push_bit 8 (ucast (d ! (i + 1)))
     OR push_bit 16 (ucast (d ! (i + 2))) OR push_bit 24 (ucast (d ! (i + 3)))"

definition rd64 :: "bytes \<Rightarrow> nat \<Rightarrow> u64" where
  "rd64 d i = ucast (rd32 d i) OR push_bit 32 (ucast (rd32 d (i + 4)))"

definition htole16 :: "u16 \<Rightarrow> u16" where "htole16 w = w"
definition htole32 :: "int \<Rightarrow> u32" where "htole32 k = word_of_int k"
definition le16toh :: "u16 \<Rightarrow> u16" where "le16toh w = w"
definition le32toh :: "u64 \<Rightarrow> u32" where "le32toh w = ucast w"

lemma length_le16 [simp]: "length (le16 w) = 2"
  by (simp add: le16_def)

lemma length_le32 [simp]: "length (le32 w) = 4"
  by (simp add: le32_def)

lemma ucast16_bytes: "ucast (ucast w :: u8) OR push_bit 8 (ucast (ucast (drop_bit 8 w) :: u8)) = (w :: u16)"
  by (rule bit_word_eqI) (auto simp: bit_simps)

lemma ucast32_bytes:
  "ucast (ucast w :: u8) OR push_bit 8 (ucast (ucast (drop_bit 8 w) :: u8))
     OR push_bit 16 (ucast (ucast (drop_bit 16 w) :: u8))
     OR push_bit 24 (ucast (ucast (drop_bit 24 w) :: u8)) = (w :: u32)" (is "?image = w")
proof (rule bit_word_eqI)
  fix n assume "n < LENGTH(32)"
  then consider "n < 8" | "8 \<le> n" "n < 16" | "16 \<le> n" "n < 24" | "24 \<le> n" "n < 32"
    by fastforce
  then show "bit ?image n = bit w n"
    by cases (auto simp: bit_simps)
qed

lemma rd16_le16 [wire_simps]:
  "i = length pre \<Longrightarrow> rd16 (pre @ le16 w @ post) i = w"
  by (simp add: rd16_def le16_def nth_append ucast16_bytes)

lemma rd32_le32 [wire_simps]:
  "i = length pre \<Longrightarrow> rd32 (pre @ le32 w @ post) i = w"
  by (simp add: rd32_def le32_def nth_append ucast32_bytes)

text \<open>The code reads 8 bytes where 4 carry the value; the other 4 are dropped.\<close>

lemma le32toh_rd64 [wire_simps]: "le32toh (rd64 d i) = rd32 d i"
  unfolding le32toh_def rd64_def
  by (rule bit_word_eqI) (auto simp: bit_simps)

lemma le16_inj: "le16 v = le16 w \<Longrightarrow> v = w"
  by (metis append_Nil append_Nil2 list.size(3) rd16_le16)

lemma le32_inj: "le32 v = le32 w \<Longrightarrow> v = w"
  by (metis append_Nil append_Nil2 list.size(3) rd32_le32)

section \<open>C strings and memory copies\<close>

text \<open>The string that starts at the head of a memory block: the bytes before the first
  NUL, or \<open>None\<close> when the block has no NUL.\<close>

fun c_string :: "bytes \<Rightarrow> bytes option" where
  "c_string [] = None"
| "c_string (b # bs) = (if b = 0 then Some [] else map_option ((#) b) (c_string bs))"

text \<open>\<open>strcpy(dst, src)\<close> with \<open>dst\<close> an array of \<open>n\<close> bytes: the string copied.\<close>

definition strcpy :: "nat \<Rightarrow> bytes \<Rightarrow> bytes res" where
  "strcpy n src = (case c_string src of
     None \<Rightarrow> Inl Read_overrun
   | Some s \<Rightarrow> if length s < n then Inr s else Inl Write_overrun)"

text \<open>\<open>memcpy(dst, src, n)\<close> with \<open>dst\<close> an array of \<open>cap\<close> bytes: the bytes copied.\<close>

definition memcpy :: "nat \<Rightarrow> bytes \<Rightarrow> nat \<Rightarrow> bytes res" where
  "memcpy cap src n =
     (if cap < n then Inl Write_overrun
      else if length src < n then Inl Read_overrun
      else Inr (take n src))"

text \<open>\<open>strncpy(dst, s, n)\<close> fills all \<open>n\<close> bytes of \<open>dst\<close>.\<close>

definition strncpy :: "bytes \<Rightarrow> nat \<Rightarrow> bytes" where
  "strncpy s n = take n (s @ replicate (n - length s) 0)"

lemma length_strncpy [simp]: "length (strncpy s n) = n"
  by (simp add: strncpy_def)

lemma c_string_no_nul: "c_string bs = Some s \<Longrightarrow> 0 \<notin> set s"
  by (induction bs arbitrary: s) (auto split: if_splits)

lemma c_string_prefix: "c_string bs = Some s \<Longrightarrow> \<exists>post. bs = s @ 0 # post"
  by (induction bs arbitrary: s) (auto split: if_splits)

lemma c_string_append: "0 \<notin> set s \<Longrightarrow> c_string (s @ 0 # post) = Some s"
  by (induction s) auto

lemma c_string_Some_iff: "c_string bs = Some s \<longleftrightarrow> 0 \<notin> set s \<and> (\<exists>post. bs = s @ 0 # post)"
  using c_string_no_nul c_string_prefix c_string_append by blast

lemma c_string_None_iff: "c_string bs = None \<longleftrightarrow> 0 \<notin> set bs"
  by (induction bs) auto

lemma strcpy_Inr: "strcpy n src = Inr s \<longleftrightarrow> c_string src = Some s \<and> length s < n"
  by (auto simp: strcpy_def split: option.splits)

lemma memcpy_Inr: "memcpy cap src n = Inr d \<longleftrightarrow> n \<le> cap \<and> n \<le> length src \<and> d = take n src"
  by (auto simp: memcpy_def)

lemma safe_strcpy:
  "safe (strcpy n src) \<longleftrightarrow> (\<exists>s. c_string src = Some s \<and> length s < n)"
  by (auto simp: safe_def strcpy_Inr)

text \<open>A string shorter than the array is what \<open>strncpy\<close> stores, NUL-terminated.\<close>

lemma c_string_strncpy:
  assumes "0 \<notin> set s" "length s < n"
  shows "c_string (strncpy s n) = Some s"
proof -
  obtain k where "n - length s = Suc k" using assms(2) by (metis Suc_diff_Suc)
  then have "strncpy s n = s @ 0 # replicate k 0"
    using assms(2) by (simp add: strncpy_def)
  then show ?thesis using assms(1) by (simp add: c_string_append)
qed

section \<open>Lists\<close>

lemma take_list_update_append:
  "n < length xs \<Longrightarrow> take (Suc n) (xs[n := x]) = take n xs @ [x]"
  by (simp add: take_Suc_conv_app_nth)

lemma set_remove1_distinct: "distinct xs \<Longrightarrow> set (remove1 x xs) = set xs - {x}"
  by simp

text \<open>A list cut into pieces of \<open>n\<close> elements, the last one shorter.\<close>

function pieces :: "nat \<Rightarrow> 'a list \<Rightarrow> 'a list list" where
  "pieces n xs = (if xs = [] \<or> n = 0 then [] else take n xs # pieces n (drop n xs))"
  by pat_completeness auto
termination
  by (relation "measure (\<lambda>(n, xs). length xs)") auto

declare pieces.simps [simp del]

lemma pieces_Nil [simp]: "pieces n [] = []"
  by (simp add: pieces.simps)

lemma concat_pieces: "0 < n \<Longrightarrow> concat (pieces n xs) = xs"
proof (induction n xs rule: pieces.induct)
  case (1 n xs)
  then show ?case by (cases "xs = []") (simp_all add: pieces.simps [of n xs])
qed

lemma pieces_lengths: "x \<in> set (pieces n xs) \<Longrightarrow> 0 < length x \<and> length x \<le> n"
proof (induction n xs rule: pieces.induct)
  case (1 n xs)
  then show ?case by (cases "xs = [] \<or> n = 0") (auto simp: pieces.simps [of n xs])
qed

lemma take_pieces: "0 < n \<Longrightarrow> take k (pieces n xs) = pieces n (take (k * n) xs)"
proof (induction n xs arbitrary: k rule: pieces.induct)
  case (1 n xs)
  show ?case
  proof (cases "xs = [] \<or> k = 0")
    case False
    then obtain k' where k: "k = Suc k'" by (cases k) auto
    have "take n (take (n + k' * n) xs) = take n xs"
      "drop n (take (n + k' * n) xs) = take (k' * n) (drop n xs)"
      by (simp_all add: drop_take)
    with 1 False k show ?thesis
      by (simp add: pieces.simps [of n xs] pieces.simps [of n "take (n + k' * n) xs"])
  qed auto
qed

end
