(* ===== verification/Events.thy ===== *)
theory Events
  imports Prelude
begin

text \<open>
  What the program and its surroundings exchange: the CSP packet, the calls into libcsp and
  the operating system a handler makes (its trace), and the ownership discipline of
  libcsp's packet buffers.

  libcsp is not part of the repository. A call that hands a packet over is an event of the
  trace that records the packet as it is at the call; a call that returns a value takes the
  value from an argument of the model. The ownership rules are those of libcsp's API
  documentation: \<open>csp_read\<close> and \<open>csp_buffer_clone\<close> give the caller a buffer,
  \<open>csp_sendto_reply\<close>, \<open>csp_send\<close>, \<open>csp_service_handler\<close> and
  \<open>csp_buffer_free\<close> take one back.
\<close>

section \<open>Packets\<close>

text \<open>
  \<open>csp_packet_t\<close>: its address, its data area (all of it, also beyond the length) and
  its length field. libcsp's data area has \<open>CSP_BUFFER_SIZE\<close> bytes, 256 in the
  configuration the recipe builds.
\<close>

record csp_packet =
  pk_ptr :: nat
  pk_data :: bytes
  pk_length :: u16

abbreviation (input) CSP_BUFFER_SIZE :: nat where "CSP_BUFFER_SIZE \<equiv> 256"

definition wf_packet :: "csp_packet \<Rightarrow> bool" where
  "wf_packet p \<longleftrightarrow> length (pk_data p) = CSP_BUFFER_SIZE \<and> unat (pk_length p) \<le> CSP_BUFFER_SIZE"

definition payload :: "csp_packet \<Rightarrow> bytes" where
  "payload p = take (unat (pk_length p)) (pk_data p)"

text \<open>The command byte (\<open>cspd.h\<close>).\<close>

abbreviation (input) CSP_COMMAND_ID_OFFSET :: nat where "CSP_COMMAND_ID_OFFSET \<equiv> 0"
abbreviation (input) CSP_UNKNOWN_COMMAND_ID :: u8 where "CSP_UNKNOWN_COMMAND_ID \<equiv> 255"

abbreviation cmd_id :: "csp_packet \<Rightarrow> u8" where
  "cmd_id p \<equiv> pk_data p ! CSP_COMMAND_ID_OFFSET"

text \<open>\<open>memcpy(packet->data, &tlm, sizeof(tlm))\<close>, without and with
  \<open>packet->length = sizeof(tlm)\<close>.\<close>

definition put_data :: "csp_packet \<Rightarrow> bytes \<Rightarrow> csp_packet" where
  "put_data p bs = p\<lparr>pk_data := bs @ drop (length bs) (pk_data p)\<rparr>"

definition put_payload :: "csp_packet \<Rightarrow> bytes \<Rightarrow> csp_packet" where
  "put_payload p bs = (put_data p bs)\<lparr>pk_length := of_nat (length bs)\<rparr>"

lemma put_data_simps [simp]:
  "pk_ptr (put_data p bs) = pk_ptr p"
  "pk_length (put_data p bs) = pk_length p"
  "pk_data (put_data p bs) = bs @ drop (length bs) (pk_data p)"
  by (simp_all add: put_data_def)

lemma put_payload_simps [simp]:
  "pk_ptr (put_payload p bs) = pk_ptr p"
  "pk_length (put_payload p bs) = of_nat (length bs)"
  "pk_data (put_payload p bs) = bs @ drop (length bs) (pk_data p)"
  by (simp_all add: put_payload_def)

lemma payload_put_payload:
  "length bs \<le> CSP_BUFFER_SIZE \<Longrightarrow> payload (put_payload p bs) = bs"
  by (simp add: payload_def unat_of_nat)

lemma wf_put_payload:
  "wf_packet p \<Longrightarrow> length bs \<le> CSP_BUFFER_SIZE \<Longrightarrow> wf_packet (put_payload p bs)"
  by (simp add: wf_packet_def unat_of_nat)

text \<open>A packet with a payload, the rest of its buffer zero.\<close>

definition mk_packet :: "nat \<Rightarrow> bytes \<Rightarrow> csp_packet" where
  "mk_packet a bs = \<lparr>pk_ptr = a, pk_data = bs @ replicate (CSP_BUFFER_SIZE - length bs) 0,
                    pk_length = of_nat (length bs)\<rparr>"

lemma mk_packet_ptr [simp]: "pk_ptr (mk_packet a bs) = a"
  by (simp add: mk_packet_def)

lemma wf_mk_packet: "length bs \<le> CSP_BUFFER_SIZE \<Longrightarrow> wf_packet (mk_packet a bs)"
  by (simp add: wf_packet_def mk_packet_def unat_of_nat)

lemma payload_mk_packet: "length bs \<le> CSP_BUFFER_SIZE \<Longrightarrow> payload (mk_packet a bs) = bs"
  by (simp add: payload_def mk_packet_def unat_of_nat)

section \<open>Traces\<close>

datatype event =
    Ev_read nat                  \<comment> \<open>\<open>csp_read(conn, 50)\<close> returned this buffer\<close>
  | Ev_get nat                   \<comment> \<open>\<open>csp_buffer_get\<close> returned this buffer\<close>
  | Ev_connect nat nat           \<comment> \<open>\<open>csp_connect\<close> to this address and port returned a connection\<close>
  | Ev_conn_close                \<comment> \<open>\<open>csp_close(conn)\<close>\<close>
  | Ev_reply csp_packet          \<comment> \<open>\<open>csp_sendto_reply(packet, packet, CSP_O_SAME)\<close>\<close>
  | Ev_send csp_packet           \<comment> \<open>\<open>csp_send(conn, packet)\<close>\<close>
  | Ev_service csp_packet        \<comment> \<open>\<open>csp_service_handler(packet)\<close>\<close>
  | Ev_free nat                  \<comment> \<open>\<open>csp_buffer_free(packet)\<close>\<close>
  | Ev_show nat                  \<comment> \<open>a log message prints the data of this buffer\<close>
  | Ev_clone nat nat             \<comment> \<open>\<open>csp_buffer_clone\<close>: original and clone\<close>
  | Ev_sleep nat                 \<comment> \<open>\<open>sleep(seconds)\<close>\<close>
  | Ev_usleep nat               \<comment> \<open>\<open>usleep(microseconds)\<close>\<close>
  | Ev_ping u8                   \<comment> \<open>\<open>csp_ping\<close> of this address\<close>
  | Ev_reboot u8                 \<comment> \<open>\<open>csp_reboot\<close> of this address\<close>
  | Ev_popen bytes
  | Ev_pclose
  | Ev_open nat                  \<comment> \<open>\<open>open\<close> returned this descriptor\<close>
  | Ev_close nat
  | Ev_opendir string
  | Ev_closedir
  | Ev_mkdir string nat
  | Ev_remove string
  | Ev_system string

text \<open>The router threads only call \<open>csp_route_work\<close> of libcsp; the model of such a
  thread is the sequence of its calls.\<close>

datatype route_call = Csp_route_work

text \<open>The packets the trace transmits, in order.\<close>

fun sent :: "event list \<Rightarrow> csp_packet list" where
  "sent [] = []"
| "sent (Ev_reply p # es) = p # sent es"
| "sent (Ev_send p # es) = p # sent es"
| "sent (_ # es) = sent es"

lemma sent_append [simp]: "sent (xs @ ys) = sent xs @ sent ys"
  by (induction xs rule: sent.induct) auto

section \<open>Ownership of packet buffers\<close>

text \<open>
  \<open>own_run own es\<close> runs a trace with the buffers \<open>own\<close> in hand and gives the buffers
  in hand at its end, or \<open>None\<close> when the trace gives away, clones or reads a buffer that it
  does not have (a use after free or a double free).
\<close>

fun own_step :: "event \<Rightarrow> nat set \<Rightarrow> nat set option" where
  "own_step (Ev_read a) own = (if a \<in> own then None else Some (insert a own))"
| "own_step (Ev_get a) own = (if a \<in> own then None else Some (insert a own))"
| "own_step (Ev_reply p) own = (if pk_ptr p \<in> own then Some (own - {pk_ptr p}) else None)"
| "own_step (Ev_send p) own = (if pk_ptr p \<in> own then Some (own - {pk_ptr p}) else None)"
| "own_step (Ev_service p) own = (if pk_ptr p \<in> own then Some (own - {pk_ptr p}) else None)"
| "own_step (Ev_free a) own = (if a \<in> own then Some (own - {a}) else None)"
| "own_step (Ev_clone a b) own = (if a \<in> own \<and> b \<notin> own then Some (insert b own) else None)"
| "own_step (Ev_show a) own = (if a \<in> own then Some own else None)"
| "own_step _ own = Some own"

fun own_run :: "nat set \<Rightarrow> event list \<Rightarrow> nat set option" where
  "own_run own [] = Some own"
| "own_run own (e # es) = (case own_step e own of None \<Rightarrow> None | Some own' \<Rightarrow> own_run own' es)"

text \<open>A handler that got the packet at address \<open>a\<close> is \<open>linear\<close> when it gives that
  buffer (and every clone it made) away exactly once and touches no buffer afterwards.\<close>

definition linear :: "nat \<Rightarrow> event list \<Rightarrow> bool" where
  "linear a es \<longleftrightarrow> own_run {a} es = Some {}"

text \<open>It leaks when buffers are left in its hand, and it misuses a buffer when the run
  fails.\<close>

definition leaks :: "nat \<Rightarrow> event list \<Rightarrow> bool" where
  "leaks a es \<longleftrightarrow> (\<exists>own. own_run {a} es = Some own \<and> own \<noteq> {})"

definition misuses :: "nat \<Rightarrow> event list \<Rightarrow> bool" where
  "misuses a es \<longleftrightarrow> own_run {a} es = None"

lemma own_run_append:
  "own_run own (xs @ ys) = (case own_run own xs of None \<Rightarrow> None | Some own' \<Rightarrow> own_run own' ys)"
  by (induction xs arbitrary: own) (auto split: option.splits)

lemma linear_reply [own_simps]: "linear a [Ev_reply p] \<longleftrightarrow> pk_ptr p = a"
  by (auto simp: linear_def)

lemma linear_free [own_simps]: "linear a [Ev_free b] \<longleftrightarrow> b = a"
  by (auto simp: linear_def)

lemma linear_service [own_simps]: "linear a [Ev_service p] \<longleftrightarrow> pk_ptr p = a"
  by (auto simp: linear_def)

lemma linear_nil [own_simps]: "\<not> linear a []"
  by (simp add: linear_def)

lemma linear_exclusive: "linear a es \<Longrightarrow> \<not> leaks a es \<and> \<not> misuses a es"
  by (auto simp: linear_def leaks_def misuses_def)

lemma own_trichotomy: "linear a es \<or> leaks a es \<or> misuses a es"
  by (cases "own_run {a} es") (auto simp: linear_def leaks_def misuses_def)

text \<open>The buffers a trace takes from libcsp.\<close>

fun acquired :: "event list \<Rightarrow> nat set" where
  "acquired [] = {}"
| "acquired (Ev_read a # es) = insert a (acquired es)"
| "acquired (Ev_get a # es) = insert a (acquired es)"
| "acquired (Ev_clone a b # es) = insert b (acquired es)"
| "acquired (_ # es) = acquired es"

lemma acquired_append [simp]: "acquired (xs @ ys) = acquired xs \<union> acquired ys"
  by (induction xs rule: acquired.induct) auto

text \<open>Buffers in other hands neither disturb a trace nor are touched by it.\<close>

lemma own_step_frame:
  "own_step e own = Some own' \<Longrightarrow> X \<inter> own = {} \<Longrightarrow> X \<inter> acquired [e] = {} \<Longrightarrow>
    own_step e (own \<union> X) = Some (own' \<union> X) \<and> X \<inter> own' = {}"
  by (cases e) (auto split: if_splits)

lemma own_run_frame:
  "own_run own es = Some own' \<Longrightarrow> X \<inter> own = {} \<Longrightarrow> X \<inter> acquired es = {} \<Longrightarrow>
    own_run (own \<union> X) es = Some (own' \<union> X) \<and> X \<inter> own' = {}"
proof (induction es arbitrary: own)
  case (Cons e es)
  from Cons.prems(1) obtain own1 where
    s: "own_step e own = Some own1" and r: "own_run own1 es = Some own'"
    by (auto split: option.splits)
  have a: "X \<inter> acquired [e] = {}" "X \<inter> acquired es = {}"
    using Cons.prems(3) acquired_append [of "[e]" es] by auto
  from own_step_frame [OF s Cons.prems(2) a(1)]
  have "own_step e (own \<union> X) = Some (own1 \<union> X)" "X \<inter> own1 = {}" by auto
  with Cons.IH [OF r _ a(2)] show ?case by simp
qed simp

end
