(* ===== verification/Telemetry.thy ===== *)
theory Telemetry
  imports Events
begin

text \<open>
  The packed telemetry structures of the headers (\<open>upload.h\<close>, \<open>file.h\<close>,
  \<open>shell.h\<close>, \<open>system.h\<close>, \<open>camera.h\<close>, \<open>temp.h\<close>): one record per struct
  with the struct's fields, the memory image a \<open>memcpy\<close> of it copies, and the parser
  a receiver applies to the payload. The locale \<open>packed_struct\<close> states what a
  structure owes to the code that sends it.
\<close>

section \<open>The contract of a packed structure\<close>

locale packed_struct =
  fixes image :: "'t \<Rightarrow> bytes"
    and parse :: "bytes \<Rightarrow> 't"
    and ok :: "'t \<Rightarrow> bool"
    and sz :: nat
  assumes len_image: "ok t \<Longrightarrow> length (image t) = sz"
    and parse_image: "ok t \<Longrightarrow> parse (image t @ rest) = t"
    and sz_fits: "sz \<le> CSP_BUFFER_SIZE"
begin

lemma reply_payload: "ok t \<Longrightarrow> payload (put_payload p (image t)) = image t"
  using sz_fits by (simp add: payload_put_payload len_image)

lemma reply_parses: "ok t \<Longrightarrow> parse (payload (put_payload p (image t))) = t"
  using parse_image [of t "[]"] by (simp add: reply_payload)

lemma reply_wf: "ok t \<Longrightarrow> wf_packet p \<Longrightarrow> wf_packet (put_payload p (image t))"
  using sz_fits by (simp add: wf_put_payload len_image)

lemma reply_length: "ok t \<Longrightarrow> pk_length (put_payload p (image t)) = of_nat sz"
  by (simp add: len_image)

lemma image_inj: "ok t \<Longrightarrow> ok u \<Longrightarrow> image t = image u \<Longrightarrow> t = u"
  by (metis append_Nil2 parse_image)

end

section \<open>upload.h\<close>

abbreviation (input) FILE_NAME_MAX_LEN :: nat where "FILE_NAME_MAX_LEN \<equiv> 64"
abbreviation (input) UPLOAD_DATA_REPLY_ENTRY :: nat where "UPLOAD_DATA_REPLY_ENTRY \<equiv> 20"

record upload_open_reply_telemetry =
  uo_telemetry_id :: u8
  uo_error_code :: u32
  uo_session_id :: u16
  uo_file_name :: bytes

record upload_data_reply_entry =
  ue_error_code :: u32
  ue_offset :: u32
  ue_size :: u32

record upload_data_reply_telemetry =
  ud_telemetry_id :: u8
  ud_session_id :: u16
  ud_entry :: "upload_data_reply_entry list"

record upload_close_reply_telemetry =
  uc_telemetry_id :: u8
  uc_error_code :: u32
  uc_session_id :: u16

definition open_reply_image :: "upload_open_reply_telemetry \<Rightarrow> bytes" where
  "open_reply_image t =
     [uo_telemetry_id t] @ le32 (uo_error_code t) @ le16 (uo_session_id t) @ uo_file_name t"

definition entry_image :: "upload_data_reply_entry \<Rightarrow> bytes" where
  "entry_image e = le32 (ue_error_code e) @ le32 (ue_offset e) @ le32 (ue_size e)"

definition data_reply_image :: "upload_data_reply_telemetry \<Rightarrow> bytes" where
  "data_reply_image t =
     [ud_telemetry_id t] @ le16 (ud_session_id t) @ concat (map entry_image (ud_entry t))"

definition close_reply_image :: "upload_close_reply_telemetry \<Rightarrow> bytes" where
  "close_reply_image t =
     [uc_telemetry_id t] @ le32 (uc_error_code t) @ le16 (uc_session_id t)"

text \<open>The receiver's side.\<close>

definition parse_open_reply :: "bytes \<Rightarrow> upload_open_reply_telemetry" where
  "parse_open_reply d =
     \<lparr>uo_telemetry_id = d ! 0, uo_error_code = rd32 d 1, uo_session_id = rd16 d 5,
      uo_file_name = take FILE_NAME_MAX_LEN (drop 7 d)\<rparr>"

definition parse_entry :: "bytes \<Rightarrow> upload_data_reply_entry" where
  "parse_entry d = \<lparr>ue_error_code = rd32 d 0, ue_offset = rd32 d 4, ue_size = rd32 d 8\<rparr>"

fun parse_entries :: "nat \<Rightarrow> bytes \<Rightarrow> upload_data_reply_entry list" where
  "parse_entries 0 d = []"
| "parse_entries (Suc n) d = parse_entry d # parse_entries n (drop 12 d)"

definition parse_data_reply :: "bytes \<Rightarrow> upload_data_reply_telemetry" where
  "parse_data_reply d =
     \<lparr>ud_telemetry_id = d ! 0, ud_session_id = rd16 d 1,
      ud_entry = parse_entries UPLOAD_DATA_REPLY_ENTRY (drop 3 d)\<rparr>"

definition parse_close_reply :: "bytes \<Rightarrow> upload_close_reply_telemetry" where
  "parse_close_reply d =
     \<lparr>uc_telemetry_id = d ! 0, uc_error_code = rd32 d 1, uc_session_id = rd16 d 5\<rparr>"

text \<open>Reads at a fixed offset see the field whose image starts there.\<close>

lemma rd_Cons [wire_simps]:
  "rd16 (b # d) (Suc i) = rd16 d i" "rd32 (b # d) (Suc i) = rd32 d i"
  by (simp_all add: rd16_def rd32_def add.commute)

lemma rd_skip [wire_simps]:
  "rd16 (le16 v @ d) (Suc (Suc i)) = rd16 d i"
  "rd32 (le16 v @ d) (Suc (Suc i)) = rd32 d i"
  "rd16 (le32 w @ d) (Suc (Suc (Suc (Suc i)))) = rd16 d i"
  "rd32 (le32 w @ d) (Suc (Suc (Suc (Suc i)))) = rd32 d i"
  by (simp_all add: rd16_def rd32_def le16_def le32_def add.commute)

lemma rd_here [wire_simps]:
  "rd16 (le16 v @ d) 0 = v" "rd32 (le32 w @ d) 0 = w" "rd16 (le16 v) 0 = v" "rd32 (le32 w) 0 = w"
  using rd16_le16 [of 0 "[]" v d] rd32_le32 [of 0 "[]" w d]
    rd16_le16 [of 0 "[]" v "[]"] rd32_le32 [of 0 "[]" w "[]"] by simp_all

lemma entry_image_length [simp]: "length (entry_image e) = 12"
  by (simp add: entry_image_def)

lemma parse_entry_image [wire_simps]: "parse_entry (entry_image e @ d) = e"
  by (simp add: parse_entry_def entry_image_def wire_simps eval_nat_numeral)

lemma parse_entries_image [wire_simps]:
  "n = length es \<Longrightarrow> parse_entries n (concat (map entry_image es) @ d) = es"
  by (induction es arbitrary: n) (auto simp: wire_simps)

lemma length_entries_image [simp]: "length (concat (map entry_image es)) = 12 * length es"
  by (induction es) auto

interpretation open_reply: packed_struct open_reply_image parse_open_reply
  "\<lambda>t. length (uo_file_name t) = FILE_NAME_MAX_LEN" 71
  by unfold_locales
    (simp_all add: open_reply_image_def parse_open_reply_def wire_simps eval_nat_numeral)

interpretation data_reply: packed_struct data_reply_image parse_data_reply
  "\<lambda>t. length (ud_entry t) = UPLOAD_DATA_REPLY_ENTRY" 243
proof unfold_locales
  fix t :: upload_data_reply_telemetry and rest :: bytes
  assume len: "length (ud_entry t) = UPLOAD_DATA_REPLY_ENTRY"
  then show "length (data_reply_image t) = 243" by (simp add: data_reply_image_def)
  have "drop 3 (data_reply_image t @ rest) = concat (map entry_image (ud_entry t)) @ rest"
    by (simp add: data_reply_image_def le16_def)
  then show "parse_data_reply (data_reply_image t @ rest) = t"
    using len parse_entries_image [of UPLOAD_DATA_REPLY_ENTRY "ud_entry t" rest]
    by (simp add: parse_data_reply_def data_reply_image_def wire_simps)
qed simp

interpretation close_reply: packed_struct close_reply_image parse_close_reply "\<lambda>_. True" 7
  by unfold_locales
    (simp_all add: close_reply_image_def parse_close_reply_def wire_simps eval_nat_numeral)

section \<open>file.h and shell.h\<close>

abbreviation (input) SHELL_RESULT_BUF_SIZE :: nat where "SHELL_RESULT_BUF_SIZE \<equiv> 240"

record file_err_reply_telemetry =
  fe_telemetry_id :: u8
  fe_error_code :: u32

record shell_err_reply_telemetry =
  he_telemetry_id :: u8
  he_error_code :: u32

record shell_cmd_reply_telemetry =
  hr_telemetry_id :: u8
  hr_error_code :: u32
  hr_seq_number :: u32
  hr_result :: bytes

definition file_err_image :: "file_err_reply_telemetry \<Rightarrow> bytes" where
  "file_err_image t = [fe_telemetry_id t] @ le32 (fe_error_code t)"

definition shell_err_image :: "shell_err_reply_telemetry \<Rightarrow> bytes" where
  "shell_err_image t = [he_telemetry_id t] @ le32 (he_error_code t)"

definition shell_cmd_image :: "shell_cmd_reply_telemetry \<Rightarrow> bytes" where
  "shell_cmd_image t =
     [hr_telemetry_id t] @ le32 (hr_error_code t) @ le32 (hr_seq_number t) @ hr_result t"

definition parse_file_err :: "bytes \<Rightarrow> file_err_reply_telemetry" where
  "parse_file_err d = \<lparr>fe_telemetry_id = d ! 0, fe_error_code = rd32 d 1\<rparr>"

definition parse_shell_err :: "bytes \<Rightarrow> shell_err_reply_telemetry" where
  "parse_shell_err d = \<lparr>he_telemetry_id = d ! 0, he_error_code = rd32 d 1\<rparr>"

definition parse_shell_cmd :: "bytes \<Rightarrow> shell_cmd_reply_telemetry" where
  "parse_shell_cmd d =
     \<lparr>hr_telemetry_id = d ! 0, hr_error_code = rd32 d 1, hr_seq_number = rd32 d 5,
      hr_result = take SHELL_RESULT_BUF_SIZE (drop 9 d)\<rparr>"

interpretation file_err: packed_struct file_err_image parse_file_err "\<lambda>_. True" 5
  by unfold_locales (simp_all add: file_err_image_def parse_file_err_def wire_simps)

interpretation shell_err: packed_struct shell_err_image parse_shell_err "\<lambda>_. True" 5
  by unfold_locales (simp_all add: shell_err_image_def parse_shell_err_def wire_simps)

interpretation shell_cmd: packed_struct shell_cmd_image parse_shell_cmd
  "\<lambda>t. length (hr_result t) = SHELL_RESULT_BUF_SIZE" 249
  by unfold_locales
    (simp_all add: shell_cmd_image_def parse_shell_cmd_def wire_simps eval_nat_numeral)

section \<open>system.h, camera.h and temp.h\<close>

abbreviation (input) SYSTEM_VERSION_STR_SIZE :: nat where "SYSTEM_VERSION_STR_SIZE \<equiv> 16"

record system_err_telemetry =
  se_telemetry_id :: u8
  se_error_code :: u32

record system_version_telemetry =
  sv_telemetry_id :: u8
  sv_error_code :: u32
  sv_version :: bytes

record hwtest_cam_telemetry =
  hc_telemetry_id :: u8
  hc_frame_count :: u16

record hwtest_temp_telemetry =
  ht_telemetry_id :: u8
  ht_temp_raw :: u16

definition system_err_image :: "system_err_telemetry \<Rightarrow> bytes" where
  "system_err_image t = [se_telemetry_id t] @ le32 (se_error_code t)"

definition system_version_image :: "system_version_telemetry \<Rightarrow> bytes" where
  "system_version_image t = [sv_telemetry_id t] @ le32 (sv_error_code t) @ sv_version t"

definition cam_image :: "hwtest_cam_telemetry \<Rightarrow> bytes" where
  "cam_image t = [hc_telemetry_id t] @ le16 (hc_frame_count t)"

definition temp_image :: "hwtest_temp_telemetry \<Rightarrow> bytes" where
  "temp_image t = [ht_telemetry_id t] @ le16 (ht_temp_raw t)"

definition parse_system_err :: "bytes \<Rightarrow> system_err_telemetry" where
  "parse_system_err d = \<lparr>se_telemetry_id = d ! 0, se_error_code = rd32 d 1\<rparr>"

definition parse_system_version :: "bytes \<Rightarrow> system_version_telemetry" where
  "parse_system_version d =
     \<lparr>sv_telemetry_id = d ! 0, sv_error_code = rd32 d 1,
      sv_version = take SYSTEM_VERSION_STR_SIZE (drop 5 d)\<rparr>"

definition parse_cam :: "bytes \<Rightarrow> hwtest_cam_telemetry" where
  "parse_cam d = \<lparr>hc_telemetry_id = d ! 0, hc_frame_count = rd16 d 1\<rparr>"

definition parse_temp :: "bytes \<Rightarrow> hwtest_temp_telemetry" where
  "parse_temp d = \<lparr>ht_telemetry_id = d ! 0, ht_temp_raw = rd16 d 1\<rparr>"

interpretation system_err: packed_struct system_err_image parse_system_err "\<lambda>_. True" 5
  by unfold_locales (simp_all add: system_err_image_def parse_system_err_def wire_simps)

interpretation system_version: packed_struct system_version_image parse_system_version
  "\<lambda>t. length (sv_version t) = SYSTEM_VERSION_STR_SIZE" 21
  by unfold_locales
    (simp_all add: system_version_image_def parse_system_version_def wire_simps eval_nat_numeral)

interpretation cam: packed_struct cam_image parse_cam "\<lambda>_. True" 3
  by unfold_locales (simp_all add: cam_image_def parse_cam_def wire_simps)

interpretation temp: packed_struct temp_image parse_temp "\<lambda>_. True" 3
  by unfold_locales (simp_all add: temp_image_def parse_temp_def wire_simps)

end
