(* ===== verification/Stdio.thy ===== *)
theory Stdio
  imports Prelude
begin

text \<open>
  The C library calls the upload component uses on files: \<open>fopen\<close> in the modes
  \<open>"r+b"\<close> and \<open>"w+b"\<close>, \<open>fseek\<close> from the start, \<open>fwrite\<close> of single
  bytes and \<open>fclose\<close>. A \<open>FILE\<close> is a path and a position; its address is a number
  that \<open>fopen\<close> has not returned before. The contents of the files are a map from paths.

  What the system may refuse is an argument of each call: whether an \<open>fopen\<close> is granted,
  whether an \<open>fseek\<close> or \<open>fclose\<close> reports success, how many bytes an \<open>fwrite\<close>
  takes at most. stdio buffering is not modelled: the contents are those the process sees
  through its streams.
\<close>

section \<open>Files\<close>

datatype fmode = R_plus_b | W_plus_b

record FILE =
  f_path :: bytes
  f_pos :: nat

record stdio =
  st_fs :: "bytes \<rightharpoonup> bytes"
  st_open :: "nat \<rightharpoonup> FILE"
  st_next :: nat

definition fresh_file :: "bytes \<Rightarrow> stdio \<Rightarrow> nat option \<times> stdio" where
  "fresh_file path st =
     (Some (st_next st),
      st\<lparr>st_open := (st_open st)(st_next st \<mapsto> \<lparr>f_path = path, f_pos = 0\<rparr>),
         st_next := Suc (st_next st)\<rparr>)"

text \<open>\<open>"r+b"\<close> opens an existing file and keeps its contents; \<open>"w+b"\<close> creates the
  file or empties it.\<close>

definition fopen :: "bool \<Rightarrow> bytes \<Rightarrow> fmode \<Rightarrow> stdio \<Rightarrow> nat option \<times> stdio" where
  "fopen grant path mode st =
     (if \<not> grant then (None, st)
      else case mode of
        R_plus_b \<Rightarrow> if st_fs st path = None then (None, st) else fresh_file path st
      | W_plus_b \<Rightarrow> fresh_file path (st\<lparr>st_fs := (st_fs st)(path \<mapsto> [])\<rparr>))"

definition fseek :: "bool \<Rightarrow> nat \<Rightarrow> nat \<Rightarrow> stdio \<Rightarrow> (int \<times> stdio) res" where
  "fseek success h offset st =
     (case st_open st h of
        None \<Rightarrow> Inl Bad_file
      | Some f \<Rightarrow>
          if success then Inr (0, st\<lparr>st_open := (st_open st)(h \<mapsto> f\<lparr>f_pos := offset\<rparr>)\<rparr>)
          else Inr (-1, st))"

text \<open>The contents after \<open>data\<close> is written at \<open>pos\<close>: a gap is filled with zeros, a
  write of nothing changes nothing.\<close>

definition file_write :: "bytes \<Rightarrow> nat \<Rightarrow> bytes \<Rightarrow> bytes" where
  "file_write c pos data =
     (if data = [] then c
      else take pos (c @ replicate (pos - length c) 0) @ data @ drop (pos + length data) c)"

definition contents :: "stdio \<Rightarrow> bytes \<Rightarrow> bytes" where
  "contents st path = (case st_fs st path of None \<Rightarrow> [] | Some c \<Rightarrow> c)"

definition fwrite :: "nat \<Rightarrow> nat \<Rightarrow> bytes \<Rightarrow> stdio \<Rightarrow> (nat \<times> stdio) res" where
  "fwrite accept h data st =
     (case st_open st h of
        None \<Rightarrow> Inl Bad_file
      | Some f \<Rightarrow>
          let d = take accept data in
          Inr (length d,
               st\<lparr>st_fs := (st_fs st)(f_path f \<mapsto> file_write (contents st (f_path f)) (f_pos f) d),
                  st_open := (st_open st)(h \<mapsto> f\<lparr>f_pos := f_pos f + length d\<rparr>)\<rparr>))"

definition fclose :: "bool \<Rightarrow> nat \<Rightarrow> stdio \<Rightarrow> (int \<times> stdio) res" where
  "fclose success h st =
     (case st_open st h of
        None \<Rightarrow> Inl Bad_file
      | Some f \<Rightarrow>
          Inr (if success then 0 else -1, st\<lparr>st_open := (st_open st)(h := None)\<rparr>))"

text \<open>Every address in use was given out before the next one.\<close>

definition stdio_inv :: "stdio \<Rightarrow> bool" where
  "stdio_inv st \<longleftrightarrow> (\<forall>h \<in> dom (st_open st). h < st_next st)"

section \<open>Contents after writes\<close>

lemma file_write_Nil [simp]: "file_write c pos [] = c"
  by (simp add: file_write_def)

lemma length_file_write:
  "length (file_write c pos d) = (if d = [] then length c else max (length c) (pos + length d))"
  by (auto simp: file_write_def)

lemma nth_file_write:
  assumes "i < length (file_write c pos d)"
  shows "file_write c pos d ! i =
    (if pos \<le> i \<and> i < pos + length d then d ! (i - pos) else if i < length c then c ! i else 0)"
proof (cases "d = []")
  case False
  define pre where "pre = take pos (c @ replicate (pos - length c) 0)"
  have pre: "length pre = pos" by (simp add: pre_def)
  have w: "file_write c pos d = pre @ d @ drop (pos + length d) c"
    using False by (simp add: file_write_def pre_def)
  consider "i < pos" | "pos \<le> i" "i < pos + length d" | "pos + length d \<le> i" by linarith
  then show ?thesis
  proof cases
    case 1
    then have "file_write c pos d ! i = pre ! i" by (simp add: w nth_append pre)
    also have "\<dots> = (c @ replicate (pos - length c) 0) ! i"
      unfolding pre_def using 1 by (rule nth_take)
    finally show ?thesis using 1 by (simp add: nth_append)
  next
    case 2
    then have "i - pos < length d" by arith
    with 2 show ?thesis by (simp add: w nth_append pre)
  next
    case 3
    then have "i - pos - length d + (pos + length d) = i" "\<not> i - pos < length d" by simp_all
    moreover from 3 assms False have "i < length c"
      by (auto simp: length_file_write split: if_splits)
    ultimately show ?thesis using 3 by (simp add: w nth_append pre add.commute)
  qed
qed (use assms in auto)

text \<open>Writing where the contents end appends; a file is the concatenation of the chunks
  appended to it.\<close>

lemma file_write_append: "pos = length c \<Longrightarrow> file_write c pos d = c @ d"
  by (simp add: file_write_def)

text \<open>Two writes that do not overlap commute: chunks may arrive in any order.\<close>

lemma file_write_commute:
  assumes "p + length d \<le> q \<or> q + length e \<le> p"
  shows "file_write (file_write c p d) q e = file_write (file_write c q e) p d"
proof (rule nth_equalityI)
  show len: "length (file_write (file_write c p d) q e) = length (file_write (file_write c q e) p d)"
    by (auto simp: length_file_write)
  fix i
  assume "i < length (file_write (file_write c p d) q e)"
  then show "file_write (file_write c p d) q e ! i = file_write (file_write c q e) p d ! i"
    using assms len by (auto simp: nth_file_write length_file_write split: if_splits)
qed

lemma file_write_again:
  assumes "length d = length e"
  shows "file_write (file_write c p d) p e = file_write c p e"
proof (rule nth_equalityI)
  show len: "length (file_write (file_write c p d) p e) = length (file_write c p e)"
    using assms by (auto simp: length_file_write)
  fix i
  assume "i < length (file_write (file_write c p d) p e)"
  then show "file_write (file_write c p d) p e ! i = file_write c p e ! i"
    using assms len by (auto simp: nth_file_write length_file_write split: if_splits)
qed

section \<open>The interface of the file library\<close>

text \<open>
  What the upload component relies on. The abstraction is the contents of a path as a
  client sees them and the set of open files; \<open>valid\<close> is the invariant of the state.
\<close>

locale file_store =
  fixes open_file :: "bool \<Rightarrow> bytes \<Rightarrow> fmode \<Rightarrow> 's \<Rightarrow> nat option \<times> 's"
    and seek_file :: "bool \<Rightarrow> nat \<Rightarrow> nat \<Rightarrow> 's \<Rightarrow> (int \<times> 's) res"
    and write_file :: "nat \<Rightarrow> nat \<Rightarrow> bytes \<Rightarrow> 's \<Rightarrow> (nat \<times> 's) res"
    and close_file :: "bool \<Rightarrow> nat \<Rightarrow> 's \<Rightarrow> (int \<times> 's) res"
    and file_of :: "'s \<Rightarrow> nat \<rightharpoonup> FILE"
    and files :: "'s \<Rightarrow> bytes \<rightharpoonup> bytes"
    and valid :: "'s \<Rightarrow> bool"
  assumes open_Some: "valid st \<Longrightarrow> open_file g path m st = (Some h, st') \<Longrightarrow>
      valid st' \<and> file_of st h = None
      \<and> file_of st' = (file_of st)(h \<mapsto> \<lparr>f_path = path, f_pos = 0\<rparr>)
      \<and> files st' = (case m of R_plus_b \<Rightarrow> files st | W_plus_b \<Rightarrow> (files st)(path \<mapsto> []))"
    and open_None: "open_file g path m st = (None, st') \<Longrightarrow>
      st' = st \<and> (\<not> g \<or> m = R_plus_b \<and> files st path = None)"
    and seek_Inr: "valid st \<Longrightarrow> file_of st h = Some f \<Longrightarrow>
      \<exists>st'. seek_file ok h n st = Inr (if ok then 0 else -1, st') \<and> valid st' \<and> files st' = files st
        \<and> file_of st' = (if ok then (file_of st)(h \<mapsto> f\<lparr>f_pos := n\<rparr>) else file_of st)"
    and write_Inr: "valid st \<Longrightarrow> file_of st h = Some f \<Longrightarrow>
      \<exists>st'. write_file k h d st = Inr (min k (length d), st') \<and> valid st'
        \<and> files st' = (files st)(f_path f \<mapsto>
            file_write (case files st (f_path f) of None \<Rightarrow> [] | Some c \<Rightarrow> c) (f_pos f) (take k d))
        \<and> file_of st' = (file_of st)(h \<mapsto> f\<lparr>f_pos := f_pos f + min k (length d)\<rparr>)"
    and close_Inr: "valid st \<Longrightarrow> file_of st h = Some f \<Longrightarrow>
      \<exists>st'. close_file ok h st = Inr (if ok then 0 else -1, st') \<and> valid st' \<and> files st' = files st
        \<and> file_of st' = (file_of st)(h := None)"
begin

text \<open>Seeking to an offset and writing there is one write at that offset.\<close>

lemma seek_write:
  assumes "valid st" "file_of st h = Some f"
  obtains st1 st2 where "seek_file True h n st = Inr (0, st1)"
    "write_file k h d st1 = Inr (min k (length d), st2)" "valid st2"
    "files st2 = (files st)(f_path f \<mapsto>
       file_write (case files st (f_path f) of None \<Rightarrow> [] | Some c \<Rightarrow> c) n (take k d))"
    "file_of st2 = (file_of st)(h \<mapsto> f\<lparr>f_pos := n + min k (length d)\<rparr>)"
proof -
  obtain st1 where s1: "seek_file True h n st = Inr (0, st1)" "valid st1" "files st1 = files st"
    "file_of st1 = (file_of st)(h \<mapsto> f\<lparr>f_pos := n\<rparr>)"
    using seek_Inr [OF assms, of True n] by auto
  then have "file_of st1 h = Some (f\<lparr>f_pos := n\<rparr>)" by simp
  from write_Inr [OF s1(2) this, of k d] s1 that show thesis by auto
qed

text \<open>An open file never disappears because of another one being opened or written.\<close>

lemma open_keeps:
  assumes "valid st" "open_file g path m st = (Some h, st')" "file_of st h' = Some f"
  shows "h' \<noteq> h \<and> file_of st' h' = Some f"
  using open_Some [OF assms(1,2)] assms(3) by auto

end

interpretation stdio: file_store fopen fseek fwrite fclose st_open st_fs stdio_inv
proof unfold_locales
  fix st g path m h st'
  assume "stdio_inv st" "fopen g path m st = (Some h, st')"
  then show "stdio_inv st' \<and> st_open st h = None
      \<and> st_open st' = (st_open st)(h \<mapsto> \<lparr>f_path = path, f_pos = 0\<rparr>)
      \<and> st_fs st' = (case m of R_plus_b \<Rightarrow> st_fs st | W_plus_b \<Rightarrow> (st_fs st)(path \<mapsto> []))"
    by (auto simp: fopen_def fresh_file_def stdio_inv_def domIff less_Suc_eq
        split: if_splits fmode.splits)
next
  fix g path m st st'
  assume "fopen g path m st = (None, st')"
  then show "st' = st \<and> (\<not> g \<or> m = R_plus_b \<and> st_fs st path = None)"
    by (auto simp: fopen_def fresh_file_def split: if_splits fmode.splits)
qed (auto simp: fseek_def fwrite_def fclose_def contents_def stdio_inv_def Let_def min.commute)

end
