(* ===== verification/Upload.thy ===== *)
theory Upload
  imports Telemetry Stdio
begin

text \<open>
  The file upload service, \<open>csp-handler/files/upload.c\<close>: a pool of five sessions, each
  with an open file and a batch of acknowledgements, and the three commands OPEN, DATA and
  CLOSE.

  A pointer into the array \<open>sessions\<close> is its index; the two \<open>GSList\<close>s are lists of
  such indices. The journal messages are not modelled.
\<close>

section \<open>Sizes and offsets\<close>

abbreviation (input) UPLOAD_MAX_SESSION :: nat where "UPLOAD_MAX_SESSION \<equiv> 5"
abbreviation (input) UPLOAD_DATA_LEN :: nat where "UPLOAD_DATA_LEN \<equiv> 200"
abbreviation (input) UPLOAD_OPEN_CMD_SIZE :: u16 where "UPLOAD_OPEN_CMD_SIZE \<equiv> 67"
abbreviation (input) UPLOAD_DATA_CMD_SIZE :: u16 where "UPLOAD_DATA_CMD_SIZE \<equiv> 211"
abbreviation (input) UPLOAD_CLOSE_CMD_SIZE :: u16 where "UPLOAD_CLOSE_CMD_SIZE \<equiv> 3"
abbreviation (input) UPLOAD_SID_OFFSET :: nat where "UPLOAD_SID_OFFSET \<equiv> 1"
abbreviation (input) UPLOAD_FNAME_OFFSET :: nat where "UPLOAD_FNAME_OFFSET \<equiv> 3"
abbreviation (input) UPLOAD_OFST_OFFSET :: nat where "UPLOAD_OFST_OFFSET \<equiv> 3"
abbreviation (input) UPLOAD_SIZE_OFFSET :: nat where "UPLOAD_SIZE_OFFSET \<equiv> 7"
abbreviation (input) UPLOAD_DATA_OFFSET :: nat where "UPLOAD_DATA_OFFSET \<equiv> 11"

section \<open>State\<close>

record session_entry =
  se_id :: u16
  se_file :: "nat option"
  se_fname :: bytes
  se_data_reply :: upload_data_reply_telemetry
  se_reply_count :: u8

record upload_state =
  session_used :: "nat list"
  session_unused :: "nat list"
  sessions :: "session_entry list"
  us_stdio :: stdio

text \<open>
  What the surroundings decide during one command: the outcomes of the file operations (see
  the theory of the file library) and what the stack of \<open>send_upload_data_err_reply\<close>
  holds where \<open>tlm\<close> is not assigned.
\<close>

record upload_env =
  e_fopen_r :: bool
  e_fopen_w :: bool
  e_fseek :: bool
  e_fwrite :: nat
  e_fclose :: bool
  e_junk :: "nat \<Rightarrow> upload_data_reply_entry"

text \<open>The zero-initialised statics.\<close>

definition zero_entry :: upload_data_reply_entry where
  "zero_entry = \<lparr>ue_error_code = 0, ue_offset = 0, ue_size = 0\<rparr>"

definition zero_session :: session_entry where
  "zero_session =
     \<lparr>se_id = 0, se_file = None, se_fname = [],
      se_data_reply = \<lparr>ud_telemetry_id = 0, ud_session_id = 0,
                       ud_entry = replicate UPLOAD_DATA_REPLY_ENTRY zero_entry\<rparr>,
      se_reply_count = 0\<rparr>"

definition upload_statics :: "stdio \<Rightarrow> upload_state" where
  "upload_statics st =
     \<lparr>session_used = [], session_unused = [],
      sessions = replicate UPLOAD_MAX_SESSION zero_session, us_stdio = st\<rparr>"

section \<open>The session pool\<close>

text \<open>glib's singly linked lists.\<close>

abbreviation g_slist_append :: "'a list \<Rightarrow> 'a \<Rightarrow> 'a list" where
  "g_slist_append l x \<equiv> l @ [x]"

abbreviation g_slist_remove :: "'a list \<Rightarrow> 'a \<Rightarrow> 'a list" where
  "g_slist_remove l x \<equiv> remove1 x l"

fun search_list :: "session_entry list \<Rightarrow> u16 \<Rightarrow> nat list \<Rightarrow> nat option" where
  "search_list ss session_id [] = None"
| "search_list ss session_id (i # l) =
     (if se_id (ss ! i) = session_id then Some i else search_list ss session_id l)"

definition search_used_session :: "u16 \<Rightarrow> upload_state \<Rightarrow> nat option" where
  "search_used_session session_id us = search_list (sessions us) session_id (session_used us)"

text \<open>Every element of \<open>session_unused\<close> points into the array, so the first one is
  taken.\<close>

definition get_unused_session :: "upload_state \<Rightarrow> nat option \<times> upload_state" where
  "get_unused_session us =
     (case session_unused us of
        [] \<Rightarrow> (None, us)
      | i # l \<Rightarrow>
          (Some i,
           us\<lparr>session_unused := g_slist_remove (session_unused us) i,
              session_used := g_slist_append (session_used us) i\<rparr>))"

definition release_session :: "nat \<Rightarrow> upload_state \<Rightarrow> upload_state" where
  "release_session i us =
     us\<lparr>session_used := g_slist_remove (session_used us) i,
        session_unused := g_slist_append (session_unused us) i\<rparr>"

definition upload_handler_init :: "upload_state \<Rightarrow> upload_state" where
  "upload_handler_init us =
     fold (\<lambda>i us. us\<lparr>session_unused := g_slist_append (session_unused us) i\<rparr>)
       [0..<UPLOAD_MAX_SESSION] us"

definition set_session :: "nat \<Rightarrow> session_entry \<Rightarrow> upload_state \<Rightarrow> upload_state" where
  "set_session i s us = us\<lparr>sessions := (sessions us)[i := s]\<rparr>"

section \<open>Replies\<close>

text \<open>The entry is written at \<open>entry[reply_count]\<close> of an array of 20; the telemetry id
  and the session id are those of this command.\<close>

definition stack_upload_data_reply ::
    "session_entry \<Rightarrow> u8 \<Rightarrow> int \<Rightarrow> u32 \<Rightarrow> u32 \<Rightarrow> session_entry res" where
  "stack_upload_data_reply s command_id err_code offset sz =
     (let tlm = se_data_reply s;
          n = unat (se_reply_count s);
          entry = \<lparr>ue_error_code = htole32 err_code, ue_offset = offset, ue_size = sz\<rparr> in
      if UPLOAD_DATA_REPLY_ENTRY \<le> n then Inl Write_overrun
      else Inr (s\<lparr>se_data_reply := tlm\<lparr>ud_telemetry_id := command_id,
                                       ud_session_id := se_id s,
                                       ud_entry := (ud_entry tlm)[n := entry]\<rparr>,
                  se_reply_count := se_reply_count s + 1\<rparr>))"

definition send_upload_open_reply ::
    "csp_packet \<Rightarrow> u8 \<Rightarrow> int \<Rightarrow> u16 \<Rightarrow> bytes \<Rightarrow> event list" where
  "send_upload_open_reply packet command_id err_code session_id fname =
     (let tlm = \<lparr>uo_telemetry_id = command_id, uo_error_code = htole32 err_code,
                 uo_session_id = htole16 session_id,
                 uo_file_name = (strncpy fname FILE_NAME_MAX_LEN)[FILE_NAME_MAX_LEN - 1 := 0]\<rparr> in
      [Ev_reply (put_payload packet (open_reply_image tlm))])"

text \<open>Only \<open>entry[0]\<close> is assigned; the other 19 entries are what the stack holds.\<close>

definition send_upload_data_err_reply ::
    "(nat \<Rightarrow> upload_data_reply_entry) \<Rightarrow> csp_packet \<Rightarrow> u8 \<Rightarrow> int \<Rightarrow> u16 \<Rightarrow> u32 \<Rightarrow> u32
       \<Rightarrow> event list" where
  "send_upload_data_err_reply junk packet command_id err_code session_id offset sz =
     (let e0 = \<lparr>ue_error_code = htole32 err_code, ue_offset = offset, ue_size = sz\<rparr>;
          tlm = \<lparr>ud_telemetry_id = command_id, ud_session_id = htole16 session_id,
                 ud_entry = (map junk [0..<UPLOAD_DATA_REPLY_ENTRY])[0 := e0]\<rparr> in
      [Ev_reply (put_payload packet (data_reply_image tlm))])"

definition send_upload_data_reply :: "csp_packet \<Rightarrow> session_entry \<Rightarrow> session_entry \<times> event list" where
  "send_upload_data_reply packet s =
     (s\<lparr>se_reply_count := 0,
        se_data_reply := (se_data_reply s)
          \<lparr>ud_entry := replicate UPLOAD_DATA_REPLY_ENTRY zero_entry\<rparr>\<rparr>,
      [Ev_reply (put_payload packet (data_reply_image (se_data_reply s)))])"

definition send_upload_close_reply ::
    "csp_packet \<Rightarrow> u8 \<Rightarrow> int \<Rightarrow> u16 \<Rightarrow> event list" where
  "send_upload_close_reply packet command_id err_code session_id =
     (let tlm = \<lparr>uc_telemetry_id = command_id, uc_error_code = htole32 err_code,
                 uc_session_id = htole16 session_id\<rparr> in
      [Ev_reply (put_payload packet (close_reply_image tlm))])"

section \<open>Files of a session\<close>

text \<open>\<open>open_upload_file\<close>: a failed \<open>fopen\<close> gives the session back but does not
  set \<open>ret\<close>, and the identifier and the name are stored in either case.\<close>

definition open_upload_file ::
    "upload_env \<Rightarrow> u16 \<Rightarrow> bytes \<Rightarrow> upload_state \<Rightarrow> int \<times> upload_state" where
  "open_upload_file env session_id fname us =
     (case search_used_session session_id us of
        Some _ \<Rightarrow> (- EEXIST, us)
      | None \<Rightarrow>
        (case get_unused_session us of
           (None, us1) \<Rightarrow> (- EMFILE, us1)
         | (Some i, us1) \<Rightarrow>
           (let (f1, st1) = fopen (e_fopen_r env) fname R_plus_b (us_stdio us1);
                (f2, st2) = (if f1 = None then fopen (e_fopen_w env) fname W_plus_b st1
                             else (f1, st1));
                us2 = us1\<lparr>us_stdio := st2\<rparr>;
                us3 = set_session i ((sessions us2 ! i)\<lparr>se_file := f2\<rparr>) us2;
                us4 = (if f2 = None then release_session i us3 else us3)
            in (0, set_session i ((sessions us4 ! i)\<lparr>se_id := session_id, se_fname := fname\<rparr>) us4))))"

definition write_upload_file ::
    "upload_env \<Rightarrow> session_entry \<Rightarrow> u32 \<Rightarrow> bytes \<Rightarrow> stdio \<Rightarrow> (int \<times> stdio) res" where
  "write_upload_file env s offset data st =
     (case se_file s of
        None \<Rightarrow> Inl Null_deref
      | Some h \<Rightarrow>
        (case fseek (e_fseek env) h (unat offset) st of
           Inl flt \<Rightarrow> Inl flt
         | Inr (ret, st1) \<Rightarrow>
           if ret < 0 then Inr (ret, st1)
           else (case fwrite (e_fwrite env) h data st1 of
                   Inl flt \<Rightarrow> Inl flt
                 | Inr (n, st2) \<Rightarrow> Inr (int n, st2))))"

definition close_upload_file :: "upload_env \<Rightarrow> u16 \<Rightarrow> upload_state \<Rightarrow> (int \<times> upload_state) res" where
  "close_upload_file env session_id us =
     (case search_used_session session_id us of
        None \<Rightarrow> Inr (- ENOENT, us)
      | Some i \<Rightarrow>
        (case se_file (sessions us ! i) of
           None \<Rightarrow> Inl Null_deref
         | Some h \<Rightarrow>
           (case fclose (e_fclose env) h (us_stdio us) of
              Inl flt \<Rightarrow> Inl flt
            | Inr (ret, st) \<Rightarrow> Inr (ret, release_session i (us\<lparr>us_stdio := st\<rparr>)))))"

section \<open>Commands\<close>

definition file_upload_open_cmd ::
    "upload_env \<Rightarrow> u8 \<Rightarrow> csp_packet \<Rightarrow> upload_state \<Rightarrow> (int \<times> upload_state \<times> event list) res" where
  "file_upload_open_cmd env command_id packet us =
     (if pk_length packet \<noteq> UPLOAD_OPEN_CMD_SIZE then
        Inr (- EINVAL, us, send_upload_open_reply packet command_id (- EINVAL) 0 [])
      else
        let session_id = le16toh (rd16 (pk_data packet) UPLOAD_SID_OFFSET) in
        (case strcpy FILE_NAME_MAX_LEN (drop UPLOAD_FNAME_OFFSET (pk_data packet)) of
           Inl flt \<Rightarrow> Inl flt
         | Inr fname \<Rightarrow>
           let (ret, us') = open_upload_file env session_id fname us in
           Inr (ret, us', send_upload_open_reply packet command_id ret session_id fname)))"

definition file_upload_data_cmd ::
    "upload_env \<Rightarrow> u8 \<Rightarrow> csp_packet \<Rightarrow> upload_state \<Rightarrow> (int \<times> upload_state \<times> event list) res" where
  "file_upload_data_cmd env command_id packet us =
     (if pk_length packet \<noteq> UPLOAD_DATA_CMD_SIZE then
        Inr (- EINVAL, us, send_upload_data_err_reply (e_junk env) packet command_id (- EINVAL) 0 0 0)
      else
        let session_id = le16toh (rd16 (pk_data packet) UPLOAD_SID_OFFSET);
            offset = le32toh (rd64 (pk_data packet) UPLOAD_OFST_OFFSET);
            sz = le32toh (rd64 (pk_data packet) UPLOAD_SIZE_OFFSET) in
        (case memcpy UPLOAD_DATA_LEN (drop UPLOAD_DATA_OFFSET (pk_data packet)) (unat sz) of
           Inl flt \<Rightarrow> Inl flt
         | Inr data \<Rightarrow>
           (case search_used_session session_id us of
              None \<Rightarrow>
                Inr (- ENOENT, us, send_upload_data_err_reply (e_junk env) packet command_id
                                     (- ENOENT) session_id offset sz)
            | Some i \<Rightarrow>
              (case write_upload_file env (sessions us ! i) offset data (us_stdio us) of
                 Inl flt \<Rightarrow> Inl flt
               | Inr (ret, st) \<Rightarrow>
                 (case stack_upload_data_reply (sessions us ! i) command_id ret offset sz of
                    Inl flt \<Rightarrow> Inl flt
                  | Inr s1 \<Rightarrow>
                    let (s2, evs) =
                          (if UPLOAD_DATA_REPLY_ENTRY \<le> unat (se_reply_count s1)
                              \<or> unat sz \<noteq> UPLOAD_DATA_LEN
                           then send_upload_data_reply packet s1
                           else (s1, [Ev_free (pk_ptr packet)]));
                        err = (if ret < 0
                               then send_upload_data_err_reply (e_junk env) packet command_id ret
                                      session_id offset sz
                               else [])
                    in Inr (ret, set_session i s2 (us\<lparr>us_stdio := st\<rparr>), evs @ err))))))"

definition file_upload_close_cmd ::
    "upload_env \<Rightarrow> u8 \<Rightarrow> csp_packet \<Rightarrow> upload_state \<Rightarrow> (int \<times> upload_state \<times> event list) res" where
  "file_upload_close_cmd env command_id packet us =
     (if pk_length packet \<noteq> UPLOAD_CLOSE_CMD_SIZE then
        Inr (- EINVAL, us, send_upload_close_reply packet command_id (- EINVAL) 0)
      else
        let session_id = le16toh (rd16 (pk_data packet) UPLOAD_SID_OFFSET) in
        (case close_upload_file env session_id us of
           Inl flt \<Rightarrow> Inl flt
         | Inr (ret, us') \<Rightarrow>
           Inr (ret, us', send_upload_close_reply packet command_id ret session_id)))"

end
