(* ===== verification/SessionPool.thy ===== *)
theory SessionPool
  imports Upload
begin

text \<open>
  The session pool of \<open>upload.c\<close>: its contract as a locale, the proof that the two
  linked lists implement it, and the invariant of the upload component.
\<close>

section \<open>The contract of a pool of slots\<close>

locale slot_pool =
  fixes acquire :: "'s \<Rightarrow> nat option \<times> 's"
    and release :: "nat \<Rightarrow> 's \<Rightarrow> 's"
    and used :: "'s \<Rightarrow> nat list"
    and unused :: "'s \<Rightarrow> nat list"
    and cap :: nat
    and valid :: "'s \<Rightarrow> bool"
  assumes valid_slots: "valid s \<Longrightarrow> distinct (used s @ unused s) \<and> set (used s @ unused s) = {..<cap}"
    and acquire_None: "acquire s = (None, s') \<Longrightarrow> s' = s \<and> unused s = []"
    and acquire_Some: "valid s \<Longrightarrow> acquire s = (Some i, s') \<Longrightarrow>
      valid s' \<and> unused s = i # unused s' \<and> used s' = used s @ [i]"
    and release_used: "valid s \<Longrightarrow> i \<in> set (used s) \<Longrightarrow>
      valid (release i s) \<and> used (release i s) = remove1 i (used s)
      \<and> unused (release i s) = unused s @ [i]"
begin

lemma slots_count: "valid s \<Longrightarrow> length (used s) + length (unused s) = cap"
  using valid_slots [of s] distinct_card [of "used s @ unused s"] by simp

lemma used_bound: "valid s \<Longrightarrow> length (used s) \<le> cap"
  using slots_count [of s] by simp

lemma acquire_fails_iff: "valid s \<Longrightarrow> fst (acquire s) = None \<longleftrightarrow> length (used s) = cap"
proof -
  assume valid: "valid s"
  show ?thesis
  proof (cases "acquire s")
    case (Pair r s')
    show ?thesis
    proof (cases r)
      case None
      with Pair acquire_None [of s s'] slots_count [OF valid] show ?thesis by simp
    next
      case (Some i)
      with Pair acquire_Some [OF valid, of i s'] slots_count [OF valid] show ?thesis by simp
    qed
  qed
qed

lemma acquired_is_new:
  assumes "valid s" "acquire s = (Some i, s')"
  shows "i < cap \<and> i \<notin> set (used s) \<and> i \<notin> set (unused s')"
proof -
  from acquire_Some [OF assms] valid_slots [OF assms(1)]
  have "distinct (used s @ i # unused s')" "i \<in> {..<cap}" by auto
  then show ?thesis by simp
qed

lemma release_after_acquire:
  assumes "valid s" "acquire s = (Some i, s')"
  shows "valid (release i s') \<and> used (release i s') = used s
    \<and> unused (release i s') = unused s' @ [i]"
proof -
  from acquire_Some [OF assms] acquired_is_new [OF assms]
  have "valid s'" "i \<in> set (used s')" "used s' = used s @ [i]" "i \<notin> set (used s)" by auto
  with release_used [of s' i] show ?thesis by (simp add: remove1_append)
qed

end

section \<open>The linked lists implement it\<close>

definition pool_wf :: "upload_state \<Rightarrow> bool" where
  "pool_wf us \<longleftrightarrow> length (sessions us) = UPLOAD_MAX_SESSION
     \<and> distinct (session_used us @ session_unused us)
     \<and> set (session_used us @ session_unused us) = {..<UPLOAD_MAX_SESSION}"

interpretation pool: slot_pool get_unused_session release_session session_used session_unused
  UPLOAD_MAX_SESSION pool_wf
proof unfold_locales
  fix us i us'
  assume "pool_wf us" "get_unused_session us = (Some i, us')"
  then show "pool_wf us' \<and> session_unused us = i # session_unused us'
      \<and> session_used us' = session_used us @ [i]"
    by (auto simp: get_unused_session_def pool_wf_def split: list.splits)
next
  fix us i
  assume "pool_wf us" "i \<in> set (session_used us)"
  then show "pool_wf (release_session i us)
      \<and> session_used (release_session i us) = remove1 i (session_used us)
      \<and> session_unused (release_session i us) = session_unused us @ [i]"
    by (auto simp: release_session_def pool_wf_def)
qed (auto simp: pool_wf_def get_unused_session_def split: list.splits)

lemma search_list_Some:
  "search_list ss sid l = Some i \<Longrightarrow> i \<in> set l \<and> se_id (ss ! i) = sid"
  by (induction l) (auto split: if_splits)

lemma search_list_None: "search_list ss sid l = None \<longleftrightarrow> (\<forall>i \<in> set l. se_id (ss ! i) \<noteq> sid)"
  by (induction l) auto

lemma search_used_Some:
  "search_used_session sid us = Some i \<Longrightarrow>
     i \<in> set (session_used us) \<and> se_id (sessions us ! i) = sid"
  unfolding search_used_session_def by (rule search_list_Some)

lemma search_used_None:
  "search_used_session sid us = None \<longleftrightarrow>
     (\<forall>i \<in> set (session_used us). se_id (sessions us ! i) \<noteq> sid)"
  unfolding search_used_session_def by (rule search_list_None)

lemma search_used_eq:
  assumes "inj_on (\<lambda>i. se_id (sessions us ! i)) (set (session_used us))"
  shows "search_used_session sid us = Some i \<longleftrightarrow>
     i \<in> set (session_used us) \<and> se_id (sessions us ! i) = sid"
proof
  assume i: "i \<in> set (session_used us) \<and> se_id (sessions us ! i) = sid"
  then obtain j where "search_used_session sid us = Some j"
    using search_used_None [of sid us] by fastforce
  with i search_used_Some [OF this] assms show "search_used_session sid us = Some i"
    by (auto simp: inj_on_def)
qed (rule search_used_Some)

section \<open>The invariant of the component\<close>

text \<open>No two sessions in use share an identifier.\<close>

definition ids_wf :: "upload_state \<Rightarrow> bool" where
  "ids_wf us \<longleftrightarrow> inj_on (\<lambda>i. se_id (sessions us ! i)) (set (session_used us))"

text \<open>The sessions in use own the open files: each has one, on the path it names, no two
  have the same, and there is no open file besides theirs.\<close>

definition files_wf :: "upload_state \<Rightarrow> bool" where
  "files_wf us \<longleftrightarrow> stdio_inv (us_stdio us)
     \<and> (\<forall>i \<in> set (session_used us). \<exists>h pos. se_file (sessions us ! i) = Some h
          \<and> st_open (us_stdio us) h = Some \<lparr>f_path = se_fname (sessions us ! i), f_pos = pos\<rparr>)
     \<and> inj_on (\<lambda>i. se_file (sessions us ! i)) (set (session_used us))
     \<and> (\<forall>h. st_open (us_stdio us) h \<noteq> None \<longrightarrow>
          (\<exists>i \<in> set (session_used us). se_file (sessions us ! i) = Some h))"

text \<open>A batch has room for one more entry, and holds zeros beyond those it counts.\<close>

definition batch_wf :: "session_entry \<Rightarrow> bool" where
  "batch_wf s \<longleftrightarrow> unat (se_reply_count s) < UPLOAD_DATA_REPLY_ENTRY
     \<and> length (ud_entry (se_data_reply s)) = UPLOAD_DATA_REPLY_ENTRY
     \<and> (\<forall>k. unat (se_reply_count s) \<le> k \<and> k < UPLOAD_DATA_REPLY_ENTRY \<longrightarrow>
          ud_entry (se_data_reply s) ! k = zero_entry)"

definition upload_inv :: "upload_state \<Rightarrow> bool" where
  "upload_inv us \<longleftrightarrow> pool_wf us \<and> ids_wf us \<and> files_wf us
     \<and> (\<forall>i < UPLOAD_MAX_SESSION. batch_wf (sessions us ! i))"

lemmas upload_inv_defs = upload_inv_def ids_wf_def files_wf_def

lemma upload_invD:
  assumes "upload_inv us"
  shows upload_inv_pool: "pool_wf us" and upload_inv_ids: "ids_wf us"
    and upload_inv_files: "files_wf us" and upload_inv_stdio: "stdio_inv (us_stdio us)"
    and upload_inv_batch: "i < UPLOAD_MAX_SESSION \<Longrightarrow> batch_wf (sessions us ! i)"
  using assms by (auto simp: upload_inv_defs)

lemma upload_inv_used:
  assumes "upload_inv us" "i \<in> set (session_used us)"
  shows "i < UPLOAD_MAX_SESSION \<and> i < length (sessions us)"
  using assms by (auto simp: upload_inv_def pool_wf_def)

lemma upload_inv_file:
  assumes "upload_inv us" "i \<in> set (session_used us)"
  obtains h pos where "se_file (sessions us ! i) = Some h"
    "st_open (us_stdio us) h = Some \<lparr>f_path = se_fname (sessions us ! i), f_pos = pos\<rparr>"
  using assms by (auto simp: upload_inv_defs)

lemma search_used_iff:
  "upload_inv us \<Longrightarrow> search_used_session sid us = Some i \<longleftrightarrow>
     i \<in> set (session_used us) \<and> se_id (sessions us ! i) = sid"
  by (simp add: upload_inv_def ids_wf_def search_used_eq)

lemma batch_wf_zero: "batch_wf zero_session"
  by (simp add: batch_wf_def zero_session_def)

lemma upload_handler_init_statics:
  "upload_handler_init (upload_statics st) = (upload_statics st)\<lparr>session_unused := [0, 1, 2, 3, 4]\<rparr>"
  by (simp add: upload_handler_init_def upload_statics_def upt_rec)

text \<open>The state after initialisation, with no file open yet.\<close>

lemma upload_inv_init:
  assumes "stdio_inv st" "st_open st = Map.empty"
  shows "upload_inv (upload_handler_init (upload_statics st))"
proof -
  have "{0, 1, 2, 3, 4} = {..<5::nat}" by auto
  then show ?thesis
    using assms batch_wf_zero unfolding upload_handler_init_statics
    by (simp add: upload_inv_defs pool_wf_def upload_statics_def)
qed

end
