(* ===== verification/UploadOps.thy ===== *)
theory UploadOps
  imports SessionPool
begin

text \<open>
  The operations of \<open>upload.c\<close> on well-formed states: what \<open>open_upload_file\<close>,
  \<open>write_upload_file\<close>, \<open>close_upload_file\<close> and the batching of replies do on each
  branch, and that each keeps the invariant of the component.
\<close>

section \<open>Opening\<close>

text \<open>Whether one of the two \<open>fopen\<close> calls succeeds, and the files afterwards.\<close>

definition open_grants :: "upload_env \<Rightarrow> bytes \<Rightarrow> (bytes \<rightharpoonup> bytes) \<Rightarrow> bool" where
  "open_grants env fname fs \<longleftrightarrow> e_fopen_r env \<and> fs fname \<noteq> None \<or> e_fopen_w env"

definition opened_fs :: "upload_env \<Rightarrow> bytes \<Rightarrow> (bytes \<rightharpoonup> bytes) \<Rightarrow> (bytes \<rightharpoonup> bytes)" where
  "opened_fs env fname fs = (if e_fopen_r env \<and> fs fname \<noteq> None then fs else fs(fname \<mapsto> []))"

definition fopen_twice :: "upload_env \<Rightarrow> bytes \<Rightarrow> stdio \<Rightarrow> nat option \<times> stdio" where
  "fopen_twice env fname st =
     (let (f1, st1) = fopen (e_fopen_r env) fname R_plus_b st in
      if f1 = None then fopen (e_fopen_w env) fname W_plus_b st1 else (f1, st1))"

lemma fopen_None_iff:
  "fst (fopen g path m st) = None \<longleftrightarrow> \<not> g \<or> m = R_plus_b \<and> st_fs st path = None"
  by (auto simp: fopen_def fresh_file_def split: fmode.splits)

lemma fopen_twice_None:
  assumes "\<not> open_grants env fname (st_fs st)"
  shows "fopen_twice env fname st = (None, st)"
proof -
  obtain f1 st1 where f1: "fopen (e_fopen_r env) fname R_plus_b st = (f1, st1)"
    by (cases "fopen (e_fopen_r env) fname R_plus_b st")
  then have "f1 = None"
    using fopen_None_iff [of "e_fopen_r env" fname R_plus_b st] assms by (auto simp: open_grants_def)
  with f1 stdio.open_None have "st1 = st" by blast
  with f1 \<open>f1 = None\<close> assms show ?thesis
    by (simp add: fopen_twice_def open_grants_def fopen_def)
qed

lemma fopen_twice_Some:
  assumes inv: "stdio_inv st" and grants: "open_grants env fname (st_fs st)"
  obtains h st' where "fopen_twice env fname st = (Some h, st')" "stdio_inv st'"
    "st_open st h = None" "st_open st' = (st_open st)(h \<mapsto> \<lparr>f_path = fname, f_pos = 0\<rparr>)"
    "st_fs st' = opened_fs env fname (st_fs st)"
proof (cases "e_fopen_r env \<and> st_fs st fname \<noteq> None")
  case True
  then obtain h st' where o: "fopen (e_fopen_r env) fname R_plus_b st = (Some h, st')"
    by (auto simp: fopen_def fresh_file_def)
  with stdio.open_Some [OF inv o] True that [of h st'] show thesis
    by (simp add: fopen_twice_def opened_fs_def)
next
  case False
  then have r: "fopen (e_fopen_r env) fname R_plus_b st = (None, st)"
    by (auto simp: fopen_def)
  from False grants have "e_fopen_w env" by (auto simp: open_grants_def)
  then obtain h st' where o: "fopen (e_fopen_w env) fname W_plus_b st = (Some h, st')"
    by (auto simp: fopen_def fresh_file_def)
  with r stdio.open_Some [OF inv o] False that [of h st'] show thesis
    by (auto simp: fopen_twice_def opened_fs_def)
qed

text \<open>The session entries after an attempt to open: the slot's file, identifier and name.\<close>

abbreviation named_entry :: "session_entry \<Rightarrow> nat option \<Rightarrow> u16 \<Rightarrow> bytes \<Rightarrow> session_entry" where
  "named_entry s f sid fname \<equiv> s\<lparr>se_file := f, se_id := sid, se_fname := fname\<rparr>"

definition opened_state :: "nat \<Rightarrow> nat \<Rightarrow> u16 \<Rightarrow> bytes \<Rightarrow> stdio \<Rightarrow> upload_state \<Rightarrow> upload_state" where
  "opened_state i h sid fname st us =
     us\<lparr>session_used := session_used us @ [i], session_unused := tl (session_unused us),
        sessions := (sessions us)[i := named_entry (sessions us ! i) (Some h) sid fname],
        us_stdio := st\<rparr>"

definition refused_state :: "nat \<Rightarrow> u16 \<Rightarrow> bytes \<Rightarrow> upload_state \<Rightarrow> upload_state" where
  "refused_state i sid fname us =
     us\<lparr>session_unused := tl (session_unused us) @ [i],
        sessions := (sessions us)[i := named_entry (sessions us ! i) None sid fname]\<rparr>"

lemma open_upload_file_entry:
  assumes inv: "upload_inv us" and new: "search_used_session sid us = None"
    and l: "session_unused us = i # l" and f: "fopen_twice env fname (us_stdio us) = (f, st)"
  defines "us1 \<equiv> us\<lparr>session_used := session_used us @ [i], session_unused := l\<rparr>"
  shows "i < length (sessions us)" "i \<notin> set (session_used us)"
    "open_upload_file env sid fname us =
      (0, let us3 = set_session i ((sessions us ! i)\<lparr>se_file := f\<rparr>) (us1\<lparr>us_stdio := st\<rparr>);
              us4 = (if f = None then release_session i us3 else us3)
          in set_session i ((sessions us4 ! i)\<lparr>se_id := sid, se_fname := fname\<rparr>) us4)"
proof -
  have acq: "get_unused_session us = (Some i, us1)"
    using l by (simp add: get_unused_session_def us1_def)
  from pool.acquired_is_new [OF upload_inv_pool [OF inv] acq] inv
  show "i < length (sessions us)" "i \<notin> set (session_used us)"
    by (auto simp: upload_inv_def pool_wf_def)
  show "open_upload_file env sid fname us =
      (0, let us3 = set_session i ((sessions us ! i)\<lparr>se_file := f\<rparr>) (us1\<lparr>us_stdio := st\<rparr>);
              us4 = (if f = None then release_session i us3 else us3)
          in set_session i ((sessions us4 ! i)\<lparr>se_id := sid, se_fname := fname\<rparr>) us4)"
    using new acq f
    by (auto simp: open_upload_file_def fopen_twice_def us1_def Let_def split: prod.splits)
qed

lemma open_upload_file_cases:
  assumes inv: "upload_inv us"
  obtains (used) i where "search_used_session sid us = Some i"
      "open_upload_file env sid fname us = (- EEXIST, us)"
  | (full) "search_used_session sid us = None" "session_unused us = []"
      "open_upload_file env sid fname us = (- EMFILE, us)"
  | (refused) i where "search_used_session sid us = None" "session_unused us \<noteq> []"
      "i = hd (session_unused us)" "\<not> open_grants env fname (st_fs (us_stdio us))"
      "open_upload_file env sid fname us = (0, refused_state i sid fname us)"
  | (opened) i h st where "search_used_session sid us = None" "session_unused us \<noteq> []"
      "i = hd (session_unused us)" "open_grants env fname (st_fs (us_stdio us))"
      "stdio_inv st" "st_open (us_stdio us) h = None"
      "st_open st = (st_open (us_stdio us))(h \<mapsto> \<lparr>f_path = fname, f_pos = 0\<rparr>)"
      "st_fs st = opened_fs env fname (st_fs (us_stdio us))"
      "open_upload_file env sid fname us = (0, opened_state i h sid fname st us)"
proof (cases "search_used_session sid us")
  case (Some i)
  then show thesis by (intro used) (simp_all add: open_upload_file_def)
next
  case None
  show thesis
  proof (cases "session_unused us")
    case Nil
    with None show thesis
      by (intro full) (simp_all add: open_upload_file_def get_unused_session_def)
  next
    case (Cons i l)
    obtain f st where f: "fopen_twice env fname (us_stdio us) = (f, st)"
      by (cases "fopen_twice env fname (us_stdio us)")
    note entry = open_upload_file_entry [OF inv None Cons f]
    show thesis
    proof (cases "open_grants env fname (st_fs (us_stdio us))")
      case False
      with f fopen_twice_None have "f = None" "st = us_stdio us" by auto
      with False None Cons entry show thesis
        by (intro refused [of i])
          (simp_all add: refused_state_def set_session_def release_session_def remove1_append)
    next
      case True
      from fopen_twice_Some [OF upload_inv_stdio [OF inv] True] f
      obtain h where "f = Some h" "stdio_inv st" "st_open (us_stdio us) h = None"
        "st_open st = (st_open (us_stdio us))(h \<mapsto> \<lparr>f_path = fname, f_pos = 0\<rparr>)"
        "st_fs st = opened_fs env fname (st_fs (us_stdio us))" by auto
      with True None Cons entry show thesis
        by (intro opened [of i st h]) (simp_all add: opened_state_def set_session_def)
    qed
  qed
qed

lemma unused_hd:
  assumes "upload_inv us" "session_unused us \<noteq> []" "i = hd (session_unused us)"
  shows "session_unused us = i # tl (session_unused us)" "i < UPLOAD_MAX_SESSION"
    "i < length (sessions us)" "i \<notin> set (session_used us)"
  using assms by (cases "session_unused us"; auto simp: upload_inv_def pool_wf_def)+

lemma upload_inv_refused:
  assumes inv: "upload_inv us" and ne: "session_unused us \<noteq> []" and i: "i = hd (session_unused us)"
  shows "upload_inv (refused_state i sid fname us)"
proof -
  note u = unused_hd [OF inv ne i]
  then have other: "(sessions us)[i := x] ! j = sessions us ! j"
    if "j \<in> set (session_used us)" for j x using that by (metis nth_list_update_neq)
  have "pool_wf (refused_state i sid fname us)"
    using u inv by (cases "session_unused us") (auto simp: upload_inv_def pool_wf_def refused_state_def)
  moreover have "ids_wf (refused_state i sid fname us)"
    using upload_inv_ids [OF inv] other
    by (auto simp: ids_wf_def refused_state_def inj_on_def)
  moreover have "files_wf (refused_state i sid fname us)"
    using upload_inv_files [OF inv] other
    by (simp add: files_wf_def refused_state_def inj_on_def)
  moreover have "batch_wf (sessions (refused_state i sid fname us) ! j)"
    if "j < UPLOAD_MAX_SESSION" for j
    using upload_inv_batch [OF inv that] u
    by (cases "j = i") (simp_all add: refused_state_def batch_wf_def)
  ultimately show ?thesis by (simp add: upload_inv_def)
qed

lemma files_wf_opened:
  fixes sid :: u16
  assumes inv: "upload_inv us" and ne: "session_unused us \<noteq> []" and i: "i = hd (session_unused us)"
    and st: "stdio_inv st" "st_open (us_stdio us) h = None"
      "st_open st = (st_open (us_stdio us))(h \<mapsto> \<lparr>f_path = fname, f_pos = 0\<rparr>)"
  defines "us' \<equiv> opened_state i h sid fname st us"
  shows "files_wf us'"
  unfolding files_wf_def
proof (intro conjI allI ballI impI)
  note u = unused_hd [OF inv ne i] and us'_def [simp] and opened_state_def [simp]
  have other: "(sessions us)[i := x] ! j = sessions us ! j"
    if "j \<in> set (session_used us)" for j x using that u by (metis nth_list_update_neq)
  have hs: "se_file (sessions us ! j) \<noteq> Some h" if "j \<in> set (session_used us)" for j
    using upload_inv_file [OF inv that] st(2) by fastforce
  show "\<exists>h' pos. se_file (sessions us' ! j) = Some h' \<and>
      st_open (us_stdio us') h' = Some \<lparr>f_path = se_fname (sessions us' ! j), f_pos = pos\<rparr>"
    if j: "j \<in> set (session_used us')" for j
  proof (cases "j = i")
    case False
    with j have used: "j \<in> set (session_used us)" by auto
    from upload_inv_file [OF inv used] obtain h' pos where
      "se_file (sessions us ! j) = Some h'"
      "st_open (us_stdio us) h' = Some \<lparr>f_path = se_fname (sessions us ! j), f_pos = pos\<rparr>" by blast
    with other [OF used] hs [OF used] st show ?thesis by auto
  qed (use u st in simp)
  show "inj_on (\<lambda>j. se_file (sessions us' ! j)) (set (session_used us'))"
    using upload_inv_files [OF inv] other hs u(3) by (force simp: files_wf_def inj_on_def)
  show "\<exists>j \<in> set (session_used us'). se_file (sessions us' ! j) = Some h'"
    if h': "st_open (us_stdio us') h' \<noteq> None" for h'
  proof (cases "h' = h")
    case False
    with h' st(3) have "st_open (us_stdio us) h' \<noteq> None" by simp
    with upload_inv_files [OF inv] obtain j where
      "j \<in> set (session_used us)" "se_file (sessions us ! j) = Some h'"
      by (auto simp: files_wf_def)
    with other show ?thesis by (intro bexI [of _ j]) simp_all
  qed (use u in auto)
qed (use st in \<open>simp add: us'_def opened_state_def\<close>)

lemma upload_inv_opened:
  assumes inv: "upload_inv us" and ne: "session_unused us \<noteq> []" and i: "i = hd (session_unused us)"
    and new: "search_used_session sid us = None"
    and st: "stdio_inv st" "st_open (us_stdio us) h = None"
      "st_open st = (st_open (us_stdio us))(h \<mapsto> \<lparr>f_path = fname, f_pos = 0\<rparr>)"
  shows "upload_inv (opened_state i h sid fname st us)"
proof -
  note u = unused_hd [OF inv ne i]
  then have other: "(sessions us)[i := x] ! j = sessions us ! j"
    if "j \<in> set (session_used us)" for j x using that by (metis nth_list_update_neq)
  have ids: "se_id (sessions us ! j) \<noteq> sid" if "j \<in> set (session_used us)" for j
    using new that by (simp add: search_used_None)
  have "pool_wf (opened_state i h sid fname st us)"
    using u inv by (cases "session_unused us") (auto simp: upload_inv_def pool_wf_def opened_state_def)
  moreover have "ids_wf (opened_state i h sid fname st us)"
    using upload_inv_ids [OF inv] other ids u(3)
    by (force simp: ids_wf_def opened_state_def inj_on_def)
  moreover have "batch_wf (sessions (opened_state i h sid fname st us) ! j)"
    if "j < UPLOAD_MAX_SESSION" for j
    using upload_inv_batch [OF inv that] u
    by (cases "j = i") (simp_all add: opened_state_def batch_wf_def)
  ultimately show ?thesis
    using files_wf_opened [OF inv ne i st, of sid] by (simp add: upload_inv_def)
qed

lemma upload_inv_open:
  assumes inv: "upload_inv us" and run: "open_upload_file env sid fname us = (ret, us')"
  shows "upload_inv us'"
  using inv
proof (cases rule: open_upload_file_cases [of us sid env fname])
  case (refused i)
  with inv run show ?thesis using upload_inv_refused by auto
next
  case (opened i h st)
  with inv run show ?thesis using upload_inv_opened by auto
qed (use inv run in auto)

section \<open>Writing\<close>

text \<open>The files and the positions after an attempt to write.\<close>

definition written_fs :: "upload_env \<Rightarrow> bytes \<Rightarrow> nat \<Rightarrow> bytes \<Rightarrow> (bytes \<rightharpoonup> bytes) \<Rightarrow> (bytes \<rightharpoonup> bytes)" where
  "written_fs env path offset d fs =
     (if e_fseek env then
        fs(path \<mapsto> file_write (case fs path of None \<Rightarrow> [] | Some c \<Rightarrow> c) offset (take (e_fwrite env) d))
      else fs)"

definition write_result :: "upload_env \<Rightarrow> bytes \<Rightarrow> int" where
  "write_result env d = (if e_fseek env then int (min (e_fwrite env) (length d)) else -1)"

definition same_paths :: "stdio \<Rightarrow> stdio \<Rightarrow> bool" where
  "same_paths st st' \<longleftrightarrow>
     (\<forall>h. map_option f_path (st_open st' h) = map_option f_path (st_open st h))"

lemma same_paths_None: "same_paths st st' \<Longrightarrow> st_open st' h = None \<longleftrightarrow> st_open st h = None"
  unfolding same_paths_def by (metis option.map_disc_iff)

lemma same_paths_Some:
  assumes "same_paths st st'" "st_open st h = Some f"
  obtains pos where "st_open st' h = Some \<lparr>f_path = f_path f, f_pos = pos\<rparr>"
proof -
  have "map_option f_path (st_open st' h) = Some (f_path f)"
    using assms by (simp add: same_paths_def)
  then obtain f' where "st_open st' h = Some f'" "f_path f' = f_path f" by auto
  then show thesis by (intro that [of "f_pos f'"]) (cases f'; simp)
qed

lemma write_upload_file_used:
  assumes inv: "upload_inv us" and i: "i \<in> set (session_used us)"
  obtains st where
    "write_upload_file env (sessions us ! i) offset d (us_stdio us) = Inr (write_result env d, st)"
    "stdio_inv st" "same_paths (us_stdio us) st"
    "st_fs st = written_fs env (se_fname (sessions us ! i)) (unat offset) d (st_fs (us_stdio us))"
proof -
  note sinv = upload_inv_stdio [OF inv]
  from upload_inv_file [OF inv i] obtain h pos where
    h: "se_file (sessions us ! i) = Some h" and
    f: "st_open (us_stdio us) h = Some \<lparr>f_path = se_fname (sessions us ! i), f_pos = pos\<rparr>" .
  show thesis
  proof (cases "e_fseek env")
    case True
    from stdio.seek_write [OF sinv f, of "unat offset" "e_fwrite env" d]
    obtain st1 st2 where
      "fseek True h (unat offset) (us_stdio us) = Inr (0, st1)"
      "fwrite (e_fwrite env) h d st1 = Inr (min (e_fwrite env) (length d), st2)"
      "stdio_inv st2"
      "st_fs st2 = (st_fs (us_stdio us))(se_fname (sessions us ! i) \<mapsto>
         file_write (case st_fs (us_stdio us) (se_fname (sessions us ! i)) of None \<Rightarrow> [] | Some c \<Rightarrow> c)
           (unat offset) (take (e_fwrite env) d))"
      "st_open st2 = (st_open (us_stdio us))(h \<mapsto>
         \<lparr>f_path = se_fname (sessions us ! i), f_pos = unat offset + min (e_fwrite env) (length d)\<rparr>)"
      by (auto simp del: fun_upd_apply)
    with True h f show thesis
      by (intro that [of st2])
        (simp_all add: write_upload_file_def write_result_def written_fs_def same_paths_def)
  next
    case False
    with f have "fseek (e_fseek env) h (unat offset) (us_stdio us) = Inr (-1, us_stdio us)"
      by (simp add: fseek_def)
    with False h sinv show thesis
      by (intro that [of "us_stdio us"])
        (simp_all add: write_upload_file_def write_result_def written_fs_def same_paths_def)
  qed
qed

text \<open>A step on one session in use that keeps its identifier, its file and its name, and
  that moves only the positions of the open files.\<close>

lemma upload_inv_update:
  assumes inv: "upload_inv us" and i: "i \<in> set (session_used us)"
    and s: "se_id s = se_id (sessions us ! i)" "se_file s = se_file (sessions us ! i)"
      "se_fname s = se_fname (sessions us ! i)" "batch_wf s"
    and st: "stdio_inv st" "same_paths (us_stdio us) st"
  shows "upload_inv (set_session i s (us\<lparr>us_stdio := st\<rparr>))"
proof -
  let ?us = "set_session i s (us\<lparr>us_stdio := st\<rparr>)"
  note len = upload_inv_used [OF inv i]
  have fields: "se_id (sessions ?us ! j) = se_id (sessions us ! j)"
    "se_file (sessions ?us ! j) = se_file (sessions us ! j)"
    "se_fname (sessions ?us ! j) = se_fname (sessions us ! j)" for j
    using len s by (cases "j = i"; simp add: set_session_def)+
  have used: "session_used ?us = session_used us" "us_stdio ?us = st"
    by (simp_all add: set_session_def)
  have "pool_wf ?us"
    using inv by (simp add: upload_inv_def pool_wf_def set_session_def)
  moreover have "ids_wf ?us"
    using upload_inv_ids [OF inv] by (simp add: ids_wf_def fields used)
  moreover have "files_wf ?us"
    unfolding files_wf_def used fields
  proof (intro conjI ballI allI impI)
    fix j
    assume "j \<in> set (session_used us)"
    from upload_inv_file [OF inv this] obtain h pos where
      h: "se_file (sessions us ! j) = Some h" and
      f: "st_open (us_stdio us) h = Some \<lparr>f_path = se_fname (sessions us ! j), f_pos = pos\<rparr>" .
    from same_paths_Some [OF st(2) f] obtain pos' where
      "st_open st h = Some \<lparr>f_path = se_fname (sessions us ! j), f_pos = pos'\<rparr>" by auto
    with h show "\<exists>h pos. se_file (sessions us ! j) = Some h \<and>
      st_open st h = Some \<lparr>f_path = se_fname (sessions us ! j), f_pos = pos\<rparr>" by blast
  next
    fix h
    assume "st_open st h \<noteq> None"
    with st(2) have "st_open (us_stdio us) h \<noteq> None" by (simp add: same_paths_None)
    then show "\<exists>j \<in> set (session_used us). se_file (sessions us ! j) = Some h"
      using upload_inv_files [OF inv] by (auto simp: files_wf_def)
  qed (use st upload_inv_files [OF inv] in \<open>auto simp: files_wf_def\<close>)
  moreover have "batch_wf (sessions ?us ! j)" if "j < UPLOAD_MAX_SESSION" for j
    using upload_inv_batch [OF inv that] s(4) len by (cases "j = i") (simp_all add: set_session_def)
  ultimately show ?thesis by (simp add: upload_inv_def)
qed

section \<open>Batches of acknowledgements\<close>

text \<open>The acknowledgements a session has stacked and not sent yet.\<close>

definition pending :: "session_entry \<Rightarrow> upload_data_reply_entry list" where
  "pending s = take (unat (se_reply_count s)) (ud_entry (se_data_reply s))"

definition ack :: "int \<Rightarrow> u32 \<Rightarrow> u32 \<Rightarrow> upload_data_reply_entry" where
  "ack ret offset sz = \<lparr>ue_error_code = htole32 ret, ue_offset = offset, ue_size = sz\<rparr>"

definition pad_entries :: "upload_data_reply_entry list \<Rightarrow> upload_data_reply_entry list" where
  "pad_entries es = es @ replicate (UPLOAD_DATA_REPLY_ENTRY - length es) zero_entry"

lemma length_pending: "batch_wf s \<Longrightarrow> length (pending s) = unat (se_reply_count s)"
  by (simp add: pending_def batch_wf_def)

lemma batch_entries:
  assumes "length (ud_entry (se_data_reply s)) = UPLOAD_DATA_REPLY_ENTRY"
    "unat (se_reply_count s) \<le> UPLOAD_DATA_REPLY_ENTRY"
    "\<And>k. unat (se_reply_count s) \<le> k \<Longrightarrow> k < UPLOAD_DATA_REPLY_ENTRY \<Longrightarrow>
       ud_entry (se_data_reply s) ! k = zero_entry"
  shows "ud_entry (se_data_reply s) = pad_entries (pending s)"
  using assms by (intro nth_equalityI) (auto simp: pad_entries_def pending_def nth_append)

lemma stack_reply_spec:
  assumes "batch_wf s"
  obtains s1 where "stack_upload_data_reply s cid ret offset sz = Inr s1"
    "se_id s1 = se_id s" "se_file s1 = se_file s" "se_fname s1 = se_fname s"
    "unat (se_reply_count s1) = Suc (unat (se_reply_count s))"
    "pending s1 = pending s @ [ack ret offset sz]"
    "ud_telemetry_id (se_data_reply s1) = cid" "ud_session_id (se_data_reply s1) = se_id s"
    "ud_entry (se_data_reply s1) = pad_entries (pending s1)"
    "unat (se_reply_count s1) < UPLOAD_DATA_REPLY_ENTRY \<longrightarrow> batch_wf s1"
proof -
  define n where "n = unat (se_reply_count s)"
  have n: "n < 20" "length (ud_entry (se_data_reply s)) = 20"
    using assms by (auto simp: batch_wf_def n_def)
  define s1 where "s1 = s\<lparr>se_data_reply := (se_data_reply s)\<lparr>ud_telemetry_id := cid,
      ud_session_id := se_id s, ud_entry := (ud_entry (se_data_reply s))[n := ack ret offset sz]\<rparr>,
      se_reply_count := se_reply_count s + 1\<rparr>"
  have count: "unat (se_reply_count s1) = Suc n"
    using n by (simp add: s1_def n_def unat_word_ariths)
  have run: "stack_upload_data_reply s cid ret offset sz = Inr s1"
    using n by (simp add: stack_upload_data_reply_def s1_def n_def ack_def Let_def)
  have pend: "pending s1 = pending s @ [ack ret offset sz]"
    using n count by (simp add: pending_def s1_def n_def take_list_update_append)
  have zeros: "ud_entry (se_data_reply s1) ! k = zero_entry" if "Suc n \<le> k" "k < 20" for k
    using that assms by (simp add: s1_def batch_wf_def n_def)
  have "ud_entry (se_data_reply s1) = pad_entries (pending s1)"
    using n count zeros by (intro batch_entries) (auto simp: s1_def)
  moreover have "batch_wf s1" if "unat (se_reply_count s1) < 20"
    using that n count zeros unfolding batch_wf_def by (simp add: s1_def)
  moreover have "se_id s1 = se_id s" "se_file s1 = se_file s" "se_fname s1 = se_fname s"
    "ud_telemetry_id (se_data_reply s1) = cid" "ud_session_id (se_data_reply s1) = se_id s"
    by (simp_all add: s1_def)
  ultimately show thesis
    using run count pend by (intro that [of s1]) (simp_all add: n_def)
qed

lemma send_reply_spec:
  "fst (send_upload_data_reply p s) = s\<lparr>se_reply_count := 0,
     se_data_reply := (se_data_reply s)\<lparr>ud_entry := replicate UPLOAD_DATA_REPLY_ENTRY zero_entry\<rparr>\<rparr>"
  "batch_wf (fst (send_upload_data_reply p s))" "pending (fst (send_upload_data_reply p s)) = []"
  by (simp_all add: send_upload_data_reply_def batch_wf_def pending_def)

section \<open>Closing\<close>

lemma upload_inv_released:
  assumes inv: "upload_inv us" and i: "i \<in> set (session_used us)"
    and h: "se_file (sessions us ! i) = Some h"
    and st: "stdio_inv st" "st_open st = (st_open (us_stdio us))(h := None)"
  shows "upload_inv (release_session i (us\<lparr>us_stdio := st\<rparr>))"
proof -
  let ?us = "release_session i (us\<lparr>us_stdio := st\<rparr>)"
  have dist: "distinct (session_used us)" using inv by (simp add: upload_inv_def pool_wf_def)
  have us: "sessions ?us = sessions us" "us_stdio ?us = st"
    "set (session_used ?us) = set (session_used us) - {i}"
    using dist by (simp_all add: release_session_def)
  have "pool_wf ?us"
    using inv i by (auto simp: upload_inv_def pool_wf_def release_session_def)
  moreover have "ids_wf ?us"
    using upload_inv_ids [OF inv] by (simp add: ids_wf_def us inj_on_diff)
  moreover have inj: "inj_on (\<lambda>i. se_file (sessions us ! i)) (set (session_used us))"
    using upload_inv_files [OF inv] by (simp add: files_wf_def)
  have "files_wf ?us"
    unfolding files_wf_def us
  proof (intro conjI ballI allI impI)
    fix j
    assume j: "j \<in> set (session_used us) - {i}"
    with upload_inv_file [OF inv] obtain h' pos where
      "se_file (sessions us ! j) = Some h'"
      "st_open (us_stdio us) h' = Some \<lparr>f_path = se_fname (sessions us ! j), f_pos = pos\<rparr>" by blast
    moreover from this j inj i h have "h' \<noteq> h" by (auto simp: inj_on_def)
    ultimately show "\<exists>h pos. se_file (sessions us ! j) = Some h \<and>
      st_open st h = Some \<lparr>f_path = se_fname (sessions us ! j), f_pos = pos\<rparr>"
      by (simp add: st)
  next
    fix h'
    assume "st_open st h' \<noteq> None"
    then have "h' \<noteq> h" "st_open (us_stdio us) h' \<noteq> None" by (auto simp: st split: if_splits)
    moreover from this(2) upload_inv_files [OF inv] obtain j where
      "j \<in> set (session_used us)" "se_file (sessions us ! j) = Some h'"
      by (auto simp: files_wf_def)
    ultimately show "\<exists>j \<in> set (session_used us) - {i}. se_file (sessions us ! j) = Some h'"
      using h by auto
  qed (use st inj in \<open>simp_all add: inj_on_diff\<close>)
  moreover have "batch_wf (sessions ?us ! j)" if "j < UPLOAD_MAX_SESSION" for j
    using upload_inv_batch [OF inv that] by (simp add: us)
  ultimately show ?thesis by (simp add: upload_inv_def)
qed

lemma close_upload_file_used:
  assumes inv: "upload_inv us" and i: "search_used_session sid us = Some i"
  obtains h st where "se_file (sessions us ! i) = Some h" "stdio_inv st"
    "st_open st = (st_open (us_stdio us))(h := None)" "st_fs st = st_fs (us_stdio us)"
    "close_upload_file env sid us =
       Inr (if e_fclose env then 0 else -1, release_session i (us\<lparr>us_stdio := st\<rparr>))"
proof -
  from search_used_Some [OF i] have used: "i \<in> set (session_used us)" by simp
  from upload_inv_file [OF inv used] obtain h pos where h: "se_file (sessions us ! i) = Some h"
    "st_open (us_stdio us) h = Some \<lparr>f_path = se_fname (sessions us ! i), f_pos = pos\<rparr>" .
  from stdio.close_Inr [OF upload_inv_stdio [OF inv] h(2), of "e_fclose env"] obtain st where
    "fclose (e_fclose env) h (us_stdio us) = Inr (if e_fclose env then 0 else -1, st)"
    "stdio_inv st" "st_fs st = st_fs (us_stdio us)"
    "st_open st = (st_open (us_stdio us))(h := None)" by blast
  with h i show thesis by (intro that [of h st]) (simp_all add: close_upload_file_def)
qed

lemma close_upload_file_unknown:
  "search_used_session sid us = None \<Longrightarrow> close_upload_file env sid us = Inr (- ENOENT, us)"
  by (simp add: close_upload_file_def)

lemma upload_inv_close:
  assumes inv: "upload_inv us" and run: "close_upload_file env sid us = Inr (ret, us')"
  shows "upload_inv us'"
proof (cases "search_used_session sid us")
  case (Some i)
  from close_upload_file_used [OF inv Some, of env] obtain h st where
    "se_file (sessions us ! i) = Some h" "stdio_inv st"
    "st_open st = (st_open (us_stdio us))(h := None)"
    "close_upload_file env sid us =
       Inr (if e_fclose env then 0 else -1, release_session i (us\<lparr>us_stdio := st\<rparr>))" by metis
  with upload_inv_released [OF inv] search_used_Some [OF Some] run show ?thesis by auto
qed (use run inv close_upload_file_unknown in auto)

end
