(* ===== verification/UploadCmds.thy ===== *)
theory UploadCmds
  imports UploadOps
begin

text \<open>
  The three commands of \<open>upload.c\<close> on well-formed states: a case rule for each that
  gives the result, the state and the trace of every branch, and from it the invariant, the
  absence of faults, the ownership of the packet and the refinement of an abstract
  specification.
\<close>

section \<open>The fields of a request\<close>

definition req_sid :: "csp_packet \<Rightarrow> u16" where
  "req_sid p = rd16 (pk_data p) UPLOAD_SID_OFFSET"

definition req_name :: "csp_packet \<Rightarrow> bytes option" where
  "req_name p = c_string (drop UPLOAD_FNAME_OFFSET (pk_data p))"

definition req_offset :: "csp_packet \<Rightarrow> u32" where
  "req_offset p = rd32 (pk_data p) UPLOAD_OFST_OFFSET"

definition req_size :: "csp_packet \<Rightarrow> u32" where
  "req_size p = rd32 (pk_data p) UPLOAD_SIZE_OFFSET"

definition req_data :: "csp_packet \<Rightarrow> bytes" where
  "req_data p = take (unat (req_size p)) (drop UPLOAD_DATA_OFFSET (pk_data p))"

section \<open>Replies\<close>

definition open_reply :: "u8 \<Rightarrow> int \<Rightarrow> u16 \<Rightarrow> bytes \<Rightarrow> upload_open_reply_telemetry" where
  "open_reply cid ret sid fname =
     \<lparr>uo_telemetry_id = cid, uo_error_code = htole32 ret, uo_session_id = sid,
      uo_file_name = (strncpy fname FILE_NAME_MAX_LEN)[FILE_NAME_MAX_LEN - 1 := 0]\<rparr>"

definition data_reply :: "u8 \<Rightarrow> u16 \<Rightarrow> upload_data_reply_entry list \<Rightarrow> upload_data_reply_telemetry" where
  "data_reply cid sid es =
     \<lparr>ud_telemetry_id = cid, ud_session_id = sid, ud_entry = es\<rparr>"

definition close_reply :: "u8 \<Rightarrow> int \<Rightarrow> u16 \<Rightarrow> upload_close_reply_telemetry" where
  "close_reply cid ret sid =
     \<lparr>uc_telemetry_id = cid, uc_error_code = htole32 ret, uc_session_id = sid\<rparr>"

text \<open>The error reply: one entry of its own, 19 of whatever the stack held.\<close>

definition err_entries ::
    "(nat \<Rightarrow> upload_data_reply_entry) \<Rightarrow> upload_data_reply_entry \<Rightarrow> upload_data_reply_entry list" where
  "err_entries junk e = (map junk [0..<UPLOAD_DATA_REPLY_ENTRY])[0 := e]"

lemma length_err_entries [simp]: "length (err_entries junk e) = UPLOAD_DATA_REPLY_ENTRY"
  by (simp add: err_entries_def)

lemma send_open_reply_eq:
  "send_upload_open_reply p cid ret sid fname =
     [Ev_reply (put_payload p (open_reply_image (open_reply cid ret sid fname)))]"
  by (simp add: send_upload_open_reply_def open_reply_def htole16_def)

lemma send_close_reply_eq:
  "send_upload_close_reply p cid ret sid =
     [Ev_reply (put_payload p (close_reply_image (close_reply cid ret sid)))]"
  by (simp add: send_upload_close_reply_def close_reply_def htole16_def)

lemma send_err_reply_eq:
  "send_upload_data_err_reply junk p cid ret sid offset sz =
     [Ev_reply (put_payload p (data_reply_image
        (data_reply cid sid (err_entries junk (ack ret offset sz)))))]"
  by (simp add: send_upload_data_err_reply_def data_reply_def err_entries_def ack_def htole16_def)

text \<open>A name that fits is the name the reply carries.\<close>

lemma open_reply_name:
  assumes "0 \<notin> set fname" "length fname < FILE_NAME_MAX_LEN"
  shows "c_string (uo_file_name (open_reply cid ret sid fname)) = Some fname"
proof -
  obtain k where k: "64 - length fname = Suc k" using assms(2) by (metis Suc_diff_Suc)
  then have s: "strncpy fname 64 = fname @ 0 # replicate k 0"
    using assms(2) by (simp add: strncpy_def)
  have "(fname @ 0 # replicate k 0) ! 63 = 0"
    using k by (auto simp: nth_append nth_Cons split: nat.splits)
  then have "(fname @ 0 # replicate k 0)[63 := 0] = fname @ 0 # replicate k 0"
    by (metis list_update_id)
  then show ?thesis
    using assms(1) s by (simp add: open_reply_def c_string_append)
qed

section \<open>OPEN\<close>

lemma open_cmd_cases:
  obtains (size) "pk_length p \<noteq> UPLOAD_OPEN_CMD_SIZE"
      "file_upload_open_cmd env cid p us =
         Inr (- EINVAL, us, send_upload_open_reply p cid (- EINVAL) 0 [])"
  | (fault) flt where "pk_length p = UPLOAD_OPEN_CMD_SIZE"
      "\<not> (\<exists>fname. req_name p = Some fname \<and> length fname < FILE_NAME_MAX_LEN)"
      "file_upload_open_cmd env cid p us = Inl flt"
  | (run) fname ret us' where "pk_length p = UPLOAD_OPEN_CMD_SIZE"
      "req_name p = Some fname" "length fname < FILE_NAME_MAX_LEN"
      "open_upload_file env (req_sid p) fname us = (ret, us')"
      "file_upload_open_cmd env cid p us =
         Inr (ret, us', send_upload_open_reply p cid ret (req_sid p) fname)"
proof (cases "pk_length p = UPLOAD_OPEN_CMD_SIZE")
  case False
  then show thesis by (intro size) (simp_all add: file_upload_open_cmd_def)
next
  case True
  show thesis
  proof (cases "strcpy FILE_NAME_MAX_LEN (drop UPLOAD_FNAME_OFFSET (pk_data p))")
    case (Inl flt)
    then have "\<not> (\<exists>fname. req_name p = Some fname \<and> length fname < FILE_NAME_MAX_LEN)"
      by (auto simp: strcpy_def req_name_def)
    with True Inl show thesis
      by (intro fault [of flt]) (simp_all add: file_upload_open_cmd_def)
  next
    case (Inr fname)
    obtain ret us' where "open_upload_file env (req_sid p) fname us = (ret, us')"
      by (cases "open_upload_file env (req_sid p) fname us")
    moreover have "req_name p = Some fname" "length fname < FILE_NAME_MAX_LEN"
      using Inr by (simp_all add: strcpy_Inr req_name_def)
    ultimately show thesis
      using True Inr by (intro run [of fname ret us'])
        (simp_all add: file_upload_open_cmd_def req_sid_def le16toh_def)
  qed
qed

lemma open_cmd_inv:
  assumes inv: "upload_inv us" and run: "file_upload_open_cmd env cid p us = Inr (ret, us', evs)"
  shows "upload_inv us'"
proof (cases rule: open_cmd_cases [of p env cid us])
  case (run fname ret us'')
  then show ?thesis using assms upload_inv_open by auto
qed (use assms in auto)

lemma open_cmd_linear:
  assumes "file_upload_open_cmd env cid p us = Inr (ret, us', evs)"
  shows "linear (pk_ptr p) evs"
  by (cases rule: open_cmd_cases [of p env cid us])
    (use assms in \<open>auto simp: send_open_reply_eq own_simps\<close>)

section \<open>DATA\<close>

text \<open>A batch is sent when it is full or when the chunk is not a full one.\<close>

definition flushes :: "upload_data_reply_entry list \<Rightarrow> u32 \<Rightarrow> bool" where
  "flushes es sz \<longleftrightarrow> UPLOAD_DATA_REPLY_ENTRY \<le> length es \<or> unat sz \<noteq> UPLOAD_DATA_LEN"

definition data_acks ::
    "csp_packet \<Rightarrow> u8 \<Rightarrow> u16 \<Rightarrow> upload_data_reply_entry list \<Rightarrow> bool \<Rightarrow> event list" where
  "data_acks p cid sid es flush =
     (if flush then [Ev_reply (put_payload p (data_reply_image (data_reply cid sid (pad_entries es))))]
      else [Ev_free (pk_ptr p)])"

lemma req_size_memcpy:
  assumes "wf_packet p"
  shows "memcpy UPLOAD_DATA_LEN (drop UPLOAD_DATA_OFFSET (pk_data p)) (unat (req_size p)) =
    (if UPLOAD_DATA_LEN < unat (req_size p) then Inl Write_overrun else Inr (req_data p))"
  using assms by (simp add: memcpy_def req_data_def wf_packet_def)

text \<open>A chunk for an open session: it is written, its acknowledgement joins the batch, and the batch
  is sent when it is due.\<close>

lemma acknowledge:
  assumes batch: "batch_wf e" and s1: "stack_upload_data_reply e cid ret offset sz = Inr s1"
  defines "es \<equiv> pending e @ [ack ret offset sz]"
  shows "\<exists>s. (if UPLOAD_DATA_REPLY_ENTRY \<le> unat (se_reply_count s1) \<or> unat sz \<noteq> UPLOAD_DATA_LEN
        then send_upload_data_reply p s1 else (s1, [Ev_free (pk_ptr p)])) =
          (s, data_acks p cid (se_id e) es (flushes es sz))
    \<and> se_id s = se_id e \<and> se_file s = se_file e \<and> se_fname s = se_fname e \<and> batch_wf s
    \<and> pending s = (if flushes es sz then [] else es)"
proof -
  obtain s2 where "stack_upload_data_reply e cid ret offset sz = Inr s2" and spec:
    "se_id s2 = se_id e" "se_file s2 = se_file e" "se_fname s2 = se_fname e"
    "unat (se_reply_count s2) = Suc (unat (se_reply_count e))" "pending s2 = es"
    "ud_telemetry_id (se_data_reply s2) = cid" "ud_session_id (se_data_reply s2) = se_id e"
    "ud_entry (se_data_reply s2) = pad_entries (pending s2)"
    "unat (se_reply_count s2) < UPLOAD_DATA_REPLY_ENTRY \<longrightarrow> batch_wf s2"
    unfolding es_def by (rule stack_reply_spec [OF batch])
  with s1 have [simp]: "s2 = s1" by simp
  note s = spec [unfolded \<open>s2 = s1\<close>]
  have count: "unat (se_reply_count s1) = length es"
    using s(4) length_pending [OF batch] by (simp add: es_def)
  have tlm: "se_data_reply s1 = data_reply cid (se_id e) (pad_entries es)"
    using s(5-8) by (simp add: data_reply_def)
  let ?flush = "flushes es sz"
  let ?s = "if ?flush then fst (send_upload_data_reply p s1) else s1"
  have "(if UPLOAD_DATA_REPLY_ENTRY \<le> unat (se_reply_count s1) \<or> unat sz \<noteq> UPLOAD_DATA_LEN
      then send_upload_data_reply p s1 else (s1, [Ev_free (pk_ptr p)])) = (?s, data_acks p cid (se_id e) es ?flush)"
    unfolding data_acks_def tlm [symmetric] by (simp add: flushes_def count send_upload_data_reply_def)
  moreover have "batch_wf ?s" "pending ?s = (if ?flush then [] else es)"
    "se_id ?s = se_id e" "se_file ?s = se_file e" "se_fname ?s = se_fname e"
    using send_reply_spec [of p s1] s count by (auto simp: flushes_def)
  ultimately show ?thesis by blast
qed

lemma request_fields:
  "le16toh (rd16 (pk_data p) UPLOAD_SID_OFFSET) = req_sid p"
  "le32toh (rd64 (pk_data p) UPLOAD_OFST_OFFSET) = req_offset p"
  "le32toh (rd64 (pk_data p) UPLOAD_SIZE_OFFSET) = req_size p"
  by (simp_all add: le32toh_rd64 le16toh_def req_sid_def req_offset_def req_size_def)

lemmas data_cmd_unfold = file_upload_data_cmd_def [unfolded request_fields Let_def]

lemma data_cmd_accepted:
  fixes env us i p
  defines "e \<equiv> sessions us ! i" and "ret \<equiv> write_result env (req_data p)"
  defines "es \<equiv> pending e @ [ack ret (req_offset p) (req_size p)]"
  assumes inv: "upload_inv us" and wf: "wf_packet p"
    and len: "pk_length p = UPLOAD_DATA_CMD_SIZE" "unat (req_size p) \<le> UPLOAD_DATA_LEN"
    and known: "search_used_session (req_sid p) us = Some i"
  obtains s st where "se_id s = se_id e" "se_file s = se_file e" "se_fname s = se_fname e" "batch_wf s"
    "pending s = (if flushes es (req_size p) then [] else es)"
    "stdio_inv st" "same_paths (us_stdio us) st"
    "st_fs st = written_fs env (se_fname e) (unat (req_offset p)) (req_data p) (st_fs (us_stdio us))"
    "file_upload_data_cmd env cid p us =
       Inr (ret, set_session i s (us\<lparr>us_stdio := st\<rparr>),
            data_acks p cid (req_sid p) es (flushes es (req_size p))
            @ (if ret < 0 then send_upload_data_err_reply (e_junk env) p cid ret
                                 (req_sid p) (req_offset p) (req_size p)
               else []))"
proof -
  from known have i: "i \<in> set (session_used us)" "se_id e = req_sid p"
    using search_used_Some by (auto simp: e_def)
  with upload_inv_used [OF inv] have batch: "batch_wf e" using upload_inv_batch [OF inv] by (simp add: e_def)
  from write_upload_file_used [OF inv i(1), of env "req_offset p" "req_data p"]
  obtain st where w: "write_upload_file env e (req_offset p) (req_data p) (us_stdio us) = Inr (ret, st)"
    "stdio_inv st" "same_paths (us_stdio us) st"
    "st_fs st = written_fs env (se_fname e) (unat (req_offset p)) (req_data p) (st_fs (us_stdio us))"
    unfolding ret_def e_def .
  from stack_reply_spec [OF batch, of cid ret "req_offset p" "req_size p"] obtain s1 where
    s1: "stack_upload_data_reply e cid ret (req_offset p) (req_size p) = Inr s1" .
  from acknowledge [OF batch s1, of p] obtain s where
    s: "(if UPLOAD_DATA_REPLY_ENTRY \<le> unat (se_reply_count s1) \<or> unat (req_size p) \<noteq> UPLOAD_DATA_LEN
        then send_upload_data_reply p s1 else (s1, [Ev_free (pk_ptr p)])) =
          (s, data_acks p cid (req_sid p) es (flushes es (req_size p)))"
      "se_id s = se_id e" "se_file s = se_file e" "se_fname s = se_fname e" "batch_wf s"
      "pending s = (if flushes es (req_size p) then [] else es)" unfolding i(2) es_def by blast
  show thesis
    by (rule that [OF s(2-6) w(2-4)])
      (use len known w(1) s1 s(1) in \<open>simp add: data_cmd_unfold req_size_memcpy [OF wf] flip: e_def\<close>)
qed

lemma data_cmd_cases:
  assumes inv: "upload_inv us" and wf: "wf_packet p"
  obtains (size) "pk_length p \<noteq> UPLOAD_DATA_CMD_SIZE"
      "file_upload_data_cmd env cid p us =
         Inr (- EINVAL, us, send_upload_data_err_reply (e_junk env) p cid (- EINVAL) 0 0 0)"
  | (overrun) "pk_length p = UPLOAD_DATA_CMD_SIZE" "UPLOAD_DATA_LEN < unat (req_size p)"
      "file_upload_data_cmd env cid p us = Inl Write_overrun"
  | (unknown) "pk_length p = UPLOAD_DATA_CMD_SIZE" "unat (req_size p) \<le> UPLOAD_DATA_LEN"
      "search_used_session (req_sid p) us = None"
      "file_upload_data_cmd env cid p us =
         Inr (- ENOENT, us, send_upload_data_err_reply (e_junk env) p cid (- ENOENT)
                              (req_sid p) (req_offset p) (req_size p))"
  | (accepted) i s st ret es where
      "pk_length p = UPLOAD_DATA_CMD_SIZE" "unat (req_size p) \<le> UPLOAD_DATA_LEN"
      "search_used_session (req_sid p) us = Some i" "i \<in> set (session_used us)"
      "ret = write_result env (req_data p)"
      "es = pending (sessions us ! i) @ [ack ret (req_offset p) (req_size p)]"
      "se_id s = se_id (sessions us ! i)" "se_file s = se_file (sessions us ! i)"
      "se_fname s = se_fname (sessions us ! i)" "batch_wf s"
      "pending s = (if flushes es (req_size p) then [] else es)"
      "stdio_inv st" "same_paths (us_stdio us) st"
      "st_fs st = written_fs env (se_fname (sessions us ! i)) (unat (req_offset p)) (req_data p)
                    (st_fs (us_stdio us))"
      "file_upload_data_cmd env cid p us =
         Inr (ret, set_session i s (us\<lparr>us_stdio := st\<rparr>),
              data_acks p cid (req_sid p) es (flushes es (req_size p))
              @ (if ret < 0 then send_upload_data_err_reply (e_junk env) p cid ret
                                   (req_sid p) (req_offset p) (req_size p)
                 else []))"
proof (cases "pk_length p = UPLOAD_DATA_CMD_SIZE")
  case False
  then show thesis by (intro size) (simp_all add: file_upload_data_cmd_def)
next
  case len: True
  note cmd = data_cmd_unfold [of env cid p us, unfolded req_size_memcpy [OF wf]]
  show thesis
  proof (cases "UPLOAD_DATA_LEN < unat (req_size p)")
    case True
    with len cmd show thesis by (intro overrun) simp_all
  next
    case False
    then have small: "unat (req_size p) \<le> UPLOAD_DATA_LEN" by simp
    show thesis
    proof (cases "search_used_session (req_sid p) us")
      case None
      with len small cmd show thesis by (intro unknown) simp_all
    next
      case (Some i)
      then have "i \<in> set (session_used us)" using search_used_Some by auto
      note acc = accepted [OF len small Some this refl refl]
      show thesis by (rule data_cmd_accepted [OF inv wf len small Some, of env cid]) (rule acc)
    qed
  qed
qed

lemma data_cmd_inv:
  assumes "upload_inv us" "wf_packet p"
    and run: "file_upload_data_cmd env cid p us = Inr (ret, us', evs)"
  shows "upload_inv us'"
  using assms(1,2)
proof (cases rule: data_cmd_cases [of us p env cid])
  case (accepted i s st ret es)
  with upload_inv_update [OF assms(1) accepted(4,7-10,12,13)] run show ?thesis by auto
qed (use assms in auto)

text \<open>The packet is given away once, except after a failed \<open>fseek\<close>.\<close>

definition seek_fails :: "upload_env \<Rightarrow> csp_packet \<Rightarrow> upload_state \<Rightarrow> bool" where
  "seek_fails env p us \<longleftrightarrow> pk_length p = UPLOAD_DATA_CMD_SIZE
     \<and> search_used_session (req_sid p) us \<noteq> None \<and> \<not> e_fseek env"

lemma linear_data_acks: "linear (pk_ptr p) (data_acks p cid sid es flush)"
  by (simp add: data_acks_def own_simps)

lemma data_cmd_ownership:
  assumes "upload_inv us" "wf_packet p"
    and run: "file_upload_data_cmd env cid p us = Inr (ret, us', evs)"
  shows "if seek_fails env p us then misuses (pk_ptr p) evs else linear (pk_ptr p) evs"
  using assms(1,2)
proof (cases rule: data_cmd_cases [of us p env cid])
  case (accepted i s st ret' es)
  show ?thesis
  proof (cases "e_fseek env")
    case True
    with accepted run show ?thesis
      using linear_data_acks by (auto simp: seek_fails_def write_result_def)
  next
    case False
    with accepted run have "seek_fails env p us" "\<exists>q. pk_ptr q = pk_ptr p \<and>
      evs = data_acks p cid (req_sid p) es (flushes es (req_size p)) @ [Ev_reply q]"
      by (auto simp: seek_fails_def write_result_def send_err_reply_eq)
    moreover have "own_run {pk_ptr p} (data_acks p cid sid es fl) = Some {}" for sid es fl
      using linear_data_acks [of p cid sid es fl] by (simp add: linear_def)
    ultimately show ?thesis by (auto simp: misuses_def own_run_append)
  qed
qed (use run in \<open>auto simp: seek_fails_def send_err_reply_eq own_simps\<close>)

section \<open>CLOSE\<close>

lemma close_cmd_cases:
  assumes inv: "upload_inv us"
  obtains (size) "pk_length p \<noteq> UPLOAD_CLOSE_CMD_SIZE"
      "file_upload_close_cmd env cid p us =
         Inr (- EINVAL, us, send_upload_close_reply p cid (- EINVAL) 0)"
  | (unknown) "pk_length p = UPLOAD_CLOSE_CMD_SIZE" "search_used_session (req_sid p) us = None"
      "file_upload_close_cmd env cid p us =
         Inr (- ENOENT, us, send_upload_close_reply p cid (- ENOENT) (req_sid p))"
  | (closed) i h st ret where "pk_length p = UPLOAD_CLOSE_CMD_SIZE"
      "search_used_session (req_sid p) us = Some i" "se_file (sessions us ! i) = Some h"
      "stdio_inv st" "st_open st = (st_open (us_stdio us))(h := None)"
      "st_fs st = st_fs (us_stdio us)" "ret = (if e_fclose env then 0 else -1)"
      "file_upload_close_cmd env cid p us =
         Inr (ret, release_session i (us\<lparr>us_stdio := st\<rparr>),
              send_upload_close_reply p cid ret (req_sid p))"
proof (cases "pk_length p = UPLOAD_CLOSE_CMD_SIZE")
  case False
  then show thesis by (intro size) (simp_all add: file_upload_close_cmd_def)
next
  case len: True
  have sid: "le16toh (rd16 (pk_data p) UPLOAD_SID_OFFSET) = req_sid p"
    by (simp add: le16toh_def req_sid_def)
  show thesis
  proof (cases "search_used_session (req_sid p) us")
    case None
    with len sid show thesis
      by (intro unknown) (simp_all add: file_upload_close_cmd_def close_upload_file_unknown)
  next
    case (Some i)
    from close_upload_file_used [OF inv Some, of env] obtain h st where
      "se_file (sessions us ! i) = Some h" "stdio_inv st"
      "st_open st = (st_open (us_stdio us))(h := None)" "st_fs st = st_fs (us_stdio us)"
      "close_upload_file env (req_sid p) us =
         Inr (if e_fclose env then 0 else -1, release_session i (us\<lparr>us_stdio := st\<rparr>))" .
    with len sid Some show thesis
      by (intro closed [of i h st "if e_fclose env then 0 else -1"])
        (simp_all add: file_upload_close_cmd_def)
  qed
qed

lemma close_cmd_inv:
  assumes inv: "upload_inv us" and run: "file_upload_close_cmd env cid p us = Inr (ret, us', evs)"
  shows "upload_inv us'"
  using inv
proof (cases rule: close_cmd_cases [of us p env cid])
  case (closed i h st ret)
  with upload_inv_released [OF inv _ closed(3-5)] search_used_Some [OF closed(2)] run
  show ?thesis by auto
qed (use inv run in auto)

lemma close_cmd_linear:
  assumes "upload_inv us" and run: "file_upload_close_cmd env cid p us = Inr (ret, us', evs)"
  shows "linear (pk_ptr p) evs"
  using assms(1)
  by (cases rule: close_cmd_cases [of us p env cid])
    (use run in \<open>auto simp: send_close_reply_eq own_simps\<close>)

lemma close_cmd_safe: "upload_inv us \<Longrightarrow> safe (file_upload_close_cmd env cid p us)"
  by (cases rule: close_cmd_cases [of us p env cid]) auto

end
