(* ===== verification/UploadSpec.thy ===== *)
theory UploadSpec
  imports UploadCmds
begin

text \<open>
  What the upload service promises to the ground: an abstract state with the open transfers
  and the contents of the files, the effect of each command on it, and the refinement of the
  abstract commands by those of \<open>upload.c\<close>.
\<close>

section \<open>The abstract service\<close>

text \<open>The open transfers, each a path under an identifier, and the files.\<close>

record upload_spec =
  sp_sess :: "u16 \<rightharpoonup> bytes"
  sp_fs :: "bytes \<rightharpoonup> bytes"

definition spec_open :: "upload_env \<Rightarrow> u16 \<Rightarrow> bytes \<Rightarrow> upload_spec \<Rightarrow> int \<times> upload_spec" where
  "spec_open env sid fname a =
     (if sp_sess a sid \<noteq> None then (- EEXIST, a)
      else if card (dom (sp_sess a)) = UPLOAD_MAX_SESSION then (- EMFILE, a)
      else if open_grants env fname (sp_fs a) then
        (0, a\<lparr>sp_sess := (sp_sess a)(sid \<mapsto> fname), sp_fs := opened_fs env fname (sp_fs a)\<rparr>)
      else (0, a))"

definition spec_data :: "upload_env \<Rightarrow> u16 \<Rightarrow> nat \<Rightarrow> bytes \<Rightarrow> upload_spec \<Rightarrow> int \<times> upload_spec" where
  "spec_data env sid offset d a =
     (case sp_sess a sid of
        None \<Rightarrow> (- ENOENT, a)
      | Some path \<Rightarrow> (write_result env d, a\<lparr>sp_fs := written_fs env path offset d (sp_fs a)\<rparr>))"

definition spec_close :: "upload_env \<Rightarrow> u16 \<Rightarrow> upload_spec \<Rightarrow> int \<times> upload_spec" where
  "spec_close env sid a =
     (case sp_sess a sid of
        None \<Rightarrow> (- ENOENT, a)
      | Some path \<Rightarrow> (if e_fclose env then 0 else -1, a\<lparr>sp_sess := (sp_sess a)(sid := None)\<rparr>))"

definition upload_abs :: "upload_state \<Rightarrow> upload_spec" where
  "upload_abs us =
     \<lparr>sp_sess = (\<lambda>sid. map_option (\<lambda>i. se_fname (sessions us ! i)) (search_used_session sid us)),
      sp_fs = st_fs (us_stdio us)\<rparr>"

lemma upload_abs_sess:
  "sp_sess (upload_abs us) sid = map_option (\<lambda>i. se_fname (sessions us ! i)) (search_used_session sid us)"
  by (simp add: upload_abs_def)

lemma upload_abs_fs: "sp_fs (upload_abs us) = st_fs (us_stdio us)"
  by (simp add: upload_abs_def)

lemma upload_abs_eqI:
  assumes "\<And>sid. sp_sess (upload_abs us) sid = m sid" "st_fs (us_stdio us) = fs"
  shows "upload_abs us = \<lparr>sp_sess = m, sp_fs = fs\<rparr>"
  using assms by (auto simp: upload_abs_def)

lemma card_transfers:
  assumes "upload_inv us"
  shows "card (dom (sp_sess (upload_abs us))) = length (session_used us)"
proof -
  have "dom (sp_sess (upload_abs us)) = (\<lambda>i. se_id (sessions us ! i)) ` set (session_used us)"
    using search_used_iff [OF assms] by (auto simp: upload_abs_def dom_def image_iff)
  moreover have "card ((\<lambda>i. se_id (sessions us ! i)) ` set (session_used us)) = card (set (session_used us))"
    using upload_inv_ids [OF assms] by (simp add: ids_wf_def card_image)
  ultimately show ?thesis
    using assms by (simp add: upload_inv_def pool_wf_def distinct_card)
qed

lemma pool_full_iff:
  assumes "upload_inv us"
  shows "card (dom (sp_sess (upload_abs us))) = UPLOAD_MAX_SESSION \<longleftrightarrow> session_unused us = []"
  using pool.slots_count [OF upload_inv_pool [OF assms]] by (auto simp: card_transfers [OF assms])

section \<open>Refinement\<close>

text \<open>What a change of one slot leaves of the others.\<close>

lemma opened_others:
  assumes inv: "upload_inv us" and ne: "session_unused us \<noteq> []" and i: "i = hd (session_unused us)"
    and inv': "upload_inv (opened_state i h sid fname st us)"
  shows "j \<in> set (session_used us) \<Longrightarrow> sessions (opened_state i h sid fname st us) ! j = sessions us ! j"
    and "sid' \<noteq> sid \<Longrightarrow>
      search_used_session sid' (opened_state i h sid fname st us) = search_used_session sid' us"
    and "search_used_session sid (opened_state i h sid fname st us) = Some i"
proof -
  note u = unused_hd [OF inv ne i]
  let ?us = "opened_state i h sid fname st us"
  have other: "sessions ?us ! j = sessions us ! j" if "j \<in> set (session_used us)" for j
    using that u by (auto simp: opened_state_def nth_list_update)
  then show "j \<in> set (session_used us) \<Longrightarrow> sessions ?us ! j = sessions us ! j" .
  have slot: "sessions ?us ! i = named_entry (sessions us ! i) (Some h) sid fname"
    using u by (simp add: opened_state_def)
  have used: "set (session_used ?us) = insert i (set (session_used us))"
    by (simp add: opened_state_def)
  show "search_used_session sid ?us = Some i"
    using search_used_iff [OF inv'] slot used by simp
  show "search_used_session sid' ?us = search_used_session sid' us" if "sid' \<noteq> sid"
  proof (cases "search_used_session sid' us")
    case (Some j)
    with search_used_Some [OF Some] other used show ?thesis by (simp add: search_used_iff [OF inv'])
  next
    case None
    then have "search_used_session sid' ?us = None"
      using that slot other used by (auto simp: search_used_None)
    with None show ?thesis by simp
  qed
qed

lemma abs_opened:
  assumes inv: "upload_inv us" and ne: "session_unused us \<noteq> []" and i: "i = hd (session_unused us)"
    and new: "search_used_session sid us = None"
    and st: "stdio_inv st" "st_open (us_stdio us) h = None"
      "st_open st = (st_open (us_stdio us))(h \<mapsto> \<lparr>f_path = fname, f_pos = 0\<rparr>)"
  shows "upload_abs (opened_state i h sid fname st us) =
    \<lparr>sp_sess = (sp_sess (upload_abs us))(sid \<mapsto> fname), sp_fs = st_fs st\<rparr>"
proof (rule upload_abs_eqI)
  note u = unused_hd [OF inv ne i] and others = opened_others [OF inv ne i upload_inv_opened [OF inv ne i new st]]
  fix sid'
  show "sp_sess (upload_abs (opened_state i h sid fname st us)) sid' = ((sp_sess (upload_abs us))(sid \<mapsto> fname)) sid'"
  proof (cases "sid' = sid")
    case True
    with others(3) u show ?thesis by (simp add: upload_abs_sess opened_state_def)
  next
    case False
    with others(1,2) search_used_Some show ?thesis
      by (cases "search_used_session sid' us") (auto simp: upload_abs_sess)
  qed
qed (simp add: opened_state_def)

lemma refused_others:
  assumes inv: "upload_inv us" and ne: "session_unused us \<noteq> []" and i: "i = hd (session_unused us)"
  shows "j \<in> set (session_used us) \<Longrightarrow> sessions (refused_state i sid fname us) ! j = sessions us ! j"
    and "search_used_session sid' (refused_state i sid fname us) = search_used_session sid' us"
proof -
  note u = unused_hd [OF inv ne i]
  let ?us = "refused_state i sid fname us"
  have other: "sessions ?us ! j = sessions us ! j" if "j \<in> set (session_used us)" for j
    using that u by (auto simp: refused_state_def nth_list_update)
  then show "j \<in> set (session_used us) \<Longrightarrow> sessions ?us ! j = sessions us ! j" .
  have "search_list (sessions ?us) sid' l = search_list (sessions us) sid' l"
    if "set l \<subseteq> set (session_used us)" for l
    using that other by (induction l) auto
  then show "search_used_session sid' ?us = search_used_session sid' us"
    by (simp add: search_used_session_def refused_state_def)
qed

lemma abs_refused:
  assumes inv: "upload_inv us" and ne: "session_unused us \<noteq> []" and i: "i = hd (session_unused us)"
  shows "upload_abs (refused_state i sid fname us) = upload_abs us"
proof -
  note others = refused_others [OF inv ne i]
  have "map_option (\<lambda>j. se_fname (sessions (refused_state i sid fname us) ! j)) (search_used_session sid' us)
      = map_option (\<lambda>j. se_fname (sessions us ! j)) (search_used_session sid' us)" for sid'
    using others(1) search_used_Some by (cases "search_used_session sid' us") fastforce+
  then show ?thesis by (simp add: upload_abs_def others(2)) (simp add: refused_state_def)
qed

lemma open_upload_file_refines:
  assumes inv: "upload_inv us" and run: "open_upload_file env sid fname us = (ret, us')"
  shows "spec_open env sid fname (upload_abs us) = (ret, upload_abs us')"
  using inv
proof (cases rule: open_upload_file_cases [of us sid env fname])
  case (used i)
  with run show ?thesis by (simp add: spec_open_def upload_abs_sess)
next
  case full
  with run pool_full_iff [OF inv] show ?thesis by (simp add: spec_open_def upload_abs_sess)
next
  case (refused i)
  with run pool_full_iff [OF inv] abs_refused [OF inv refused(2,3)] show ?thesis
    by (auto simp: spec_open_def upload_abs_sess upload_abs_fs)
next
  case (opened i h st)
  with run pool_full_iff [OF inv] abs_opened [OF inv opened(2,3,1,5,6,7)] show ?thesis
    by (auto simp: spec_open_def upload_abs_sess upload_abs_fs)
qed

lemma updated_others:
  assumes "se_id s = se_id (sessions us ! i)" "i < length (sessions us)"
  shows "search_used_session sid (set_session i s (us\<lparr>us_stdio := st\<rparr>)) = search_used_session sid us"
    and "j \<noteq> i \<Longrightarrow> sessions (set_session i s (us\<lparr>us_stdio := st\<rparr>)) ! j = sessions us ! j"
proof -
  let ?us = "set_session i s (us\<lparr>us_stdio := st\<rparr>)"
  have "se_id (sessions ?us ! j) = se_id (sessions us ! j)" for j
    using assms by (cases "j = i") (simp_all add: set_session_def)
  then have "search_list (sessions ?us) sid l = search_list (sessions us) sid l" for l
    by (induction l) simp_all
  then show "search_used_session sid ?us = search_used_session sid us"
    by (simp add: search_used_session_def set_session_def)
qed (simp add: set_session_def)

lemma abs_updated:
  assumes i: "i \<in> set (session_used us)" "i < length (sessions us)"
    and s: "se_id s = se_id (sessions us ! i)" "se_fname s = se_fname (sessions us ! i)"
  shows "upload_abs (set_session i s (us\<lparr>us_stdio := st\<rparr>)) =
    \<lparr>sp_sess = sp_sess (upload_abs us), sp_fs = st_fs st\<rparr>"
proof (rule upload_abs_eqI)
  let ?us = "set_session i s (us\<lparr>us_stdio := st\<rparr>)"
  have "se_fname (sessions ?us ! j) = se_fname (sessions us ! j)" for j
    using i s by (cases "j = i"; simp add: set_session_def)+
  then show "sp_sess (upload_abs ?us) sid = sp_sess (upload_abs us) sid" for sid
    by (simp add: upload_abs_sess updated_others(1) [OF s(1) i(2)])
qed (simp add: set_session_def)

lemma released_others:
  assumes inv: "upload_inv us" and i: "search_used_session sid us = Some i"
  shows "search_used_session sid' (release_session i (us\<lparr>us_stdio := st\<rparr>)) =
      (if sid' = sid then None else search_used_session sid' us)"
    and "sessions (release_session i (us\<lparr>us_stdio := st\<rparr>)) = sessions us"
proof -
  let ?us = "release_session i (us\<lparr>us_stdio := st\<rparr>)"
  have dist: "distinct (session_used us)" using inv by (simp add: upload_inv_def pool_wf_def)
  show same: "sessions ?us = sessions us" by (simp add: release_session_def)
  have used: "set (session_used ?us) = set (session_used us) - {i}"
    using dist by (simp add: release_session_def)
  have sid: "i \<in> set (session_used us)" "se_id (sessions us ! i) = sid"
    using search_used_Some [OF i] by auto
  show "search_used_session sid' ?us = (if sid' = sid then None else search_used_session sid' us)"
  proof (cases "search_used_session sid' ?us")
    case None
    have "search_used_session sid' us = None" if "sid' \<noteq> sid"
    proof (rule ccontr)
      assume "search_used_session sid' us \<noteq> None"
      then obtain j where "search_used_session sid' us = Some j" by blast
      with search_used_Some [OF this] None that sid show False
        by (auto simp: search_used_None same used)
    qed
    with None show ?thesis by simp
  next
    case (Some j)
    then have j: "j \<in> set (session_used us)" "j \<noteq> i" "se_id (sessions us ! j) = sid'"
      using search_used_Some [OF Some] by (auto simp: same used)
    then have "search_used_session sid' us = Some j" by (simp add: search_used_iff [OF inv])
    moreover have "sid' \<noteq> sid"
      using j sid i search_used_iff [OF inv, of sid j] by auto
    ultimately show ?thesis using Some by simp
  qed
qed

lemma abs_released:
  assumes inv: "upload_inv us" and i: "search_used_session sid us = Some i"
  shows "upload_abs (release_session i (us\<lparr>us_stdio := st\<rparr>)) =
    \<lparr>sp_sess = (sp_sess (upload_abs us))(sid := None), sp_fs = st_fs st\<rparr>"
  using released_others [OF inv i]
  by (intro upload_abs_eqI) (simp_all add: upload_abs_sess release_session_def)

lemma open_cmd_abs:
  assumes inv: "upload_inv us" and len: "pk_length p = UPLOAD_OPEN_CMD_SIZE"
    and run: "file_upload_open_cmd env cid p us = Inr (ret, us', evs)"
  shows "\<exists>fname. req_name p = Some fname
    \<and> spec_open env (req_sid p) fname (upload_abs us) = (ret, upload_abs us')
    \<and> evs = [Ev_reply (put_payload p (open_reply_image (open_reply cid ret (req_sid p) fname)))]"
proof (cases rule: open_cmd_cases [of p env cid us])
  case (run fname ret' us'')
  with assms open_upload_file_refines [OF inv run(4)] show ?thesis
    by (auto simp: send_open_reply_eq)
qed (use assms in auto)

lemma data_cmd_abs:
  assumes inv: "upload_inv us" and wf: "wf_packet p" and len: "pk_length p = UPLOAD_DATA_CMD_SIZE"
    and run: "file_upload_data_cmd env cid p us = Inr (ret, us', evs)"
  shows "spec_data env (req_sid p) (unat (req_offset p)) (req_data p) (upload_abs us)
    = (ret, upload_abs us')"
  using inv wf
proof (cases rule: data_cmd_cases [of us p env cid])
  case (accepted i s st ret' es)
  with upload_inv_used [OF inv accepted(4)] abs_updated [OF accepted(4) _ accepted(7,9), of st] run
  show ?thesis by (auto simp: spec_data_def upload_abs_sess upload_abs_fs)
qed (use assms in \<open>auto simp: spec_data_def upload_abs_sess\<close>)

lemma close_cmd_abs:
  assumes inv: "upload_inv us" and len: "pk_length p = UPLOAD_CLOSE_CMD_SIZE"
    and run: "file_upload_close_cmd env cid p us = Inr (ret, us', evs)"
  shows "spec_close env (req_sid p) (upload_abs us) = (ret, upload_abs us')
    \<and> evs = [Ev_reply (put_payload p (close_reply_image (close_reply cid ret (req_sid p))))]"
  using inv
proof (cases rule: close_cmd_cases [of us p env cid])
  case (closed i h st ret')
  with run abs_released [OF inv closed(2), of st] show ?thesis
    by (auto simp: spec_close_def upload_abs_sess upload_abs_fs send_close_reply_eq)
qed (use assms in \<open>auto simp: spec_close_def upload_abs_sess send_close_reply_eq\<close>)

end
