(* ===== verification/WorkQueue.thy ===== *)
theory WorkQueue
  imports Events
begin

text \<open>
  The work queues between the CSP server thread and the two worker threads: the contract of
  a \<open>GQueue\<close> as the code uses it, the loop both worker threads run, and what the loop
  does with the packets of the queue.

  A \<open>GQueue\<close> is the list of its elements from head to tail. glib's documented behaviour
  of the three operations the code calls is all that is used of it; each call is one step.
\<close>

section \<open>The operations\<close>

definition g_queue_init :: "'a list" where
  "g_queue_init = []"

definition g_queue_push_tail :: "'a list \<Rightarrow> 'a \<Rightarrow> 'a list" where
  "g_queue_push_tail q x = q @ [x]"

definition g_queue_pop_head :: "'a list \<Rightarrow> 'a option \<times> 'a list" where
  "g_queue_pop_head q = (case q of [] \<Rightarrow> (None, []) | x # xs \<Rightarrow> (Some x, xs))"

section \<open>Processing a sequence of packets\<close>

text \<open>\<open>run_work work ps s\<close> processes packets one after the other, each with what its
  surroundings decide; a fault ends the run.\<close>

fun run_work ::
    "('e \<Rightarrow> 'p \<Rightarrow> 's \<Rightarrow> ('s \<times> event list) res) \<Rightarrow> ('e \<times> 'p) list \<Rightarrow> 's \<Rightarrow> ('s \<times> event list) res" where
  "run_work work [] s = Inr (s, [])"
| "run_work work ((e, p) # ps) s =
     (case work e p s of
        Inl flt \<Rightarrow> Inl flt
      | Inr (s1, evs1) \<Rightarrow>
        (case run_work work ps s1 of
           Inl flt \<Rightarrow> Inl flt
         | Inr (s2, evs2) \<Rightarrow> Inr (s2, evs1 @ evs2)))"

text \<open>The loop of a worker thread, one element of \<open>envs\<close> per iteration: take the head of
  the queue and work on it, or sleep (\<open>idle\<close>) and try again.\<close>

fun work_loop ::
    "('q \<Rightarrow> 'p option \<times> 'q) \<Rightarrow> ('e \<Rightarrow> 'p \<Rightarrow> 's \<Rightarrow> ('s \<times> event list) res) \<Rightarrow> event
       \<Rightarrow> 'e list \<Rightarrow> 'q \<Rightarrow> 's \<Rightarrow> ('q \<times> 's \<times> event list) res" where
  "work_loop pop work idle [] q s = Inr (q, s, [])"
| "work_loop pop work idle (e # envs) q s =
     (case pop q of
        (None, q1) \<Rightarrow>
          (case work_loop pop work idle envs q1 s of
             Inl flt \<Rightarrow> Inl flt
           | Inr (q2, s2, evs) \<Rightarrow> Inr (q2, s2, idle # evs))
      | (Some p, q1) \<Rightarrow>
          (case work e p s of
             Inl flt \<Rightarrow> Inl flt
           | Inr (s1, evs1) \<Rightarrow>
             (case work_loop pop work idle envs q1 s1 of
                Inl flt \<Rightarrow> Inl flt
              | Inr (q2, s2, evs2) \<Rightarrow> Inr (q2, s2, evs1 @ evs2))))"

lemma run_work_append:
  "run_work work (xs @ ys) s =
     (case run_work work xs s of
        Inl flt \<Rightarrow> Inl flt
      | Inr (s1, evs1) \<Rightarrow>
        (case run_work work ys s1 of
           Inl flt \<Rightarrow> Inl flt
         | Inr (s2, evs2) \<Rightarrow> Inr (s2, evs1 @ evs2)))"
  by (induction work xs s rule: run_work.induct)
    (auto split: sum.splits)

text \<open>Two sequences of packets in any mixture: what every packet of the one establishes and every
  packet of the other keeps holds at the end. \<open>P done s tr\<close> speaks of the packets of the
  first sequence that are done, the state, and the trace.\<close>

lemma run_work_shuffled:
  assumes own: "\<And>done e x rest s tr. xs = done @ (e, x) # rest \<Longrightarrow> P done s tr \<Longrightarrow>
        \<exists>s' evs. work e x s = Inr (s', evs) \<and> P (done @ [(e, x)]) s' (tr @ evs)"
    and other: "\<And>done e y s tr. (e, y) \<in> set ys \<Longrightarrow> P done s tr \<Longrightarrow>
        \<exists>s' evs. work e y s = Inr (s', evs) \<and> P done s' (tr @ evs)"
    and mixed: "zs \<in> shuffles xs' ys'" "xs = done @ xs'" "set ys' \<subseteq> set ys"
    and start: "P done s tr"
  shows "\<exists>s' evs. run_work work zs s = Inr (s', evs) \<and> P xs s' (tr @ evs)"
  using mixed start
proof (induction zs arbitrary: xs' ys' "done" s tr)
  case Nil
  then show ?case by simp
next
  case (Cons z zs)
  obtain e p where z: "z = (e, p)" by fastforce
  from Cons.prems(1) consider
    (mine) xs'' where "xs' = z # xs''" "zs \<in> shuffles xs'' ys'"
  | (theirs) ys'' where "ys' = z # ys''" "zs \<in> shuffles xs' ys''"
    by (cases xs'; cases ys') (auto simp: Cons_in_shuffles_iff)
  then show ?case
  proof cases
    case mine
    with Cons.prems(2) have xs: "xs = done @ (e, p) # xs''" by (simp add: z)
    from own [OF this Cons.prems(4)] obtain s1 evs1 where
      1: "work e p s = Inr (s1, evs1)" "P (done @ [(e, p)]) s1 (tr @ evs1)" by blast
    from xs have "xs = (done @ [(e, p)]) @ xs''" by simp
    from Cons.IH [OF mine(2) this Cons.prems(3) 1(2)] 1(1) show ?thesis by (auto simp: z)
  next
    case theirs
    with Cons.prems(3) z have "(e, p) \<in> set ys" "set ys'' \<subseteq> set ys" by auto
    with other [OF _ Cons.prems(4)] obtain s1 evs1 where
      1: "work e p s = Inr (s1, evs1)" "P done s1 (tr @ evs1)" by blast
    from Cons.IH [OF theirs(2) Cons.prems(2) \<open>set ys'' \<subseteq> set ys\<close> 1(2)] 1(1) show ?thesis by (auto simp: z)
  qed
qed

text \<open>What the journal says after the attempt to start a worker thread.\<close>

datatype thread_log = Unable_to_create | Started

section \<open>The contract\<close>

locale work_queue =
  fixes init :: "'q"
    and push :: "'q \<Rightarrow> 'a \<Rightarrow> 'q"
    and pop :: "'q \<Rightarrow> 'a option \<times> 'q"
    and items :: "'q \<Rightarrow> 'a list"
  assumes items_init: "items init = []"
    and items_push: "items (push q x) = items q @ [x]"
    and pop_empty: "items q = [] \<Longrightarrow> pop q = (None, q)"
    and pop_item: "items q = x # xs \<Longrightarrow> \<exists>q'. pop q = (Some x, q') \<and> items q' = xs"
begin

lemma items_pushes: "items (fold (\<lambda>x q. push q x) xs q) = items q @ xs"
  by (induction xs arbitrary: q) (auto simp: items_push)

text \<open>First in, first out: after any pushes, the pops return the items in their order.\<close>

lemma pop_of_pushed:
  assumes "items q = []"
  shows "\<exists>q'. pop (fold (\<lambda>x q. push q x) (x # xs) q) = (Some x, q') \<and> items q' = xs"
  using pop_item [of "fold (\<lambda>x q. push q x) (x # xs) q" x xs] items_pushes [of "x # xs" q] assms
  by simp

lemma pop_shrinks: "items (snd (pop q)) = tl (items q)"
proof (cases "items q")
  case Nil
  then show ?thesis by (simp add: pop_empty)
next
  case (Cons x xs)
  from pop_item [OF this] Cons show ?thesis by auto
qed

end

text \<open>A worker on such a queue. \<open>inv\<close> is the invariant of the state it works on,
  \<open>ok\<close> what it may assume of a packet.\<close>

locale queue_worker = work_queue init push pop items
  for init :: "'q" and push :: "'q \<Rightarrow> 'a \<Rightarrow> 'q" and pop items +
  fixes work :: "'e \<Rightarrow> 'a \<Rightarrow> 's \<Rightarrow> ('s \<times> event list) res"
    and idle :: event
    and inv :: "'s \<Rightarrow> bool"
    and ok :: "'a \<Rightarrow> bool"
  assumes work_inv: "inv s \<Longrightarrow> ok p \<Longrightarrow> work e p s = Inr (s', evs) \<Longrightarrow> inv s'"
begin

abbreviation loop where "loop \<equiv> work_loop pop work idle"

lemma run_inv:
  "inv s \<Longrightarrow> \<forall>x \<in> set ps. ok (snd x) \<Longrightarrow> run_work work ps s = Inr (s', evs) \<Longrightarrow> inv s'"
  by (induction ps arbitrary: s s' evs)
    (fastforce split: sum.splits prod.splits dest: work_inv)+

text \<open>As many iterations as there are packets process them in the order of the queue.\<close>

lemma loop_drains:
  assumes "length envs = length (items q)" "run_work work (zip envs (items q)) s = Inr (s', evs)"
  shows "\<exists>q'. loop envs q s = Inr (q', s', evs) \<and> items q' = []"
  using assms
proof (induction envs arbitrary: q s s' evs)
  case (Cons e envs)
  then obtain x xs where q: "items q = x # xs" by (cases "items q") auto
  from pop_item [OF q] obtain q1 where q1: "pop q = (Some x, q1)" "items q1 = xs" by blast
  from Cons.prems(2) q obtain s1 evs1 evs2 where
    "work e x s = Inr (s1, evs1)" "run_work work (zip envs xs) s1 = Inr (s', evs2)"
    "evs = evs1 @ evs2"
    by (auto split: sum.splits prod.splits)
  moreover from Cons.IH [of q1 s1 s' evs2] this q q1 Cons.prems(1) obtain q' where
    "loop envs q1 s1 = Inr (q', s', evs2)" "items q' = []" by auto
  ultimately show ?case using q1 by simp
qed auto

lemma loop_fault:
  assumes "length envs = length (items q)" "run_work work (zip envs (items q)) s = Inl flt"
  shows "loop envs q s = Inl flt"
  using assms
proof (induction envs arbitrary: q s)
  case (Cons e envs)
  then obtain x xs where q: "items q = x # xs" by (cases "items q") auto
  from pop_item [OF q] obtain q1 where q1: "pop q = (Some x, q1)" "items q1 = xs" by blast
  with Cons q show ?case by (auto split: sum.splits prod.splits)
qed auto

text \<open>On an empty queue every iteration sleeps.\<close>

lemma loop_idle:
  "items q = [] \<Longrightarrow> loop envs q s = Inr (q, s, replicate (length envs) idle)"
  by (induction envs) (auto simp: pop_empty)

lemma loop_inv:
  assumes "inv s" "\<forall>x \<in> set (items q). ok x" "loop envs q s = Inr (q', s', evs)"
  shows "inv s' \<and> (\<forall>x \<in> set (items q'). ok x)"
  using assms
proof (induction envs arbitrary: q s evs)
  case (Cons e envs)
  show ?case
  proof (cases "items q")
    case Nil
    with Cons.prems loop_idle [OF Nil, of "e # envs" s] show ?thesis by auto
  next
    case q: (Cons x xs)
    from pop_item [OF q] obtain q1 where q1: "pop q = (Some x, q1)" "items q1 = xs" by blast
    with Cons.prems(3) obtain s1 evs1 evs2 where
      w: "work e x s = Inr (s1, evs1)" and l: "loop envs q1 s1 = Inr (q', s', evs2)"
      by (auto split: sum.splits prod.splits)
    from work_inv [OF Cons.prems(1) _ w] Cons.prems(2) q have "inv s1" by simp
    moreover from Cons.prems(2) q q1 have "\<forall>x \<in> set (items q1). ok x" by simp
    ultimately show ?thesis using Cons.IH l by blast
  qed
qed auto

end

text \<open>The lists of the model keep the contract.\<close>

interpretation g_queue: work_queue g_queue_init g_queue_push_tail g_queue_pop_head "\<lambda>q. q"
  by unfold_locales (simp_all add: g_queue_init_def g_queue_push_tail_def g_queue_pop_head_def)

end
