(* ===== verification/FileWork.thy ===== *)
theory FileWork
  imports UploadSpec WorkQueue
begin

text \<open>
  The file component, \<open>csp-handler/files/file.c\<close>: the work queue the CSP server fills,
  the dispatch of a packet to the upload commands, the worker thread and the initialisation.
\<close>

section \<open>Definitions\<close>

abbreviation (input) FILE_CMD_MIN_SIZE :: u16 where "FILE_CMD_MIN_SIZE \<equiv> 1"
abbreviation (input) FILE_UPLOAD_OPEN_CMD :: u8 where "FILE_UPLOAD_OPEN_CMD \<equiv> 2"
abbreviation (input) FILE_UPLOAD_DATA_CMD :: u8 where "FILE_UPLOAD_DATA_CMD \<equiv> 3"
abbreviation (input) FILE_UPLOAD_CLOSE_CMD :: u8 where "FILE_UPLOAD_CLOSE_CMD \<equiv> 4"
abbreviation (input) FILE_WORK_THREAD_SLEEP_USEC :: nat where "FILE_WORK_THREAD_SLEEP_USEC \<equiv> 10000"

definition send_err_reply :: "csp_packet \<Rightarrow> u8 \<Rightarrow> int \<Rightarrow> event list" where
  "send_err_reply packet command_id err_code =
     [Ev_reply (put_payload packet
        (file_err_image \<lparr>fe_telemetry_id = command_id, fe_error_code = htole32 err_code\<rparr>))]"

text \<open>The commands' return values are not used.\<close>

definition drop_ret :: "(int \<times> 's \<times> event list) res \<Rightarrow> ('s \<times> event list) res" where
  "drop_ret r = (case r of Inl flt \<Rightarrow> Inl flt | Inr (ret, s, evs) \<Rightarrow> Inr (s, evs))"

definition csp_file_work ::
    "upload_env \<Rightarrow> csp_packet option \<Rightarrow> upload_state \<Rightarrow> (upload_state \<times> event list) res" where
  "csp_file_work env packet us =
     (case packet of
        None \<Rightarrow> Inr (us, [])
      | Some p \<Rightarrow>
        if pk_length p < FILE_CMD_MIN_SIZE then
          Inr (us, send_err_reply p CSP_UNKNOWN_COMMAND_ID (- EINVAL))
        else
          let command_id = pk_data p ! CSP_COMMAND_ID_OFFSET in
          if command_id = FILE_UPLOAD_OPEN_CMD then
            drop_ret (file_upload_open_cmd env command_id p us)
          else if command_id = FILE_UPLOAD_DATA_CMD then
            drop_ret (file_upload_data_cmd env command_id p us)
          else if command_id = FILE_UPLOAD_CLOSE_CMD then
            drop_ret (file_upload_close_cmd env command_id p us)
          else Inr (us, send_err_reply p CSP_UNKNOWN_COMMAND_ID (- EINVAL)))"

definition file_work_thread ::
    "upload_env list \<Rightarrow> csp_packet list \<Rightarrow> upload_state
       \<Rightarrow> (csp_packet list \<times> upload_state \<times> event list) res" where
  "file_work_thread =
     work_loop g_queue_pop_head (\<lambda>env p. csp_file_work env (Some p)) (Ev_usleep FILE_WORK_THREAD_SLEEP_USEC)"

definition file_handler :: "csp_packet \<Rightarrow> csp_packet list \<Rightarrow> csp_packet list" where
  "file_handler packet file_work_queue = g_queue_push_tail file_work_queue packet"

text \<open>The queue, what the journal says about the thread, and the upload state;
  \<open>ret\<close> is the result of \<open>pthread_create\<close>.\<close>

definition file_handler_init :: "int \<Rightarrow> upload_state \<Rightarrow> csp_packet list \<times> thread_log \<times> upload_state" where
  "file_handler_init ret us =
     (g_queue_init, if ret < 0 then Unable_to_create else Started, upload_handler_init us)"

section \<open>Dispatch\<close>

lemma drop_ret_Inr: "drop_ret r = Inr (s, evs) \<longleftrightarrow> (\<exists>ret. r = Inr (ret, s, evs))"
  by (auto simp: drop_ret_def split: sum.splits)

lemma safe_drop_ret [simp]: "safe (drop_ret r) \<longleftrightarrow> safe r"
  by (auto simp: drop_ret_def safe_def split: sum.splits)

abbreviation file_work :: "upload_env \<Rightarrow> csp_packet \<Rightarrow> upload_state \<Rightarrow> (upload_state \<times> event list) res" where
  "file_work env p \<equiv> csp_file_work env (Some p)"

lemma file_work_cases:
  obtains (open_cmd) "1 \<le> pk_length p" "cmd_id p = FILE_UPLOAD_OPEN_CMD"
      "file_work env p us = drop_ret (file_upload_open_cmd env FILE_UPLOAD_OPEN_CMD p us)"
  | (data_cmd) "1 \<le> pk_length p" "cmd_id p = FILE_UPLOAD_DATA_CMD"
      "file_work env p us = drop_ret (file_upload_data_cmd env FILE_UPLOAD_DATA_CMD p us)"
  | (close_cmd) "1 \<le> pk_length p" "cmd_id p = FILE_UPLOAD_CLOSE_CMD"
      "file_work env p us = drop_ret (file_upload_close_cmd env FILE_UPLOAD_CLOSE_CMD p us)"
  | (other) "pk_length p = 0 \<or> cmd_id p \<notin> {FILE_UPLOAD_OPEN_CMD, FILE_UPLOAD_DATA_CMD, FILE_UPLOAD_CLOSE_CMD}"
      "file_work env p us = Inr (us, send_err_reply p CSP_UNKNOWN_COMMAND_ID (- EINVAL))"
proof -
  have "pk_length p < 1 \<longleftrightarrow> pk_length p = 0" "1 \<le> pk_length p \<longleftrightarrow> pk_length p \<noteq> 0"
    using word_less_1 [of "pk_length p"] by (auto simp: not_less [symmetric])
  then show thesis
    using that
    by (cases "pk_length p = 0"; cases "cmd_id p = FILE_UPLOAD_OPEN_CMD";
        cases "cmd_id p = FILE_UPLOAD_DATA_CMD"; cases "cmd_id p = FILE_UPLOAD_CLOSE_CMD")
      (simp_all add: csp_file_work_def Let_def)
qed

lemma file_work_inv:
  assumes "upload_inv us" "wf_packet p" "file_work env p us = Inr (us', evs)"
  shows "upload_inv us'"
proof (cases rule: file_work_cases [of p env us])
  case open_cmd
  with assms open_cmd_inv show ?thesis by (auto simp: drop_ret_Inr)
next
  case data_cmd
  with assms data_cmd_inv show ?thesis by (auto simp: drop_ret_Inr)
next
  case close_cmd
  with assms close_cmd_inv show ?thesis by (auto simp: drop_ret_Inr)
qed (use assms in auto)

lemma linear_err_reply: "linear (pk_ptr p) (send_err_reply p cid err)"
  by (simp add: send_err_reply_def own_simps)

definition bad_seek :: "upload_env \<Rightarrow> csp_packet \<Rightarrow> upload_state \<Rightarrow> bool" where
  "bad_seek env p us \<longleftrightarrow> cmd_id p = FILE_UPLOAD_DATA_CMD \<and> seek_fails env p us"

lemma file_work_ownership:
  assumes "upload_inv us" "wf_packet p" "file_work env p us = Inr (us', evs)"
  shows "if bad_seek env p us then misuses (pk_ptr p) evs else linear (pk_ptr p) evs"
proof (cases rule: file_work_cases [of p env us])
  case open_cmd
  with assms open_cmd_linear show ?thesis by (auto simp: drop_ret_Inr bad_seek_def)
next
  case data_cmd
  with assms(3) obtain ret where "file_upload_data_cmd env FILE_UPLOAD_DATA_CMD p us = Inr (ret, us', evs)"
    by (auto simp: drop_ret_Inr)
  from data_cmd_ownership [OF assms(1,2) this] data_cmd show ?thesis by (simp add: bad_seek_def)
next
  case close_cmd
  with assms close_cmd_linear show ?thesis by (auto simp: drop_ret_Inr bad_seek_def)
next
  case other
  then have "\<not> bad_seek env p us" by (auto simp: bad_seek_def seek_fails_def)
  with other assms linear_err_reply show ?thesis by auto
qed

text \<open>The component takes no buffer from libcsp.\<close>

lemma acquired_data_acks [simp]: "acquired (data_acks p cid sid es flush) = {}"
  by (simp add: data_acks_def)

lemma acquired_upload_replies [simp]:
  "acquired (send_upload_open_reply p cid ret sid fname) = {}"
  "acquired (send_upload_close_reply p cid ret sid) = {}"
  "acquired (send_upload_data_err_reply junk p cid ret sid ofs sz) = {}"
  "acquired (send_err_reply p cid ret) = {}"
  by (simp_all add: send_open_reply_eq send_close_reply_eq send_err_reply_eq send_err_reply_def)

lemma file_work_acquires:
  assumes "upload_inv us" "wf_packet p" "file_work env p us = Inr (us', evs)"
  shows "acquired evs = {}"
proof (cases rule: file_work_cases [of p env us])
  case open_cmd
  with assms(3) obtain ret where r:
    "file_upload_open_cmd env FILE_UPLOAD_OPEN_CMD p us = Inr (ret, us', evs)"
    by (auto simp: drop_ret_Inr)
  show ?thesis
    by (cases rule: open_cmd_cases [of p env FILE_UPLOAD_OPEN_CMD us]) (use r in auto)
next
  case data_cmd
  with assms(3) obtain ret where r:
    "file_upload_data_cmd env FILE_UPLOAD_DATA_CMD p us = Inr (ret, us', evs)"
    by (auto simp: drop_ret_Inr)
  show ?thesis
    using assms(1,2)
    by (cases rule: data_cmd_cases [of us p env FILE_UPLOAD_DATA_CMD]) (use r in auto)
next
  case close_cmd
  with assms(3) obtain ret where r:
    "file_upload_close_cmd env FILE_UPLOAD_CLOSE_CMD p us = Inr (ret, us', evs)"
    by (auto simp: drop_ret_Inr)
  show ?thesis
    using assms(1)
    by (cases rule: close_cmd_cases [of us p env FILE_UPLOAD_CLOSE_CMD]) (use r in auto)
next
  case other
  with assms(3) show ?thesis by auto
qed

text \<open>What a packet must be for the commands to stay within their arrays: a name that ends
  within 64 bytes, a size of at most 200.\<close>

definition fits :: "csp_packet \<Rightarrow> bool" where
  "fits p \<longleftrightarrow>
     (cmd_id p = FILE_UPLOAD_OPEN_CMD \<and> pk_length p = UPLOAD_OPEN_CMD_SIZE \<longrightarrow>
        (case req_name p of None \<Rightarrow> False | Some fname \<Rightarrow> length fname < FILE_NAME_MAX_LEN))
     \<and> (cmd_id p = FILE_UPLOAD_DATA_CMD \<and> pk_length p = UPLOAD_DATA_CMD_SIZE \<longrightarrow>
        unat (req_size p) \<le> UPLOAD_DATA_LEN)"

lemma data_cmd_safe_iff:
  assumes "upload_inv us" "wf_packet p"
  shows "safe (file_upload_data_cmd env cid p us) \<longleftrightarrow>
    pk_length p \<noteq> UPLOAD_DATA_CMD_SIZE \<or> unat (req_size p) \<le> UPLOAD_DATA_LEN"
  using assms by (cases rule: data_cmd_cases [of us p env cid]) auto

lemma open_cmd_safe_iff:
  "safe (file_upload_open_cmd env cid p us) \<longleftrightarrow>
    pk_length p \<noteq> UPLOAD_OPEN_CMD_SIZE \<or>
    (\<exists>fname. req_name p = Some fname \<and> length fname < FILE_NAME_MAX_LEN)"
  by (cases rule: open_cmd_cases [of p env cid us]) auto

lemma file_work_safe_iff:
  assumes "upload_inv us" "wf_packet p"
  shows "safe (file_work env p us) \<longleftrightarrow> fits p"
proof (cases rule: file_work_cases [of p env us])
  case open_cmd
  then show ?thesis by (auto simp: fits_def open_cmd_safe_iff split: option.splits)
next
  case data_cmd
  then show ?thesis by (auto simp: fits_def data_cmd_safe_iff [OF assms])
next
  case close_cmd
  with close_cmd_safe [OF assms(1)] show ?thesis by (auto simp: fits_def)
next
  case other
  then show ?thesis by (auto simp: fits_def)
qed

interpretation file_worker: queue_worker g_queue_init "\<lambda>q p. file_handler p q" g_queue_pop_head
  "\<lambda>q. q" file_work "Ev_usleep FILE_WORK_THREAD_SLEEP_USEC" upload_inv wf_packet
  by unfold_locales
    (auto simp: file_handler_def g_queue.items_push g_queue.items_init g_queue.pop_item
      g_queue.pop_empty intro: file_work_inv)

end
