(* ===== verification/UploadTransfer.thy ===== *)
theory UploadTransfer
  imports FileWork
begin

text \<open>
  Whole transfers: the requests the ground station sends (the payloads \<open>upload.c\<close>
  decodes), what one request does to the abstract service, and what a complete transfer
  leaves behind: the file it carried, and one acknowledgement per chunk.
\<close>

section \<open>Requests\<close>

definition open_payload :: "u16 \<Rightarrow> bytes \<Rightarrow> bytes" where
  "open_payload sid fname = [FILE_UPLOAD_OPEN_CMD] @ le16 sid @ strncpy fname FILE_NAME_MAX_LEN"

definition data_payload :: "u16 \<Rightarrow> u32 \<Rightarrow> bytes \<Rightarrow> bytes" where
  "data_payload sid offset d =
     [FILE_UPLOAD_DATA_CMD] @ le16 sid @ le32 offset @ le32 (of_nat (length d))
     @ d @ replicate (UPLOAD_DATA_LEN - length d) 0"

definition close_payload :: "u16 \<Rightarrow> bytes" where
  "close_payload sid = [FILE_UPLOAD_CLOSE_CMD] @ le16 sid"

text \<open>A packet carries a payload when its buffer starts with it and its length says so; the
  rest of the buffer is arbitrary.\<close>

definition carries :: "csp_packet \<Rightarrow> bytes \<Rightarrow> bool" where
  "carries p bs \<longleftrightarrow> wf_packet p \<and> payload p = bs"

lemma carries_split:
  assumes "carries p bs"
  obtains rest where "pk_data p = bs @ rest" "unat (pk_length p) = length bs"
proof -
  have "pk_data p = payload p @ drop (unat (pk_length p)) (pk_data p)"
    "length (payload p) = unat (pk_length p)"
    using assms by (auto simp: payload_def carries_def wf_packet_def)
  with assms show thesis by (intro that) (auto simp: carries_def)
qed

lemma carries_length:
  assumes "carries p bs" "length bs = n" "n < 2 ^ 16"
  shows "pk_length p = of_nat n"
proof (rule unsigned_word_eqI)
  have "unat (pk_length p) = n" using carries_split [OF assms(1)] assms(2) by metis
  then show "unat (pk_length p) = unat (of_nat n :: u16)"
    using assms(3) by (simp add: unat_of_nat)
qed

lemma c_string_strncpy_append:
  assumes "0 \<notin> set s" "length s < n"
  shows "c_string (strncpy s n @ rest) = Some s"
proof -
  obtain k where "n - length s = Suc k" using assms(2) by (metis Suc_diff_Suc)
  then have "strncpy s n @ rest = s @ 0 # replicate k 0 @ rest"
    using assms(2) by (simp add: strncpy_def)
  then show ?thesis using assms(1) by (simp add: c_string_append)
qed

lemma open_request:
  assumes "carries p (open_payload sid fname)" "0 \<notin> set fname" "length fname < FILE_NAME_MAX_LEN"
  shows "pk_length p = UPLOAD_OPEN_CMD_SIZE" "1 \<le> pk_length p" "cmd_id p = FILE_UPLOAD_OPEN_CMD"
    "req_sid p = sid" "req_name p = Some fname"
proof -
  obtain rest where d: "pk_data p = open_payload sid fname @ rest"
    using carries_split [OF assms(1)] by metis
  show len: "pk_length p = UPLOAD_OPEN_CMD_SIZE"
    using carries_length [OF assms(1), of 67] by (simp add: open_payload_def)
  show "1 \<le> pk_length p" by (simp add: len)
  show "cmd_id p = FILE_UPLOAD_OPEN_CMD" "req_sid p = sid"
    by (simp_all add: d open_payload_def req_sid_def wire_simps)
  have "drop 3 (pk_data p) = strncpy fname 64 @ rest"
    by (simp add: d open_payload_def le16_def)
  then show "req_name p = Some fname"
    using assms by (simp add: req_name_def c_string_strncpy_append)
qed

lemma data_request:
  assumes "carries p (data_payload sid offset d)" "length d \<le> UPLOAD_DATA_LEN"
  shows "pk_length p = UPLOAD_DATA_CMD_SIZE" "1 \<le> pk_length p" "cmd_id p = FILE_UPLOAD_DATA_CMD"
    "req_sid p = sid" "req_offset p = offset" "req_size p = of_nat (length d)" "req_data p = d"
proof -
  obtain rest where d: "pk_data p = data_payload sid offset d @ rest"
    using carries_split [OF assms(1)] by metis
  show len: "pk_length p = UPLOAD_DATA_CMD_SIZE"
    using carries_length [OF assms(1), of 211] assms(2) by (simp add: data_payload_def)
  show "1 \<le> pk_length p" by (simp add: len)
  show "cmd_id p = FILE_UPLOAD_DATA_CMD" "req_sid p = sid"
    by (simp_all add: d data_payload_def req_sid_def wire_simps)
  show "req_offset p = offset" and sz: "req_size p = of_nat (length d)"
    by (simp_all add: d data_payload_def req_offset_def req_size_def wire_simps eval_nat_numeral)
  have "drop 11 (pk_data p) = d @ replicate (200 - length d) 0 @ rest"
    by (simp add: d data_payload_def le16_def le32_def)
  then show "req_data p = d"
    using assms(2) by (simp add: req_data_def sz unat_of_nat)
qed

lemma close_request:
  assumes "carries p (close_payload sid)"
  shows "pk_length p = UPLOAD_CLOSE_CMD_SIZE" "1 \<le> pk_length p" "cmd_id p = FILE_UPLOAD_CLOSE_CMD"
    "req_sid p = sid"
proof -
  obtain rest where d: "pk_data p = close_payload sid @ rest"
    using carries_split [OF assms(1)] by metis
  show len: "pk_length p = UPLOAD_CLOSE_CMD_SIZE"
    using carries_length [OF assms(1), of 3] by (simp add: close_payload_def)
  show "1 \<le> pk_length p" by (simp add: len)
  show "cmd_id p = FILE_UPLOAD_CLOSE_CMD" "req_sid p = sid"
    by (simp_all add: d close_payload_def req_sid_def wire_simps)
qed

section \<open>One request\<close>

text \<open>Surroundings in which the file system does its part.\<close>

definition good_env :: "upload_env \<Rightarrow> bool" where
  "good_env env \<longleftrightarrow>
     e_fopen_r env \<and> e_fopen_w env \<and> e_fseek env \<and> UPLOAD_DATA_LEN \<le> e_fwrite env \<and> e_fclose env"

definition sp_contents :: "upload_spec \<Rightarrow> bytes \<Rightarrow> bytes" where
  "sp_contents a path = (case sp_fs a path of None \<Rightarrow> [] | Some c \<Rightarrow> c)"

lemma carries_wf: "carries p bs \<Longrightarrow> wf_packet p"
  by (simp add: carries_def)

lemma step_open:
  assumes inv: "upload_inv us" and p: "carries p (open_payload sid fname)"
    and fname: "0 \<notin> set fname" "length fname < FILE_NAME_MAX_LEN" and env: "good_env env"
    and new: "sp_sess (upload_abs us) sid = None" and free: "session_unused us \<noteq> []"
  obtains us' evs where "file_work env p us = Inr (us', evs)" "upload_inv us'"
    "upload_abs us' = \<lparr>sp_sess = (sp_sess (upload_abs us))(sid \<mapsto> fname),
                       sp_fs = (sp_fs (upload_abs us))(fname \<mapsto> sp_contents (upload_abs us) fname)\<rparr>"
proof -
  note req = open_request [OF p fname]
  have "safe (file_upload_open_cmd env FILE_UPLOAD_OPEN_CMD p us)"
    using req fname by (simp add: open_cmd_safe_iff)
  then obtain ret us' evs where run: "file_upload_open_cmd env FILE_UPLOAD_OPEN_CMD p us = Inr (ret, us', evs)"
    by (auto simp: safe_def)
  from open_cmd_abs [OF inv req(1) run] req
  have "spec_open env sid fname (upload_abs us) = (ret, upload_abs us')" by auto
  moreover have "spec_open env sid fname (upload_abs us) =
    (0, \<lparr>sp_sess = (sp_sess (upload_abs us))(sid \<mapsto> fname),
         sp_fs = (sp_fs (upload_abs us))(fname \<mapsto> sp_contents (upload_abs us) fname)\<rparr>)"
    using new free env pool_full_iff [OF inv]
    by (cases "upload_abs us") (auto simp: spec_open_def open_grants_def opened_fs_def good_env_def
        sp_contents_def fun_upd_idem split: option.split)
  ultimately have "upload_abs us' = \<lparr>sp_sess = (sp_sess (upload_abs us))(sid \<mapsto> fname),
                       sp_fs = (sp_fs (upload_abs us))(fname \<mapsto> sp_contents (upload_abs us) fname)\<rparr>" by simp
  moreover have "file_work env p us = Inr (us', evs)"
    using run req by (cases rule: file_work_cases [of p env us]) (auto simp: drop_ret_Inr)
  ultimately show thesis
    using that open_cmd_inv [OF inv run] by blast
qed

lemma step_data:
  assumes inv: "upload_inv us" and p: "carries p (data_payload sid offset d)"
    and d: "length d \<le> UPLOAD_DATA_LEN" and env: "good_env env"
    and sess: "sp_sess (upload_abs us) sid = Some path"
  obtains us' evs where "file_work env p us = Inr (us', evs)" "upload_inv us'"
    "upload_abs us' = (upload_abs us)\<lparr>sp_fs := (sp_fs (upload_abs us))
       (path \<mapsto> file_write (sp_contents (upload_abs us) path) (unat offset) d)\<rparr>"
proof -
  note req = data_request [OF p d] and wf = carries_wf [OF p]
  have "unat (req_size p) \<le> UPLOAD_DATA_LEN"
    using req(6) d by (simp add: unat_of_nat)
  then have "safe (file_upload_data_cmd env FILE_UPLOAD_DATA_CMD p us)"
    by (simp add: data_cmd_safe_iff [OF inv wf])
  then obtain ret us' evs where run: "file_upload_data_cmd env FILE_UPLOAD_DATA_CMD p us = Inr (ret, us', evs)"
    by (auto simp: safe_def)
  have "take (e_fwrite env) d = d" using d env by (simp add: good_env_def)
  with data_cmd_abs [OF inv wf req(1) run] req sess env
  have "upload_abs us' = (upload_abs us)\<lparr>sp_fs := (sp_fs (upload_abs us))
       (path \<mapsto> file_write (sp_contents (upload_abs us) path) (unat offset) d)\<rparr>"
    by (simp add: spec_data_def written_fs_def good_env_def sp_contents_def)
  moreover have "file_work env p us = Inr (us', evs)"
    using run req by (cases rule: file_work_cases [of p env us]) (auto simp: drop_ret_Inr)
  ultimately show thesis
    using that data_cmd_inv [OF inv wf run] by blast
qed

lemma step_close:
  assumes inv: "upload_inv us" and p: "carries p (close_payload sid)" and env: "good_env env"
    and sess: "sp_sess (upload_abs us) sid = Some path"
  obtains us' evs where "file_work env p us = Inr (us', evs)" "upload_inv us'"
    "upload_abs us' = (upload_abs us)\<lparr>sp_sess := (sp_sess (upload_abs us))(sid := None)\<rparr>"
proof -
  note req = close_request [OF p]
  from close_cmd_safe [OF inv] obtain ret us' evs where
    run: "file_upload_close_cmd env FILE_UPLOAD_CLOSE_CMD p us = Inr (ret, us', evs)"
    by (fastforce simp: safe_def)
  from close_cmd_abs [OF inv req(1) run] req sess
  have "upload_abs us' = (upload_abs us)\<lparr>sp_sess := (sp_sess (upload_abs us))(sid := None)\<rparr>"
    by (simp add: spec_close_def)
  moreover have "file_work env p us = Inr (us', evs)"
    using run req by (cases rule: file_work_cases [of p env us]) (auto simp: drop_ret_Inr)
  ultimately show thesis
    using that close_cmd_inv [OF inv run] by blast
qed

section \<open>The chunks of a file\<close>

text \<open>A chunk is an offset and the bytes of the file there.\<close>

definition slice_of :: "bytes \<Rightarrow> nat \<times> bytes \<Rightarrow> bool" where
  "slice_of bs c \<longleftrightarrow> fst c + length (snd c) \<le> length bs
     \<and> snd c = take (length (snd c)) (drop (fst c) bs) \<and> length (snd c) \<le> UPLOAD_DATA_LEN"

definition covers :: "(nat \<times> bytes) list \<Rightarrow> nat \<Rightarrow> bool" where
  "covers cs i \<longleftrightarrow> (\<exists>c \<in> set cs. fst c \<le> i \<and> i < fst c + length (snd c))"

function chunks :: "nat \<Rightarrow> bytes \<Rightarrow> (nat \<times> bytes) list" where
  "chunks pos bs =
     (if bs = [] then []
      else (pos, take UPLOAD_DATA_LEN bs) # chunks (pos + UPLOAD_DATA_LEN) (drop UPLOAD_DATA_LEN bs))"
  by pat_completeness auto
termination
  by (relation "measure (\<lambda>(pos, bs). length bs)") auto

declare chunks.simps [simp del]

lemma chunks_slices:
  "c \<in> set (chunks (length pre) bs) \<Longrightarrow> slice_of (pre @ bs) c"
proof (induction "length pre" bs arbitrary: pre rule: chunks.induct)
  case (1 bs)
  show ?case
  proof (cases "bs = []")
    case True
    with 1 show ?thesis by (simp add: chunks.simps)
  next
    case False
    from 1(2) False consider "c = (length pre, take 200 bs)"
      | "c \<in> set (chunks (length pre + 200) (drop 200 bs))"
      by (auto simp: chunks.simps [of "length pre" bs])
    then show ?thesis
    proof cases
      case 1
      then show ?thesis by (auto simp: slice_of_def min_def)
    next
      case 2
      with False have "200 < length bs" by (cases "200 < length bs") (auto simp: chunks.simps)
      with 2 1(1) [OF False, of "pre @ take 200 bs"] show ?thesis by simp
    qed
  qed
qed

lemma chunks_cover:
  "pos \<le> i \<Longrightarrow> i < pos + length bs \<Longrightarrow> covers (chunks pos bs) i"
proof (induction pos bs rule: chunks.induct)
  case (1 pos bs)
  then have ne: "bs \<noteq> []" by auto
  show ?case
  proof (cases "i < pos + 200")
    case True
    with 1 ne show ?thesis by (auto simp: chunks.simps [of pos bs] covers_def)
  next
    case False
    with 1 ne have "covers (chunks (pos + 200) (drop 200 bs)) i" by simp
    with ne show ?thesis by (auto simp: chunks.simps [of pos bs] covers_def)
  qed
qed

text \<open>What an upload makes of a file that was there: \<open>"r+b"\<close> does not empty it, so what is
  longer than the new contents stays.\<close>

definition uploaded :: "bytes \<Rightarrow> bytes \<Rightarrow> bytes" where
  "uploaded bs old = bs @ drop (length bs) old"

lemma uploaded_shorter [simp]: "length old \<le> length bs \<Longrightarrow> uploaded bs old = bs"
  by (simp add: uploaded_def)

text \<open>Contents on the way there: those of the file wherever a chunk has been written, and the
  old ones behind its end.\<close>

definition partial_copy :: "bytes \<Rightarrow> bytes \<Rightarrow> (nat \<times> bytes) list \<Rightarrow> bytes \<Rightarrow> bool" where
  "partial_copy bs old cs c \<longleftrightarrow> length old \<le> length c \<and> length c \<le> max (length bs) (length old)
     \<and> (\<forall>i. covers cs i \<longrightarrow> i < length c \<and> c ! i = bs ! i)
     \<and> (\<forall>i. length bs \<le> i \<longrightarrow> i < length old \<longrightarrow> c ! i = old ! i)"

lemma partial_copy_start [simp]: "partial_copy bs old [] old"
  by (simp add: partial_copy_def covers_def)

lemma partial_copy_write:
  assumes "partial_copy bs old cs c" "slice_of bs (pos, d)"
  shows "partial_copy bs old (cs @ [(pos, d)]) (file_write c pos d)"
  unfolding partial_copy_def
proof (intro conjI allI impI)
  show "length old \<le> length (file_write c pos d)"
    "length (file_write c pos d) \<le> max (length bs) (length old)"
    using assms by (auto simp: length_file_write partial_copy_def slice_of_def)
next
  fix i
  assume i: "length bs \<le> i" "i < length old"
  with assms have "i < length c" "c ! i = old ! i" "pos + length d \<le> i"
    by (auto simp: partial_copy_def slice_of_def)
  then show "file_write c pos d ! i = old ! i"
    by (subst nth_file_write) (auto simp: length_file_write)
next
  fix i
  assume "covers (cs @ [(pos, d)]) i"
  then consider (new) "pos \<le> i" "i < pos + length d"
    | (old) "covers cs i" "\<not> (pos \<le> i \<and> i < pos + length d)"
    by (auto simp: covers_def)
  then show "i < length (file_write c pos d)" "file_write c pos d ! i = bs ! i"
  proof (atomize (full), cases)
    case new
    then have len: "i < length (file_write c pos d)" by (auto simp: length_file_write)
    have "d ! (i - pos) = take (length d) (drop pos bs) ! (i - pos)"
      using assms(2) unfolding slice_of_def by (metis fst_conv snd_conv)
    also have "\<dots> = bs ! i"
    proof -
      have "i - pos < length d" "pos + (i - pos) = i" using new by arith+
      moreover from this assms(2) have "pos \<le> length bs" by (simp add: slice_of_def)
      ultimately show ?thesis by (simp only: nth_take nth_drop)
    qed
    finally show "i < length (file_write c pos d) \<and> file_write c pos d ! i = bs ! i"
      using new len by (simp add: nth_file_write)
  next
    case old
    with assms(1) have i: "i < length c" "c ! i = bs ! i" by (auto simp: partial_copy_def)
    then have len: "i < length (file_write c pos d)" by (auto simp: length_file_write)
    with old i show "i < length (file_write c pos d) \<and> file_write c pos d ! i = bs ! i"
      by (auto simp: nth_file_write)
  qed
qed

lemma partial_copy_complete:
  assumes "partial_copy bs old cs c" "\<And>i. i < length bs \<Longrightarrow> covers cs i"
  shows "c = uploaded bs old"
proof (rule nth_equalityI)
  from assms have new: "i < length c \<and> c ! i = bs ! i" if "i < length bs" for i
    using that by (auto simp: partial_copy_def)
  then have "length bs \<le> length c" by (metis linorder_not_le order_less_irrefl)
  with assms(1) show len: "length c = length (uploaded bs old)"
    by (auto simp: partial_copy_def uploaded_def max_def split: if_splits)
  fix i
  assume "i < length c"
  with len new [of i] assms(1) show "c ! i = uploaded bs old ! i"
    by (cases "i < length bs") (auto simp: uploaded_def partial_copy_def nth_append)
qed

section \<open>A whole transfer\<close>

text \<open>The packets that carry a list of chunks, each with its surroundings.\<close>

definition carry_all :: "(upload_env \<times> csp_packet) list \<Rightarrow> bytes list \<Rightarrow> bool" where
  "carry_all ps payloads \<longleftrightarrow> list_all2 (\<lambda>(env, p) bs. good_env env \<and> carries p bs) ps payloads"

abbreviation chunk_payload :: "u16 \<Rightarrow> nat \<times> bytes \<Rightarrow> bytes" where
  "chunk_payload sid c \<equiv> data_payload sid (of_nat (fst c)) (snd c)"

lemma step_chunk:
  assumes "upload_inv us" "good_env env" "carries p (chunk_payload sid c)"
    and "sp_sess (upload_abs us) sid = Some path" "slice_of bs c" "length bs < 2 ^ 32"
    and "partial_copy bs old done (sp_contents (upload_abs us) path)"
  obtains us' evs d where "file_work env p us = Inr (us', evs)" "upload_inv us'"
    "upload_abs us' = (upload_abs us)\<lparr>sp_fs := (sp_fs (upload_abs us))(path \<mapsto> d)\<rparr>"
    "partial_copy bs old (done @ [c]) d"
proof -
  have "length (snd c) \<le> UPLOAD_DATA_LEN" "unat (of_nat (fst c) :: u32) = fst c"
    using assms(5,6) by (auto simp: slice_of_def unat_of_nat split: prod.splits)
  with step_data [OF assms(1,3) _ assms(2,4)] obtain us' evs where "file_work env p us = Inr (us', evs)"
    "upload_inv us'" "upload_abs us' = (upload_abs us)\<lparr>sp_fs := (sp_fs (upload_abs us))
       (path \<mapsto> file_write (sp_contents (upload_abs us) path) (fst c) (snd c))\<rparr>" by metis
  moreover have "partial_copy bs old (done @ [c]) (file_write (sp_contents (upload_abs us) path) (fst c) (snd c))"
    using partial_copy_write [OF assms(7), of "fst c" "snd c"] assms(5) by simp
  ultimately show thesis by (rule that)
qed

lemma run_chunks:
  assumes "upload_inv us" "carry_all ps (map (chunk_payload sid) cs)"
    "sp_sess (upload_abs us) sid = Some path" "\<forall>c \<in> set cs. slice_of bs c" "length bs < 2 ^ 32"
    "partial_copy bs old done (sp_contents (upload_abs us) path)" "sp_fs (upload_abs us) path \<noteq> None"
  shows "\<exists>us' evs c. run_work file_work ps us = Inr (us', evs) \<and> upload_inv us'
    \<and> upload_abs us' = (upload_abs us)\<lparr>sp_fs := (sp_fs (upload_abs us))(path \<mapsto> c)\<rparr>
    \<and> partial_copy bs old (done @ cs) c"
  using assms
proof (induction cs arbitrary: us ps "done")
  case Nil
  then have "ps = []" by (simp add: carry_all_def)
  moreover have "(upload_abs us)\<lparr>sp_fs := (sp_fs (upload_abs us))(path \<mapsto> sp_contents (upload_abs us) path)\<rparr>
      = upload_abs us"
    using Nil.prems(7) by (cases "upload_abs us") (auto simp: sp_contents_def)
  ultimately show ?case
    using Nil.prems
    by (intro exI [of _ us] exI [of _ "sp_contents (upload_abs us) path"] exI [of _ "[]"])
      (simp del: fun_upd_apply)
next
  case (Cons c cs)
  from Cons.prems(2) obtain env p ps' where
    ps: "ps = (env, p) # ps'" "good_env env" "carries p (chunk_payload sid c)"
      "carry_all ps' (map (chunk_payload sid) cs)"
    by (auto simp: carry_all_def list_all2_Cons2)
  have slices: "slice_of bs c" "\<forall>c \<in> set cs. slice_of bs c" using Cons.prems(4) by simp_all
  from step_chunk [OF Cons.prems(1) ps(2,3) Cons.prems(3) slices(1) Cons.prems(5,6)]
  obtain us1 evs1 d where s1: "file_work env p us = Inr (us1, evs1)" "upload_inv us1"
    "upload_abs us1 = (upload_abs us)\<lparr>sp_fs := (sp_fs (upload_abs us))(path \<mapsto> d)\<rparr>"
    "partial_copy bs old (done @ [c]) d" .
  then have "sp_sess (upload_abs us1) sid = Some path" "sp_fs (upload_abs us1) path \<noteq> None"
    "partial_copy bs old (done @ [c]) (sp_contents (upload_abs us1) path)"
    using Cons.prems(3) by (simp_all add: sp_contents_def)
  from Cons.IH [OF s1(2) ps(4) this(1) slices(2) Cons.prems(5) this(3,2)]
  obtain us2 evs2 e where s2: "run_work file_work ps' us1 = Inr (us2, evs2)" "upload_inv us2"
    "upload_abs us2 = (upload_abs us1)\<lparr>sp_fs := (sp_fs (upload_abs us1))(path \<mapsto> e)\<rparr>"
    "partial_copy bs old ((done @ [c]) @ cs) e" by blast
  then have "upload_abs us2 = (upload_abs us)\<lparr>sp_fs := (sp_fs (upload_abs us))(path \<mapsto> e)\<rparr>"
    by (simp add: s1(3) del: fun_upd_apply)
  with s1(1) s2(1,2,4) show ?case
    by (intro exI [of _ us2] exI [of _ "evs1 @ evs2"] exI [of _ e])
      (simp add: ps(1) del: fun_upd_apply)
qed

lemma transfer_split:
  assumes "carry_all ps (open_payload sid fname # map (chunk_payload sid) cs @ [close_payload sid])"
  obtains eo po pd ec pc where "ps = (eo, po) # pd @ [(ec, pc)]"
    "good_env eo" "carries po (open_payload sid fname)"
    "carry_all pd (map (chunk_payload sid) cs)" "good_env ec" "carries pc (close_payload sid)"
  using assms by (auto simp: carry_all_def list_all2_Cons2 list_all2_append2)

lemma run_transfer:
  assumes inv: "upload_inv us" and free: "session_unused us \<noteq> []"
    and new: "sp_sess (upload_abs us) sid = None"
    and fname: "0 \<notin> set fname" "length fname < FILE_NAME_MAX_LEN"
    and cs: "set cs = set (chunks 0 bs)" and bs: "length bs < 2 ^ 32"
    and ps: "carry_all ps (open_payload sid fname # map (chunk_payload sid) cs @ [close_payload sid])"
  shows "\<exists>us' evs. run_work file_work ps us = Inr (us', evs) \<and> upload_inv us'
    \<and> upload_abs us' = (upload_abs us)\<lparr>sp_fs := (sp_fs (upload_abs us))
        (fname \<mapsto> uploaded bs (sp_contents (upload_abs us) fname))\<rparr>"
proof -
  let ?old = "sp_contents (upload_abs us) fname"
  from transfer_split [OF ps] obtain eo po pd ec pc where split: "ps = (eo, po) # pd @ [(ec, pc)]"
    "good_env eo" "carries po (open_payload sid fname)"
    "carry_all pd (map (chunk_payload sid) cs)" "good_env ec" "carries pc (close_payload sid)" .
  from step_open [OF inv split(3) fname split(2) new free]
  obtain us1 evs1 where s1: "file_work eo po us = Inr (us1, evs1)" "upload_inv us1"
    "upload_abs us1 = \<lparr>sp_sess = (sp_sess (upload_abs us))(sid \<mapsto> fname),
                       sp_fs = (sp_fs (upload_abs us))(fname \<mapsto> ?old)\<rparr>" by metis
  have "\<forall>c \<in> set cs. slice_of bs c" using chunks_slices [of _ "[]" bs] cs by simp
  then obtain us2 evs2 c where s2: "run_work file_work pd us1 = Inr (us2, evs2)" "upload_inv us2"
    "upload_abs us2 = (upload_abs us1)\<lparr>sp_fs := (sp_fs (upload_abs us1))(fname \<mapsto> c)\<rparr>"
    "partial_copy bs ?old cs c"
    using run_chunks [OF s1(2) split(4), of fname bs ?old "[]"] s1(3) bs
    by (auto simp: sp_contents_def)
  have "covers cs i" if "i < length bs" for i
    using chunks_cover [of 0 i bs] that cs by (simp add: covers_def)
  with partial_copy_complete [OF s2(4)] have "c = uploaded bs ?old" by simp
  moreover from step_close [OF s2(2) split(6,5)] s2(3) s1(3)
  obtain us3 evs3 where s3: "file_work ec pc us2 = Inr (us3, evs3)" "upload_inv us3"
    "upload_abs us3 = (upload_abs us2)\<lparr>sp_sess := (sp_sess (upload_abs us2))(sid := None)\<rparr>" by auto
  moreover have "(sp_sess (upload_abs us))(sid := None) = sp_sess (upload_abs us)"
    using new by auto
  ultimately show ?thesis
    using s1 s2 by (simp add: split(1) run_work_append)
qed

section \<open>Acknowledgements\<close>

text \<open>A chunk a session accepts: a DATA request that fits, in surroundings where the seek
  works. Its acknowledgement carries the number of bytes written as its error code.\<close>

definition data_for :: "u16 \<Rightarrow> upload_env \<times> csp_packet \<Rightarrow> bool" where
  "data_for sid ep \<longleftrightarrow> (case ep of (env, p) \<Rightarrow>
     wf_packet p \<and> 1 \<le> pk_length p \<and> cmd_id p = FILE_UPLOAD_DATA_CMD
     \<and> pk_length p = UPLOAD_DATA_CMD_SIZE \<and> unat (req_size p) \<le> UPLOAD_DATA_LEN
     \<and> req_sid p = sid \<and> e_fseek env)"

definition ack_of :: "upload_env \<times> csp_packet \<Rightarrow> upload_data_reply_entry" where
  "ack_of ep = (case ep of (env, p) \<Rightarrow>
     ack (write_result env (req_data p)) (req_offset p) (req_size p))"

text \<open>The pending batch of the session that has an identifier.\<close>

definition pending_of :: "u16 \<Rightarrow> upload_state \<Rightarrow> upload_data_reply_entry list" where
  "pending_of sid us = (case search_used_session sid us of
     None \<Rightarrow> [] | Some i \<Rightarrow> pending (sessions us ! i))"

definition batch_payload :: "u16 \<Rightarrow> upload_data_reply_entry list \<Rightarrow> bytes" where
  "batch_payload sid es =
     data_reply_image (data_reply FILE_UPLOAD_DATA_CMD sid (pad_entries es))"

lemma ack_step:
  assumes inv: "upload_inv us" and sess: "search_used_session sid us = Some i"
    and data: "data_for sid (env, p)"
  shows "\<exists>us' evs batches. file_work env p us = Inr (us', evs) \<and> upload_inv us'
    \<and> search_used_session sid us' = Some i
    \<and> map payload (sent evs) = map (batch_payload sid) batches
    \<and> concat batches @ pending_of sid us' = pending_of sid us @ [ack_of (env, p)]
    \<and> (\<forall>es \<in> set batches. 0 < length es \<and> length es \<le> UPLOAD_DATA_REPLY_ENTRY)"
proof -
  have req: "wf_packet p" "1 \<le> pk_length p" "cmd_id p = FILE_UPLOAD_DATA_CMD"
    "pk_length p = UPLOAD_DATA_CMD_SIZE" "unat (req_size p) \<le> UPLOAD_DATA_LEN" "req_sid p = sid"
    "e_fseek env"
    using data by (simp_all add: data_for_def)
  from inv req(1) show ?thesis
  proof (cases rule: data_cmd_cases [of us p env FILE_UPLOAD_DATA_CMD])
    case (accepted j s st ret es)
    with sess req have j: "j = i" by simp
    note i5 = upload_inv_used [OF inv accepted(4)]
    have es: "es = pending_of sid us @ [ack_of (env, p)]"
      using accepted j sess by (simp add: pending_of_def ack_of_def)
    have len: "length (pending (sessions us ! i)) < UPLOAD_DATA_REPLY_ENTRY"
      using upload_inv_batch [OF inv] i5 j by (simp add: length_pending) (simp add: batch_wf_def)
    then have les: "0 < length es" "length es \<le> UPLOAD_DATA_REPLY_ENTRY"
      using es sess by (simp_all add: pending_of_def)
    define us' where "us' = set_session i s (us\<lparr>us_stdio := st\<rparr>)"
    have s': "search_used_session sid us' = Some i"
      unfolding us'_def using sess i5 accepted(7) j by (simp add: updated_others(1))
    have pend: "pending_of sid us' = (if flushes es (req_size p) then [] else es)"
      using s' accepted(11) i5 j by (simp add: pending_of_def us'_def set_session_def)
    have "\<not> ret < 0" using accepted(5) req(7) by (simp add: write_result_def)
    with accepted req j have run: "file_work env p us = Inr (us',
        data_acks p FILE_UPLOAD_DATA_CMD sid es (flushes es (req_size p)))"
      by (cases rule: file_work_cases [of p env us]) (auto simp: drop_ret_Inr us'_def)
    have "length (ud_entry (data_reply cid sid (pad_entries es))) = UPLOAD_DATA_REPLY_ENTRY" for cid
      using les by (simp add: data_reply_def pad_entries_def)
    then have "payload (put_payload p (data_reply_image (data_reply FILE_UPLOAD_DATA_CMD sid (pad_entries es))))
        = batch_payload sid es"
      by (simp add: data_reply.reply_payload batch_payload_def)
    then have "map payload (sent (data_acks p FILE_UPLOAD_DATA_CMD sid es (flushes es (req_size p))))
        = map (batch_payload sid) (if flushes es (req_size p) then [es] else [])"
      by (simp add: data_acks_def)
    with run s' pend es les upload_inv_update [OF inv accepted(4,7-10,12,13)] j show ?thesis
      by (intro exI [of _ us'] exI [of _ "data_acks p FILE_UPLOAD_DATA_CMD sid es (flushes es (req_size p))"]
          exI [of _ "if flushes es (req_size p) then [es] else []"])
        (auto simp: us'_def)
  qed (use req sess in auto)
qed

lemma ack_run:
  assumes "upload_inv us" "search_used_session sid us = Some i" "\<forall>ep \<in> set ps. data_for sid ep"
  shows "\<exists>us' evs batches. run_work file_work ps us = Inr (us', evs) \<and> upload_inv us'
    \<and> search_used_session sid us' = Some i
    \<and> map payload (sent evs) = map (batch_payload sid) batches
    \<and> concat batches @ pending_of sid us' = pending_of sid us @ map ack_of ps
    \<and> (\<forall>es \<in> set batches. 0 < length es \<and> length es \<le> UPLOAD_DATA_REPLY_ENTRY)"
  using assms
proof (induction ps arbitrary: us)
  case Nil
  then show ?case by (intro exI [of _ us] exI [of _ "[]"]) simp
next
  case (Cons ep ps)
  obtain env p where ep: "ep = (env, p)" by (cases ep)
  with Cons.prems have "data_for sid (env, p)" by simp
  from ack_step [OF Cons.prems(1,2) this] obtain us1 evs1 b1 where
    1: "file_work env p us = Inr (us1, evs1)" "upload_inv us1" "search_used_session sid us1 = Some i"
      "map payload (sent evs1) = map (batch_payload sid) b1"
      "concat b1 @ pending_of sid us1 = pending_of sid us @ [ack_of (env, p)]"
      "\<forall>es \<in> set b1. 0 < length es \<and> length es \<le> UPLOAD_DATA_REPLY_ENTRY" by blast
  from Cons.IH [OF 1(2,3)] Cons.prems(3) obtain us2 evs2 b2 where
    2: "run_work file_work ps us1 = Inr (us2, evs2)" "upload_inv us2"
      "search_used_session sid us2 = Some i"
      "map payload (sent evs2) = map (batch_payload sid) b2"
      "concat b2 @ pending_of sid us2 = pending_of sid us1 @ map ack_of ps"
      "\<forall>es \<in> set b2. 0 < length es \<and> length es \<le> UPLOAD_DATA_REPLY_ENTRY" by auto
  have "concat (b1 @ b2) @ pending_of sid us2 = pending_of sid us @ map ack_of (ep # ps)"
    using 1(5) 2(5) ep by (metis append.assoc append_Cons append_Nil concat_append list.simps(9))
  with 1 2 ep show ?case
    by (intro exI [of _ us2] exI [of _ "evs1 @ evs2"] exI [of _ "b1 @ b2"]) auto
qed

end
