(* ===== verification/UploadScenario.thy ===== *)
theory UploadScenario
  imports UploadTransfer
begin

text \<open>
  Concrete surroundings, packets and states of the upload service, on which its properties
  are exercised.
\<close>

definition env_ok :: upload_env where
  "env_ok = \<lparr>e_fopen_r = True, e_fopen_w = True, e_fseek = True, e_fwrite = 200, e_fclose = True,
             e_junk = (\<lambda>_. zero_entry)\<rparr>"

text \<open>A system on which no file can be opened or created, and one whose \<open>fseek\<close> fails.\<close>

definition env_denied :: upload_env where
  "env_denied = env_ok\<lparr>e_fopen_r := False, e_fopen_w := False\<rparr>"

definition env_no_seek :: upload_env where
  "env_no_seek = env_ok\<lparr>e_fseek := False\<rparr>"

definition st_empty :: stdio where
  "st_empty = \<lparr>st_fs = Map.empty, st_open = Map.empty, st_next = 0\<rparr>"

definition us_start :: upload_state where
  "us_start = upload_handler_init (upload_statics st_empty)"

lemma carries_mk_packet: "length bs \<le> CSP_BUFFER_SIZE \<Longrightarrow> carries (mk_packet a bs) bs"
  by (simp add: carries_def wf_packet_def payload_def mk_packet_def unat_of_nat)

lemma good_env_ok: "good_env env_ok"
  by (simp add: good_env_def env_ok_def)

lemma st_empty_simps [simp]:
  "stdio_inv st_empty" "st_open st_empty = Map.empty" "st_fs st_empty = Map.empty"
  by (simp_all add: st_empty_def stdio_inv_def)

lemma us_start_inv: "upload_inv us_start"
  by (simp add: us_start_def upload_inv_init)

lemma us_start_eq: "us_start = (upload_statics st_empty)\<lparr>session_unused := [0, 1, 2, 3, 4]\<rparr>"
  unfolding us_start_def by (rule upload_handler_init_statics)

lemma us_start_simps [simp]:
  "session_unused us_start = [0, 1, 2, 3, 4]" "session_used us_start = []"
  "search_used_session sid us_start = None" "st_fs (us_stdio us_start) = Map.empty"
  "upload_abs us_start = \<lparr>sp_sess = Map.empty, sp_fs = Map.empty\<rparr>"
  by (simp_all add: us_start_eq upload_statics_def
      search_used_session_def upload_abs_def)

text \<open>Requests for session 7 and the file \<open>f\<close>.\<close>

definition p_open :: csp_packet where
  "p_open = mk_packet 1 (open_payload 7 [102])"

definition p_data :: csp_packet where
  "p_data = mk_packet 2 (data_payload 7 0 [1, 2, 3])"

definition p_full :: csp_packet where
  "p_full = mk_packet 2 (data_payload 7 0 (replicate 200 1))"

definition p_close :: csp_packet where
  "p_close = mk_packet 3 (close_payload 7)"

lemma carries_examples:
  "carries p_open (open_payload 7 [102])" "carries p_data (data_payload 7 0 [1, 2, 3])"
  "carries p_full (data_payload 7 0 (replicate 200 1))" "carries p_close (close_payload 7)"
  by (simp_all add: p_open_def p_data_def p_full_def p_close_def carries_mk_packet
      open_payload_def data_payload_def close_payload_def)

lemma wf_examples: "wf_packet p_open" "wf_packet p_data" "wf_packet p_full" "wf_packet p_close"
  using carries_examples by (auto intro: carries_wf)

text \<open>The state with session 7 open.\<close>

lemma us_opened:
  obtains us evs where "file_work env_ok p_open us_start = Inr (us, evs)" "upload_inv us"
    "upload_abs us = \<lparr>sp_sess = [7 \<mapsto> [102]], sp_fs = [[102] \<mapsto> []]\<rparr>"
    "search_used_session 7 us \<noteq> None"
proof -
  from step_open [OF us_start_inv carries_examples(1) _ _ good_env_ok]
  obtain us evs where "file_work env_ok p_open us_start = Inr (us, evs)" "upload_inv us"
    "upload_abs us = \<lparr>sp_sess = [7 \<mapsto> [102]], sp_fs = [[102] \<mapsto> []]\<rparr>"
    by (auto simp: sp_contents_def)
  moreover from this have "search_used_session 7 us \<noteq> None"
    using upload_abs_sess [of us 7] by (cases "search_used_session 7 us") simp_all
  ultimately show thesis using that by blast
qed

end
