(* ===== verification/UploadProps.thy ===== *)
theory UploadProps
  imports UploadScenario
begin

text \<open>
  The properties of the upload service and of the file component's dispatch, each with a
  witness on the concrete scenario.
\<close>

section \<open>Safety\<close>

text \<open>C1: From its initial state, and whatever the file system does, any sequence of packets
  leaves the upload component well-formed: every session is in exactly one of the two lists,
  identifiers in use are distinct, each session in use owns one open file of its own and no
  other file is open, and every batch of acknowledgements has room for one more.\<close>

theorem upload_reachable_invariant:
  assumes "stdio_inv st" "st_open st = Map.empty" "\<forall>ep \<in> set ps. wf_packet (snd ep)"
    and "run_work (\<lambda>env p. csp_file_work env (Some p)) ps (upload_handler_init (upload_statics st))
      = Inr (us, evs)"
  shows "upload_inv us"
  using file_worker.run_inv [OF upload_inv_init [OF assms(1,2)] assms(3,4)] .

lemma upload_reachable_invariant_witness:
  "\<exists>us evs. run_work file_work [(env_ok, p_open)] us_start = Inr (us, evs) \<and> upload_inv us"
proof -
  obtain us evs where "file_work env_ok p_open us_start = Inr (us, evs)"
    by (rule us_opened)
  then have run: "run_work file_work [(env_ok, p_open)] (upload_handler_init (upload_statics st_empty))
      = Inr (us, evs)"
    by (simp add: us_start_def)
  have "upload_inv us"
    by (rule upload_reachable_invariant [OF _ _ _ run]) (simp_all add: wf_examples)
  with run show ?thesis by (auto simp: us_start_def)
qed

text \<open>C19: On a well-formed state the file component runs into undefined behaviour exactly on
  the packets that do not fit: an OPEN request whose name has no NUL in its 64 bytes, or a
  DATA request whose size field exceeds 200.\<close>

theorem file_work_fault_iff:
  assumes "upload_inv us" "wf_packet p"
  shows "safe (csp_file_work env (Some p) us) \<longleftrightarrow> fits p"
  using assms by (rule file_work_safe_iff)

lemma file_work_fault_iff_witness:
  "safe (csp_file_work env_ok (Some p_open) us_start)
   \<and> \<not> safe (csp_file_work env_ok
        (Some (mk_packet 1 ([3, 7, 0, 0, 0, 0, 0, 201, 0, 0, 0] @ replicate 200 0))) us_start)"
proof -
  have "fits p_open"
    using open_request [OF carries_examples(1)] by (simp add: fits_def)
  moreover have "\<not> fits (mk_packet 1 ([3, 7, 0, 0, 0, 0, 0, 201, 0, 0, 0] @ replicate 200 0))"
    by code_simp
  ultimately show ?thesis
    using file_work_fault_iff [OF us_start_inv wf_examples(1), of env_ok]
      file_work_fault_iff [OF us_start_inv wf_mk_packet, of _ env_ok 1] by simp
qed

text \<open>C18: The file component gives every packet buffer back to libcsp exactly once, except
  after a failed \<open>fseek\<close> in a DATA command: there the buffer has been sent or freed and the
  error reply uses it again.\<close>

theorem file_work_gives_packet_back:
  assumes "upload_inv us" "wf_packet p" "csp_file_work env (Some p) us = Inr (us', evs)"
  shows "if pk_data p ! 0 = FILE_UPLOAD_DATA_CMD \<and> seek_fails env p us
         then misuses (pk_ptr p) evs else linear (pk_ptr p) evs"
  using file_work_ownership [OF assms] by (simp add: bad_seek_def)

lemma file_work_gives_packet_back_witness:
  "\<exists>us us1 us2 evs1 evs2. upload_inv us
     \<and> csp_file_work env_ok (Some p_data) us = Inr (us1, evs1) \<and> linear 2 evs1
     \<and> csp_file_work env_no_seek (Some p_data) us = Inr (us2, evs2) \<and> misuses 2 evs2"
proof -
  obtain us evs where us: "upload_inv us" "search_used_session 7 us \<noteq> None"
    by (rule us_opened)
  note req = data_request [OF carries_examples(2)]
  have fits: "fits p_data" using req by (simp add: fits_def)
  obtain us1 evs1 where 1: "csp_file_work env_ok (Some p_data) us = Inr (us1, evs1)"
    using file_work_safe_iff [OF us(1) wf_examples(2), of env_ok] fits by (auto simp: safe_def)
  obtain us2 evs2 where 2: "csp_file_work env_no_seek (Some p_data) us = Inr (us2, evs2)"
    using file_work_safe_iff [OF us(1) wf_examples(2), of env_no_seek] fits by (auto simp: safe_def)
  have ptr: "pk_ptr p_data = 2" by (simp add: p_data_def)
  have "linear 2 evs1"
    using file_work_gives_packet_back [OF us(1) wf_examples(2) 1] ptr
    by (simp add: seek_fails_def env_ok_def)
  moreover have "misuses 2 evs2"
    using file_work_gives_packet_back [OF us(1) wf_examples(2) 2] ptr req us(2)
    by (simp add: seek_fails_def env_no_seek_def)
  ultimately show ?thesis using us 1 2 by blast
qed

section \<open>Functional correctness\<close>

text \<open>C11: The OPEN command refines its abstract specification: -EEXIST for an identifier in
  use, -EMFILE with five transfers open, else a new transfer when one of the two \<open>fopen\<close>
  calls succeeds; the reply carries the result and the name.\<close>

theorem open_refines_spec:
  assumes "upload_inv us" "pk_length p = UPLOAD_OPEN_CMD_SIZE"
    and "file_upload_open_cmd env cid p us = Inr (ret, us', evs)"
  shows "\<exists>fname q. req_name p = Some fname
    \<and> spec_open env (req_sid p) fname (upload_abs us) = (ret, upload_abs us')
    \<and> evs = [Ev_reply q] \<and> pk_ptr q = pk_ptr p
    \<and> parse_open_reply (payload q) = open_reply cid ret (req_sid p) fname"
proof -
  from open_cmd_abs [OF assms] obtain fname where f: "req_name p = Some fname"
    "spec_open env (req_sid p) fname (upload_abs us) = (ret, upload_abs us')"
    "evs = [Ev_reply (put_payload p (open_reply_image (open_reply cid ret (req_sid p) fname)))]"
    by blast
  moreover have "parse_open_reply (payload
      (put_payload p (open_reply_image (open_reply cid ret (req_sid p) fname))))
    = open_reply cid ret (req_sid p) fname"
    by (rule open_reply.reply_parses) (simp add: open_reply_def)
  ultimately show ?thesis by auto
qed

lemma open_refines_spec_witness:
  "\<exists>ret us' evs. file_upload_open_cmd env_ok 2 p_open us_start = Inr (ret, us', evs)
     \<and> spec_open env_ok 7 [102] (upload_abs us_start) = (ret, upload_abs us')"
proof -
  note req = open_request [OF carries_examples(1)]
  have "safe (file_upload_open_cmd env_ok 2 p_open us_start)"
    using req by (simp add: open_cmd_safe_iff)
  then obtain ret us' evs where "file_upload_open_cmd env_ok 2 p_open us_start = Inr (ret, us', evs)"
    by (auto simp: safe_def)
  with open_refines_spec [OF us_start_inv _ this] req show ?thesis by auto
qed

text \<open>C12: The DATA command refines its abstract specification: -ENOENT for an unknown
  identifier, else the bytes land in the transfer's file at the offset and the result is the
  number of bytes written, or -1 after a failed seek.\<close>

theorem data_refines_spec:
  assumes "upload_inv us" "wf_packet p" "pk_length p = UPLOAD_DATA_CMD_SIZE"
    and "file_upload_data_cmd env cid p us = Inr (ret, us', evs)"
  shows "spec_data env (req_sid p) (unat (req_offset p)) (req_data p) (upload_abs us)
    = (ret, upload_abs us')"
  using assms by (rule data_cmd_abs)

lemma data_refines_spec_witness:
  "\<exists>us us' evs. upload_inv us \<and> file_upload_data_cmd env_ok 3 p_data us = Inr (3, us', evs)
     \<and> sp_fs (upload_abs us') [102] = Some [1, 2, 3]"
proof -
  obtain us evs where us: "upload_inv us"
    "upload_abs us = \<lparr>sp_sess = [7 \<mapsto> [102]], sp_fs = [[102] \<mapsto> []]\<rparr>" by (rule us_opened)
  note req = data_request [OF carries_examples(2)]
  have "safe (file_upload_data_cmd env_ok 3 p_data us)"
    using req by (simp add: data_cmd_safe_iff [OF us(1) wf_examples(2)])
  then obtain ret us' evs' where run: "file_upload_data_cmd env_ok 3 p_data us = Inr (ret, us', evs')"
    by (auto simp: safe_def)
  have "spec_data env_ok 7 0 [1, 2, 3] (upload_abs us) =
    (3, \<lparr>sp_sess = [7 \<mapsto> [102]], sp_fs = [[102] \<mapsto> [1, 2, 3]]\<rparr>)"
    by (simp add: us(2) spec_data_def write_result_def written_fs_def env_ok_def file_write_def)
  with data_refines_spec [OF us(1) wf_examples(2) _ run] req
  have "(3, \<lparr>sp_sess = [7 \<mapsto> [102]], sp_fs = [[102] \<mapsto> [1, 2, 3]]\<rparr>) = (ret, upload_abs us')"
    by simp
  then have "ret = 3" "sp_fs (upload_abs us') [102] = Some [1, 2, 3]"
    by (auto dest: sym)
  with us run show ?thesis by blast
qed

text \<open>C13: The CLOSE command refines its abstract specification: -ENOENT for an unknown
  identifier, else the transfer ends, its file keeps its contents, and the result is that of
  \<open>fclose\<close>; it never runs into a fault.\<close>

theorem close_refines_spec:
  assumes "upload_inv us" "pk_length p = UPLOAD_CLOSE_CMD_SIZE"
  shows "\<exists>ret us' q. file_upload_close_cmd env cid p us = Inr (ret, us', [Ev_reply q])
    \<and> spec_close env (req_sid p) (upload_abs us) = (ret, upload_abs us')
    \<and> pk_ptr q = pk_ptr p \<and> parse_close_reply (payload q) = close_reply cid ret (req_sid p)"
proof -
  from close_cmd_safe [OF assms(1)] obtain ret us' evs where
    run: "file_upload_close_cmd env cid p us = Inr (ret, us', evs)"
    by (fastforce simp: safe_def)
  from close_cmd_abs [OF assms run]
  have "spec_close env (req_sid p) (upload_abs us) = (ret, upload_abs us')"
    "evs = [Ev_reply (put_payload p (close_reply_image (close_reply cid ret (req_sid p))))]" by auto
  with run close_reply.reply_parses [where t = "close_reply cid ret (req_sid p)" and p = p] show ?thesis
    by (intro exI [of _ ret] exI [of _ us'] exI) auto
qed

lemma close_refines_spec_witness:
  "\<exists>us' q. file_upload_close_cmd env_ok 4 p_close us_start = Inr (- ENOENT, us', [Ev_reply q])
     \<and> parse_close_reply (payload q) = close_reply 4 (- ENOENT) 7"
  using close_refines_spec [OF us_start_inv close_request(1) [OF carries_examples(4)], of env_ok 4]
    close_request(4) [OF carries_examples(4)]
  by (auto simp: spec_close_def)

text \<open>A transfer delivers its file: an OPEN request for a file, DATA requests for
  the chunks of the contents in any order and any of them repeated, and a CLOSE request leave
  exactly these contents under the name, every other file and every other transfer as they
  were. A file that was there and is longer keeps the rest of its old contents behind the new
  ones.\<close>

theorem transfer_delivers_file:
  assumes "upload_inv us" "session_unused us \<noteq> []"
    and "sp_sess (upload_abs us) sid = None"
    and "0 \<notin> set fname" "length fname < FILE_NAME_MAX_LEN"
    and "set cs = set (chunks 0 bs)" "length bs < 2 ^ 32"
    and "carry_all ps (open_payload sid fname # map (chunk_payload sid) cs @ [close_payload sid])"
  shows "\<exists>us' evs. run_work (\<lambda>env p. csp_file_work env (Some p)) ps us = Inr (us', evs)
    \<and> upload_abs us' = (upload_abs us)\<lparr>sp_fs := (sp_fs (upload_abs us))
        (fname \<mapsto> uploaded bs (sp_contents (upload_abs us) fname))\<rparr>"
  using run_transfer [OF assms] by blast

lemma transfer_delivers_file_witness:
  "\<exists>us' evs. run_work file_work [(env_ok, p_open), (env_ok, p_data), (env_ok, p_data), (env_ok, p_close)]
       us_start = Inr (us', evs)
     \<and> upload_abs us' = \<lparr>sp_sess = Map.empty, sp_fs = [[102] \<mapsto> [1, 2, 3]]\<rparr>"
proof -
  let ?bs = "[1, 2, 3] :: bytes"
  have chunks: "chunks 0 ?bs = [(0, ?bs)]" by (simp add: chunks.simps)
  have "carry_all [(env_ok, p_open), (env_ok, p_data), (env_ok, p_data), (env_ok, p_close)]
    (open_payload 7 [102] # map (chunk_payload 7) [(0, ?bs), (0, ?bs)] @ [close_payload 7])"
    using carries_examples good_env_ok by (simp add: carry_all_def)
  from transfer_delivers_file [OF us_start_inv _ _ _ _ _ _ this, of ?bs] chunks
  show ?thesis by (simp add: sp_contents_def)
qed

text \<open>Acknowledgements are exact: over any number of chunks a session accepts, the
  batches sent and the batch still pending are together the old pending batch followed by one
  acknowledgement per chunk, in order; no batch is empty or longer than 20.\<close>

theorem every_chunk_acknowledged_once:
  assumes "upload_inv us" "search_used_session sid us = Some i" "\<forall>ep \<in> set ps. data_for sid ep"
  shows "\<exists>us' evs batches.
    run_work (\<lambda>env p. csp_file_work env (Some p)) ps us = Inr (us', evs)
    \<and> map payload (sent evs) = map (batch_payload sid) batches
    \<and> concat batches @ pending_of sid us' = pending_of sid us @ map ack_of ps
    \<and> (\<forall>es \<in> set batches. 0 < length es \<and> length es \<le> UPLOAD_DATA_REPLY_ENTRY)"
  using ack_run [OF assms] by blast

lemma every_chunk_acknowledged_once_witness:
  "\<exists>us us' evs batches. upload_inv us
    \<and> run_work file_work [(env_ok, p_full), (env_ok, p_data)] us = Inr (us', evs)
    \<and> map payload (sent evs) = map (batch_payload 7) batches
    \<and> concat batches @ pending_of 7 us' = pending_of 7 us @ [ack 200 0 200, ack 3 0 3]"
proof -
  obtain us evs where us: "upload_inv us" "search_used_session 7 us \<noteq> None" by (rule us_opened)
  then obtain i where i: "search_used_session 7 us = Some i" by blast
  note r2 = data_request [OF carries_examples(2)] and r3 = data_request [OF carries_examples(3)]
  have "\<forall>ep \<in> set [(env_ok, p_full), (env_ok, p_data)]. data_for 7 ep"
    using r2 r3 wf_examples by (simp add: data_for_def env_ok_def)
  moreover have "map ack_of [(env_ok, p_full), (env_ok, p_data)] = [ack 200 0 200, ack 3 0 3]"
    using r2 r3 by (simp add: ack_of_def write_result_def env_ok_def)
  ultimately show ?thesis
    using every_chunk_acknowledged_once [OF us(1) i, of "[(env_ok, p_full), (env_ok, p_data)]"] us(1)
    by (metis (no_types, lifting))
qed

section \<open>What the ground should know\<close>

text \<open>C30: An OPEN request whose file can neither be opened nor created is answered with
  error code 0 although no transfer is open afterwards.\<close>

theorem failed_open_reports_success:
  assumes "upload_inv us" "pk_length p = UPLOAD_OPEN_CMD_SIZE"
    and "req_name p = Some fname" "length fname < FILE_NAME_MAX_LEN"
    and "search_used_session (req_sid p) us = None" "session_unused us \<noteq> []"
    and "\<not> open_grants env fname (st_fs (us_stdio us))"
  shows "\<exists>us' q. file_upload_open_cmd env cid p us = Inr (0, us', [Ev_reply q])
    \<and> uo_error_code (parse_open_reply (payload q)) = 0
    \<and> upload_abs us' = upload_abs us \<and> search_used_session (req_sid p) us' = None"
proof -
  have "safe (file_upload_open_cmd env cid p us)"
    using assms by (simp add: open_cmd_safe_iff)
  then obtain ret us' evs where run: "file_upload_open_cmd env cid p us = Inr (ret, us', evs)"
    by (auto simp: safe_def)
  have sess: "sp_sess (upload_abs us) (req_sid p) = None"
    using assms(5) by (simp add: upload_abs_sess)
  moreover have "spec_open env (req_sid p) fname (upload_abs us) = (0, upload_abs us)"
    using sess assms(6,7) pool_full_iff [OF assms(1)] by (simp add: spec_open_def upload_abs_fs)
  moreover from open_cmd_abs [OF assms(1,2) run] assms(3)
  have "spec_open env (req_sid p) fname (upload_abs us) = (ret, upload_abs us')"
    "evs = [Ev_reply (put_payload p (open_reply_image (open_reply cid ret (req_sid p) fname)))]" by auto
  moreover have "parse_open_reply (payload
      (put_payload p (open_reply_image (open_reply cid ret (req_sid p) fname))))
    = open_reply cid ret (req_sid p) fname"
    by (rule open_reply.reply_parses) (simp add: open_reply_def)
  ultimately show ?thesis
    using run upload_abs_sess [of us' "req_sid p"] by (auto simp: open_reply_def htole32_def)
qed

lemma failed_open_reports_success_witness:
  "\<exists>us' q. file_upload_open_cmd env_denied 2 p_open us_start = Inr (0, us', [Ev_reply q])
    \<and> uo_error_code (parse_open_reply (payload q)) = 0 \<and> search_used_session 7 us' = None"
proof -
  note req = open_request [OF carries_examples(1)]
  have "\<not> open_grants env_denied [102] (st_fs (us_stdio us_start))"
    by (simp add: open_grants_def env_denied_def)
  with failed_open_reports_success [OF us_start_inv _ _ _ _ _ this, of p_open 2] req
  show ?thesis by auto
qed

text \<open>C32: A DATA request of the wrong size is answered with a reply whose entries 1 to 19
  are whatever the stack held.\<close>

theorem error_reply_discloses_stack:
  assumes "pk_length p \<noteq> UPLOAD_DATA_CMD_SIZE"
  shows "\<exists>q. file_upload_data_cmd env cid p us = Inr (- EINVAL, us, [Ev_reply q])
    \<and> length (payload q) = 243
    \<and> ud_entry (parse_data_reply (payload q)) = ack (- EINVAL) 0 0 # map (e_junk env) [1..<20]"
proof -
  let ?t = "data_reply cid 0 (err_entries (e_junk env) (ack (- EINVAL) 0 0))"
  have ok: "length (ud_entry ?t) = UPLOAD_DATA_REPLY_ENTRY" by (simp add: data_reply_def)
  have "[0..<20::nat] = 0 # [1..<20]" by (simp add: upt_rec)
  then have "ud_entry ?t = ack (- EINVAL) 0 0 # map (e_junk env) [1..<20]"
    by (simp add: data_reply_def err_entries_def del: upt_Suc)
  with assms data_reply.reply_parses [OF ok, where p = p] data_reply.reply_payload [OF ok, where p = p]
    data_reply.len_image [OF ok]
  show ?thesis
    by (auto simp: file_upload_data_cmd_def send_err_reply_eq)
qed

lemma error_reply_discloses_stack_witness:
  "\<exists>q. file_upload_data_cmd env_ok 3 p_close us_start = Inr (- EINVAL, us_start, [Ev_reply q])
     \<and> length (payload q) = 243"
  using error_reply_discloses_stack [of p_close env_ok 3 us_start]
    close_request(1) [OF carries_examples(4)] by auto

section \<open>Acknowledgements of a slot\<close>

text \<open>A request writes a chunk for the slot \<open>i\<close> when it is a DATA request for the transfer that has
  the slot; \<open>untouched i ps us\<close>: none of the requests \<open>ps\<close> does, from the state \<open>us\<close> on.\<close>

definition writes_slot :: "nat \<Rightarrow> csp_packet \<Rightarrow> upload_state \<Rightarrow> bool" where
  "writes_slot i p us \<longleftrightarrow> cmd_id p = FILE_UPLOAD_DATA_CMD \<and> search_used_session (req_sid p) us = Some i"

fun untouched :: "nat \<Rightarrow> (upload_env \<times> csp_packet) list \<Rightarrow> upload_state \<Rightarrow> bool" where
  "untouched i [] us \<longleftrightarrow> True"
| "untouched i ((env, p) # ps) us \<longleftrightarrow> \<not> writes_slot i p us
     \<and> (case file_work env p us of Inl flt \<Rightarrow> True | Inr (us', evs) \<Rightarrow> untouched i ps us')"

lemma pending_named [simp]: "pending (s\<lparr>se_file := f, se_id := sid, se_fname := fname\<rparr>) = pending s"
  by (simp add: pending_def)

lemma pending_list_update:
  "pending (ss[j := s] ! i) = (if j = i \<and> i < length ss then pending s else pending (ss ! i))"
  by (cases "i = j"; cases "i < length ss") (simp_all add: list_update_beyond)

lemma open_upload_file_pending:
  assumes "upload_inv us" "open_upload_file env sid fname us = (ret, us')"
  shows "pending (sessions us' ! i) = pending (sessions us ! i)"
  using assms(1)
  by (cases rule: open_upload_file_cases [of us sid env fname])
    (use assms(2) in \<open>auto simp: refused_state_def opened_state_def pending_list_update\<close>)

lemma slot_kept:
  assumes inv: "upload_inv us" and wf: "wf_packet p" and run: "file_work env p us = Inr (us', evs)"
    and "\<not> writes_slot i p us"
  shows "pending (sessions us' ! i) = pending (sessions us ! i)"
proof (cases rule: file_work_cases [of p env us])
  case open_cmd
  with run obtain ret where "file_upload_open_cmd env FILE_UPLOAD_OPEN_CMD p us = Inr (ret, us', evs)"
    by (auto simp: drop_ret_Inr)
  then show ?thesis using open_upload_file_pending [OF inv]
    by (cases rule: open_cmd_cases [of p env FILE_UPLOAD_OPEN_CMD us]) auto
next
  case data_cmd
  with run obtain ret where r: "file_upload_data_cmd env FILE_UPLOAD_DATA_CMD p us = Inr (ret, us', evs)"
    by (auto simp: drop_ret_Inr)
  from inv wf show ?thesis
  proof (cases rule: data_cmd_cases [of us p env FILE_UPLOAD_DATA_CMD])
    case (accepted j s st ret' es)
    with assms(4) data_cmd have "j \<noteq> i" by (auto simp: writes_slot_def)
    moreover from accepted r have "us' = set_session j s (us\<lparr>us_stdio := st\<rparr>)" by simp
    ultimately show ?thesis by (simp add: set_session_def)
  qed (use r in auto)
next
  case close_cmd
  with run obtain ret where r: "file_upload_close_cmd env FILE_UPLOAD_CLOSE_CMD p us = Inr (ret, us', evs)"
    by (auto simp: drop_ret_Inr)
  from inv show ?thesis
    by (cases rule: close_cmd_cases [of us p env FILE_UPLOAD_CLOSE_CMD]) (use r in \<open>auto simp: release_session_def\<close>)
qed (use run in simp)

lemma untouched_kept:
  assumes "upload_inv us" "\<forall>ep \<in> set ps. wf_packet (snd ep)" "untouched i ps us"
    and "run_work file_work ps us = Inr (us', evs)"
  shows "pending (sessions us' ! i) = pending (sessions us ! i)"
  using assms
proof (induction ps arbitrary: us evs)
  case (Cons ep ps)
  obtain env p where ep: "ep = (env, p)" by fastforce
  from Cons.prems(4) obtain us1 evs1 evs2 where
    s: "file_work env p us = Inr (us1, evs1)" and r: "run_work file_work ps us1 = Inr (us', evs2)"
    by (auto simp: ep split: sum.splits)
  from Cons.prems(2) have wf: "wf_packet p" "\<forall>ep \<in> set ps. wf_packet (snd ep)" by (simp_all add: ep)
  from Cons.prems(3) s have "\<not> writes_slot i p us" "untouched i ps us1" by (simp_all add: ep)
  with Cons.IH [OF file_work_inv [OF Cons.prems(1) wf(1) s] wf(2) _ r] slot_kept [OF Cons.prems(1) wf(1) s]
  show ?case by simp
qed simp

text \<open>C31: The acknowledgements of a closed transfer are not dropped, they are inherited: when the
  transfer \<open>sid\<close> is closed with acknowledgements pending, and after any further requests, none of
  which writes a chunk for its slot, the slot belongs to the transfer \<open>sid'\<close>, these
  acknowledgements are still pending; with the first chunk of \<open>sid'\<close> they are part of its batch
  and, when the batch is due, are sent under the identifier \<open>sid'\<close>, in front of the
  acknowledgement of the chunk.\<close>

theorem acknowledgements_outlive_their_transfer:
  assumes "upload_inv us" "search_used_session sid us = Some i" "carries pc (close_payload sid)"
    and "\<forall>ep \<in> set ps. wf_packet (snd ep)" "untouched i ((env, pc) # ps) us"
    and "run_work file_work ((env, pc) # ps) us = Inr (us', evs)" "search_used_session sid' us' = Some i"
    and "carries q (data_payload sid' ofs d)" "length d \<le> UPLOAD_DATA_LEN"
    and "es = pending (sessions us ! i) @ [ack (write_result e d) ofs (of_nat (length d))]"
  shows "(\<exists>us1 evs1. file_work env pc us = Inr (us1, evs1) \<and> search_used_session sid us1 = None)
    \<and> pending (sessions us' ! i) = pending (sessions us ! i)
    \<and> (\<exists>us2 rest. file_work e q us' =
          Inr (us2, data_acks q FILE_UPLOAD_DATA_CMD sid' es (flushes es (of_nat (length d))) @ rest)
        \<and> pending (sessions us2 ! i) = (if flushes es (of_nat (length d)) then [] else es))"
proof (intro conjI)
  note pc = close_request [OF assms(3)] and q = data_request [OF assms(8,9)]
  have wf: "\<forall>ep \<in> set ((env, pc) # ps). wf_packet (snd ep)" using assms(3,4) carries_wf by auto
  from assms(6) obtain us1 evs1 where s: "file_work env pc us = Inr (us1, evs1)"
    by (auto split: sum.splits)
  with pc obtain ret where "file_upload_close_cmd env FILE_UPLOAD_CLOSE_CMD pc us = Inr (ret, us1, evs1)"
    by (cases rule: file_work_cases [of pc env us]) (auto simp: drop_ret_Inr)
  from close_cmd_abs [OF assms(1) pc(1) this] pc(4) have "sp_sess (upload_abs us1) sid = None"
    by (auto simp: spec_close_def dest!: sym [of _ "upload_abs us1"] split: option.splits if_splits)
  then have "search_used_session sid us1 = None" by (simp add: upload_abs_def)
  with s show "\<exists>us1 evs1. file_work env pc us = Inr (us1, evs1) \<and> search_used_session sid us1 = None" by blast
  show kept: "pending (sessions us' ! i) = pending (sessions us ! i)"
    by (rule untouched_kept [OF assms(1) wf assms(5,6)])
  from file_worker.run_inv [OF assms(1) wf assms(6)] have inv: "upload_inv us'" .
  have small: "unat (req_size q) \<le> UPLOAD_DATA_LEN" using q(6) assms(9) by (simp add: unat_of_nat)
  have known: "search_used_session (req_sid q) us' = Some i" using assms(7) q(4) by simp
  have i: "i < length (sessions us')" using upload_inv_used [OF inv] search_used_Some [OF assms(7)] by auto
  show "\<exists>us2 rest. file_work e q us' =
          Inr (us2, data_acks q FILE_UPLOAD_DATA_CMD sid' es (flushes es (of_nat (length d))) @ rest)
        \<and> pending (sessions us2 ! i) = (if flushes es (of_nat (length d)) then [] else es)"
    by (rule data_cmd_accepted [OF inv carries_wf [OF assms(8)] q(1) small known, of e FILE_UPLOAD_DATA_CMD],
        cases rule: file_work_cases [of q e us'])
      (use q i in \<open>auto simp: kept assms(10) drop_ret_def set_session_def\<close>)
qed

text \<open>A full chunk of session 7, its CLOSE, four other transfers, and the OPEN of session 20, which gets
  the slot 0: a chunk of session 20 of three bytes is acknowledged together with the one of
  session 7.\<close>

definition reuse_ps :: "(upload_env \<times> csp_packet) list" where
  "reuse_ps = concat (map (\<lambda>k. [(env_ok, mk_packet 1 (open_payload k [103])), (env_ok, mk_packet 1 (close_payload k))])
       [10, 11, 12, 13]) @ [(env_ok, mk_packet 1 (open_payload 20 [104]))]"

lemma reuse_facts:
  "case run_work file_work [(env_ok, p_open), (env_ok, p_full)] us_start of
     Inl flt \<Rightarrow> False
   | Inr (us, evs) \<Rightarrow>
       search_used_session 7 us = Some 0 \<and> pending (sessions us ! 0) = [ack 200 0 200]
       \<and> untouched 0 ((env_ok, p_close) # reuse_ps) us
       \<and> (case run_work file_work ((env_ok, p_close) # reuse_ps) us of
            Inl flt \<Rightarrow> False
          | Inr (us', evs') \<Rightarrow> search_used_session 20 us' = Some 0)"
  "\<forall>ep \<in> set reuse_ps. wf_packet (snd ep)"
  by code_simp+

lemma acknowledgements_outlive_their_transfer_witness:
  "\<exists>us evs us' evs' us2 rest q. run_work file_work [(env_ok, p_open), (env_ok, p_full)] us_start = Inr (us, evs)
    \<and> run_work file_work ((env_ok, p_close) # reuse_ps) us = Inr (us', evs')
    \<and> file_work env_ok (mk_packet 1 (data_payload 20 0 [1, 2, 3])) us' = Inr (us2, Ev_reply q # rest)
    \<and> payload q = data_reply_image (data_reply FILE_UPLOAD_DATA_CMD 20 (pad_entries [ack 200 0 200, ack 3 0 3]))"
proof -
  from reuse_facts(1) obtain us evs us' evs' where
    r: "run_work file_work [(env_ok, p_open), (env_ok, p_full)] us_start = Inr (us, evs)"
      "run_work file_work ((env_ok, p_close) # reuse_ps) us = Inr (us', evs')"
    and f: "search_used_session 7 us = Some 0" "pending (sessions us ! 0) = [ack 200 0 200]"
      "untouched 0 ((env_ok, p_close) # reuse_ps) us" "search_used_session 20 us' = Some 0"
    by (auto simp only: case_prod_beta split: sum.splits) (metis prod.collapse)+
  have inv: "upload_inv us"
    by (rule file_worker.run_inv [OF us_start_inv _ r(1)]) (simp add: wf_examples)
  let ?q = "mk_packet 1 (data_payload 20 0 [1, 2, 3])"
  have q: "carries ?q (data_payload 20 0 [1, 2, 3])" by (rule carries_mk_packet) (simp add: data_payload_def)
  let ?es = "[ack 200 0 200, ack 3 0 3]"
  have "write_result env_ok [1, 2, 3] = 3" by code_simp
  then have es: "?es = pending (sessions us ! 0) @ [ack (write_result env_ok [1, 2, 3]) 0 (of_nat (length [1, 2, 3 :: u8]))]"
    by (simp add: f(2))
  have fl: "flushes ?es (of_nat (length [1, 2, 3 :: u8]))" by (simp add: flushes_def)
  have "length [1, 2, 3 :: u8] \<le> UPLOAD_DATA_LEN" by simp
  from acknowledgements_outlive_their_transfer [OF inv f(1) carries_examples(4) reuse_facts(2) f(3) r(2) f(4) q this es] fl
  obtain us2 rest where w: "file_work env_ok ?q us' = Inr (us2, data_acks ?q FILE_UPLOAD_DATA_CMD 20 ?es True @ rest)"
    by auto
  have "length (data_reply_image (data_reply FILE_UPLOAD_DATA_CMD 20 (pad_entries ?es))) \<le> CSP_BUFFER_SIZE"
    by (subst data_reply.len_image) (simp_all add: data_reply_def pad_entries_def)
  note img = payload_put_payload [OF this, of ?q]
  show ?thesis using r w [unfolded data_acks_def] img by fastforce
qed

end
