(* ===== verification/Shell.thy ===== *)
theory Shell
  imports Telemetry WorkQueue
begin

text \<open>
  The shell component, \<open>csp-handler/files/shell.c\<close>: commands of the ground run through
  \<open>popen\<close>, their output sent back in pieces of 240 bytes.

  What the surroundings decide during a command: whether \<open>popen\<close> succeeds, what
  \<open>select\<close> returns for the timeout, the bytes the pipe delivers up to its end, and the
  address (or NULL) each \<open>csp_buffer_clone\<close> returns.
\<close>

section \<open>Definitions\<close>

abbreviation (input) SHELL_WORK_THREAD_SLEEP_SEC :: nat where "SHELL_WORK_THREAD_SLEEP_SEC \<equiv> 1"
abbreviation (input) SHELL_CMD_STR_MAX_SIZE :: nat where "SHELL_CMD_STR_MAX_SIZE \<equiv> 200"
abbreviation (input) SHELL_CMD_REPLY_TLM_MAX_CNT :: u8 where "SHELL_CMD_REPLY_TLM_MAX_CNT \<equiv> 50"
abbreviation (input) SHELL_CMD_MIN_SIZE :: u16 where "SHELL_CMD_MIN_SIZE \<equiv> 1"
abbreviation (input) SHELL_EXEC_CMD_MIN_SIZE :: u16 where "SHELL_EXEC_CMD_MIN_SIZE \<equiv> 203"
abbreviation (input) SHELL_CMD :: u8 where "SHELL_CMD \<equiv> 0"
abbreviation (input) SHELL_CMD_TIMEOUT_OFFSET :: nat where "SHELL_CMD_TIMEOUT_OFFSET \<equiv> 1"
abbreviation (input) SHELL_CMD_STR_OFFSET :: nat where "SHELL_CMD_STR_OFFSET \<equiv> 3"

text \<open>The interval is 0.2 seconds; as the argument of \<open>sleep\<close> it is converted to an
  unsigned integer, which drops the fraction.\<close>

definition SHELL_CMD_REPLY_INTERVAL_SEC :: nat where
  "SHELL_CMD_REPLY_INTERVAL_SEC = 2 div 10"

record shell_env =
  sh_popen :: bool
  sh_select :: "u16 \<Rightarrow> int"
  sh_output :: bytes
  sh_clone :: "nat \<Rightarrow> nat option"

definition send_cmd_reply ::
    "nat option \<Rightarrow> csp_packet \<Rightarrow> u8 \<Rightarrow> int \<Rightarrow> u32 \<Rightarrow> bytes option \<Rightarrow> event list res" where
  "send_cmd_reply clone packet command_id err_code seq_number result =
     (let tlm = \<lparr>hr_telemetry_id = command_id, hr_error_code = htole32 err_code,
                 hr_seq_number = htole32 (uint seq_number),
                 hr_result = (case result of None \<Rightarrow> replicate SHELL_RESULT_BUF_SIZE 0
                              | Some r \<Rightarrow> take SHELL_RESULT_BUF_SIZE r)\<rparr> in
      case clone of
        None \<Rightarrow> Inl Null_deref
      | Some a \<Rightarrow> Inr [Ev_clone (pk_ptr packet) a,
                       Ev_reply (put_payload (packet\<lparr>pk_ptr := a\<rparr>) (shell_cmd_image tlm))])"

definition send_shell_err_reply :: "csp_packet \<Rightarrow> u8 \<Rightarrow> int \<Rightarrow> event list" where
  "send_shell_err_reply packet command_id err_code =
     [Ev_reply (put_payload packet
        (shell_err_image \<lparr>he_telemetry_id = command_id, he_error_code = htole32 err_code\<rparr>))]"

text \<open>The loop over the output. \<open>out\<close> is what the pipe still holds; \<open>fread\<close> moves up
  to 240 bytes of it over the head of \<open>result\<close>.\<close>

function shell_cmd_loop ::
    "shell_env \<Rightarrow> csp_packet \<Rightarrow> u8 \<Rightarrow> u32 \<Rightarrow> u8 \<Rightarrow> bytes \<Rightarrow> bytes \<Rightarrow> event list res" where
  "shell_cmd_loop env packet command_id seq_number reply_count result out =
     (if reply_count < SHELL_CMD_REPLY_TLM_MAX_CNT then
        let rsize = min SHELL_RESULT_BUF_SIZE (length out);
            result1 = take rsize out @ drop rsize result in
        if rsize = 0 then
          (if reply_count = 0 then
             send_cmd_reply (sh_clone env 0) packet command_id (int rsize) seq_number
               (Some (str_bytes ''No output'' @ [0] @ drop 10 result1))
           else Inr [])
        else
          (case send_cmd_reply (sh_clone env (unat reply_count)) packet command_id 0 seq_number
                  (Some result1) of
             Inl flt \<Rightarrow> Inl flt
           | Inr evs \<Rightarrow>
             (case shell_cmd_loop env packet command_id seq_number (reply_count + 1)
                     (replicate SHELL_RESULT_BUF_SIZE 0) (drop rsize out) of
                Inl flt \<Rightarrow> Inl flt
              | Inr evs' \<Rightarrow> Inr (evs @ [Ev_sleep SHELL_CMD_REPLY_INTERVAL_SEC] @ evs')))
      else Inr [])"
  by pat_completeness auto
termination
proof (relation "measure (\<lambda>(env, p, c, s, reply_count, r, out). 50 - unat reply_count)")
  fix reply_count :: u8
  assume "reply_count < 50"
  then have "unat reply_count < 50" by (simp add: word_less_nat_alt)
  then show "((env, p, c, s, reply_count + 1, r', out'), env, p, c, s, reply_count, r, out)
      \<in> measure (\<lambda>(env, p, c, s, reply_count, r, out). 50 - unat reply_count)"
    for env :: shell_env and p :: csp_packet and c :: u8 and s :: u32 and r r' out out' :: bytes
    by (simp add: unat_word_ariths)
qed simp

declare shell_cmd_loop.simps [simp del]

text \<open>What follows the label \<open>end\<close>: the error reply when \<open>ret\<close> is negative, the next
  sequence number, and the original packet freed.\<close>

definition shell_cmd_end ::
    "shell_env \<Rightarrow> csp_packet \<Rightarrow> u8 \<Rightarrow> u32 \<Rightarrow> int \<Rightarrow> event list \<Rightarrow> (u32 \<times> event list) res" where
  "shell_cmd_end env packet command_id seq_number ret evs =
     (if ret < 0 then
        (case send_cmd_reply (sh_clone env 0) packet command_id ret seq_number None of
           Inl flt \<Rightarrow> Inl flt
         | Inr err \<Rightarrow> Inr (seq_number + 1, evs @ err @ [Ev_free (pk_ptr packet)]))
      else Inr (seq_number + 1, evs @ [Ev_free (pk_ptr packet)]))"

definition shell_cmd :: "shell_env \<Rightarrow> u8 \<Rightarrow> csp_packet \<Rightarrow> u32 \<Rightarrow> (u32 \<times> event list) res" where
  "shell_cmd env command_id packet seq_number =
     (if pk_length packet \<noteq> SHELL_EXEC_CMD_MIN_SIZE then
        shell_cmd_end env packet command_id seq_number (- EINVAL) []
      else
        (case strcpy SHELL_CMD_STR_MAX_SIZE (drop SHELL_CMD_STR_OFFSET (pk_data packet)) of
           Inl flt \<Rightarrow> Inl flt
         | Inr cmd \<Rightarrow>
           let timeout_sec = le16toh (rd16 (pk_data packet) SHELL_CMD_TIMEOUT_OFFSET) in
           if \<not> sh_popen env then
             shell_cmd_end env packet command_id seq_number (- EIO) [Ev_popen cmd]
           else
             let ret = sh_select env timeout_sec in
             if ret < 0 then
               shell_cmd_end env packet command_id seq_number ret [Ev_popen cmd, Ev_pclose]
             else if ret = 0 then
               shell_cmd_end env packet command_id seq_number (- ETIMEDOUT) [Ev_popen cmd, Ev_pclose]
             else
               (case shell_cmd_loop env packet command_id seq_number 0
                       (replicate SHELL_RESULT_BUF_SIZE 0) (sh_output env) of
                  Inl flt \<Rightarrow> Inl flt
                | Inr evs \<Rightarrow>
                  shell_cmd_end env packet command_id seq_number ret
                    ([Ev_popen cmd] @ evs @ [Ev_pclose]))))"

definition csp_shell_work :: "shell_env \<Rightarrow> csp_packet option \<Rightarrow> u32 \<Rightarrow> (u32 \<times> event list) res" where
  "csp_shell_work env packet seq_number =
     (case packet of
        None \<Rightarrow> Inr (seq_number, [])
      | Some p \<Rightarrow>
        if pk_length p < SHELL_CMD_MIN_SIZE then
          Inr (seq_number, send_shell_err_reply p CSP_UNKNOWN_COMMAND_ID (- EINVAL))
        else
          let command_id = pk_data p ! CSP_COMMAND_ID_OFFSET in
          if command_id = SHELL_CMD then shell_cmd env command_id p seq_number
          else Inr (seq_number, send_shell_err_reply p CSP_UNKNOWN_COMMAND_ID (- EINVAL)))"

definition shell_work_thread ::
    "shell_env list \<Rightarrow> csp_packet list \<Rightarrow> u32 \<Rightarrow> (csp_packet list \<times> u32 \<times> event list) res" where
  "shell_work_thread =
     work_loop g_queue_pop_head (\<lambda>env p. csp_shell_work env (Some p))
       (Ev_sleep SHELL_WORK_THREAD_SLEEP_SEC)"

definition shell_handler :: "csp_packet \<Rightarrow> csp_packet list \<Rightarrow> csp_packet list" where
  "shell_handler packet shell_work_queue = g_queue_push_tail shell_work_queue packet"

definition shell_handler_init :: "int \<Rightarrow> csp_packet list \<times> thread_log" where
  "shell_handler_init ret =
     (g_queue_init, if ret < 0 then Unable_to_create else Started)"

end
