(* ===== verification/ShellOps.thy ===== *)
theory ShellOps
  imports Shell
begin

text \<open>
  Lemmas on the shell component: the output loop as a run over the 240-byte pieces of the
  output, what a receiver reads out of the replies, the exits of \<open>shell_cmd\<close>, and which
  requests stay within the arrays.
\<close>

section \<open>One reply\<close>

definition sh_replies :: "event list \<Rightarrow> shell_cmd_reply_telemetry list" where
  "sh_replies evs = map (parse_shell_cmd \<circ> payload) (sent evs)"

lemma sh_replies_append [simp]: "sh_replies (xs @ ys) = sh_replies xs @ sh_replies ys"
  by (simp add: sh_replies_def)

lemma sh_replies_other [simp]:
  "sh_replies [] = []"
  "sh_replies (Ev_clone a b # es) = sh_replies es"
  "sh_replies (Ev_free a # es) = sh_replies es"
  "sh_replies (Ev_sleep n # es) = sh_replies es"
  "sh_replies (Ev_popen cmd # es) = sh_replies es"
  "sh_replies (Ev_pclose # es) = sh_replies es"
  by (simp_all add: sh_replies_def)

lemma sh_replies_reply [simp]:
  "length (hr_result t) = SHELL_RESULT_BUF_SIZE \<Longrightarrow>
   sh_replies [Ev_reply (put_payload p (shell_cmd_image t))] = [t]"
  by (simp add: sh_replies_def shell_cmd.reply_parses)

lemma htole32_uint [simp]: "htole32 (uint w) = w"
  by (simp add: htole32_def)

lemma send_cmd_reply_safe [simp]: "safe (send_cmd_reply clone p cid err sq r) \<longleftrightarrow> clone \<noteq> None"
  by (auto simp: send_cmd_reply_def split: option.splits)

lemma send_cmd_reply_Inr:
  assumes "send_cmd_reply clone p cid err sq r = Inr evs"
    "\<And>x. r = Some x \<Longrightarrow> length x = SHELL_RESULT_BUF_SIZE"
  obtains a where "clone = Some a"
    "sh_replies evs = [\<lparr>hr_telemetry_id = cid, hr_error_code = htole32 err, hr_seq_number = sq,
       hr_result = (case r of None \<Rightarrow> replicate SHELL_RESULT_BUF_SIZE 0 | Some x \<Rightarrow> x)\<rparr>]"
    "\<exists>q. evs = [Ev_clone (pk_ptr p) a, Ev_reply q] \<and> pk_ptr q = a"
  using assms that by (cases clone) (auto simp: send_cmd_reply_def split: option.splits)

lemma send_cmd_reply_some:
  assumes "send_cmd_reply clone p cid err sq (Some x) = Inr evs" "length x = SHELL_RESULT_BUF_SIZE"
  shows "sh_replies evs = [\<lparr>hr_telemetry_id = cid, hr_error_code = htole32 err, hr_seq_number = sq,
      hr_result = x\<rparr>]"
  using assms by (auto elim: send_cmd_reply_Inr)

lemma send_cmd_reply_own:
  assumes "send_cmd_reply clone p cid err sq r = Inr evs" "clone \<noteq> Some (pk_ptr p)"
  shows "own_run {pk_ptr p} evs = Some {pk_ptr p}"
  using assms by (auto simp: send_cmd_reply_def split: option.splits)

section \<open>The output loop\<close>

abbreviation pad240 :: "bytes \<Rightarrow> bytes" where
  "pad240 x \<equiv> x @ replicate (SHELL_RESULT_BUF_SIZE - length x) 0"

text \<open>The replies for a list of pieces, the \<open>k\<close>-th clone taken first.\<close>

fun reply_run ::
    "shell_env \<Rightarrow> csp_packet \<Rightarrow> u8 \<Rightarrow> u32 \<Rightarrow> nat \<Rightarrow> bytes list \<Rightarrow> event list res" where
  "reply_run env p cid sq k [] = Inr []"
| "reply_run env p cid sq k (x # xs) =
     (case send_cmd_reply (sh_clone env k) p cid 0 sq (Some (pad240 x)) of
        Inl flt \<Rightarrow> Inl flt
      | Inr evs \<Rightarrow>
        (case reply_run env p cid sq (Suc k) xs of
           Inl flt \<Rightarrow> Inl flt
         | Inr evs' \<Rightarrow> Inr (evs @ [Ev_sleep SHELL_CMD_REPLY_INTERVAL_SEC] @ evs')))"

text \<open>One round of the loop on the cleared buffer: output left, or none.\<close>

lemma shell_cmd_loop_step:
  assumes "out \<noteq> []" "reply_count < SHELL_CMD_REPLY_TLM_MAX_CNT"
  shows "shell_cmd_loop env p cid sq reply_count (replicate SHELL_RESULT_BUF_SIZE 0) out =
    (case send_cmd_reply (sh_clone env (unat reply_count)) p cid 0 sq
            (Some (pad240 (take SHELL_RESULT_BUF_SIZE out))) of
       Inl flt \<Rightarrow> Inl flt
     | Inr evs \<Rightarrow>
       (case shell_cmd_loop env p cid sq (reply_count + 1) (replicate SHELL_RESULT_BUF_SIZE 0)
                (drop SHELL_RESULT_BUF_SIZE out) of
          Inl flt \<Rightarrow> Inl flt
        | Inr evs' \<Rightarrow> Inr (evs @ [Ev_sleep SHELL_CMD_REPLY_INTERVAL_SEC] @ evs')))"
proof -
  let ?n = "min SHELL_RESULT_BUF_SIZE (length out)"
  have "?n \<noteq> 0" using assms(1) by simp
  moreover have "take ?n out @ drop ?n (replicate SHELL_RESULT_BUF_SIZE 0) =
      pad240 (take SHELL_RESULT_BUF_SIZE out)" "drop ?n out = drop SHELL_RESULT_BUF_SIZE out"
    by (auto simp: min_def)
  ultimately show ?thesis
    using assms(2) by (subst shell_cmd_loop.simps) (simp only: Let_def if_True if_False)
qed

lemma shell_cmd_loop_end:
  "shell_cmd_loop env p cid sq reply_count result [] =
    (if reply_count = 0 then
       send_cmd_reply (sh_clone env 0) p cid 0 sq (Some (str_bytes ''No output'' @ [0] @ drop 10 result))
     else Inr [])"
  by (subst shell_cmd_loop.simps) simp

lemma shell_cmd_loop_run:
  assumes "0 < reply_count \<or> out \<noteq> []" "reply_count \<le> SHELL_CMD_REPLY_TLM_MAX_CNT"
  shows "shell_cmd_loop env p cid sq reply_count (replicate SHELL_RESULT_BUF_SIZE 0) out =
    reply_run env p cid sq (unat reply_count) (take (50 - unat reply_count) (pieces SHELL_RESULT_BUF_SIZE out))"
  using assms
proof (induction "50 - unat reply_count" arbitrary: reply_count out)
  case 0
  then have "reply_count = 50" by (simp add: word_le_nat_alt word_unat_eq_iff)
  then show ?case by (subst shell_cmd_loop.simps) simp
next
  case (Suc n)
  then have lt: "reply_count < 50" "unat reply_count < 50" by (auto simp: word_less_nat_alt)
  show ?case
  proof (cases "out = []")
    case True
    with Suc.prems lt show ?thesis by (auto simp: shell_cmd_loop_end)
  next
    case False
    have next1: "unat (reply_count + 1) = Suc (unat reply_count)"
      using lt by (simp add: unat_word_ariths)
    have m: "50 - unat reply_count = Suc (50 - unat (reply_count + 1))"
      using lt next1 by (metis Suc_diff_Suc)
    have IH: "shell_cmd_loop env p cid sq (reply_count + 1) (replicate 240 0) (drop 240 out) =
        reply_run env p cid sq (unat (reply_count + 1))
          (take (50 - unat (reply_count + 1)) (pieces 240 (drop 240 out)))"
      using Suc.hyps(1) [of "reply_count + 1" "drop 240 out"] Suc.hyps(2) next1 lt
      by (simp add: word_le_nat_alt word_less_nat_alt)
    have "pieces 240 out = take 240 out # pieces 240 (drop 240 out)"
      using False by (subst pieces.simps) simp
    then show ?thesis
      using shell_cmd_loop_step [OF False lt(1), of env p cid sq] IH
      by (simp only: m take_Suc_Cons reply_run.simps next1)
  qed
qed

lemma shell_cmd_loop_empty:
  "shell_cmd_loop env p cid sq 0 (replicate SHELL_RESULT_BUF_SIZE 0) [] =
     send_cmd_reply (sh_clone env 0) p cid 0 sq (Some (pad240 (str_bytes ''No output'')))"
proof -
  have "[0] @ drop 10 (replicate SHELL_RESULT_BUF_SIZE 0) =
      replicate (SHELL_RESULT_BUF_SIZE - length (str_bytes ''No output'')) (0 :: u8)"
    by (simp flip: replicate_Suc)
  then show ?thesis by (simp only: shell_cmd_loop_end if_True simp_thms)
qed

lemma reply_run_safe:
  "safe (reply_run env p cid sq k xs) \<longleftrightarrow> (\<forall>i < length xs. sh_clone env (k + i) \<noteq> None)"
proof (induction xs arbitrary: k)
  case (Cons x xs)
  have "(\<forall>i < length (x # xs). sh_clone env (k + i) \<noteq> None) \<longleftrightarrow>
      sh_clone env k \<noteq> None \<and> (\<forall>i < length xs. sh_clone env (Suc k + i) \<noteq> None)"
    using less_Suc_eq_0_disj by auto
  moreover have "safe (reply_run env p cid sq k (x # xs)) \<longleftrightarrow>
      safe (send_cmd_reply (sh_clone env k) p cid 0 sq (Some (pad240 x)))
      \<and> safe (reply_run env p cid sq (Suc k) xs)"
    by (auto simp: safe_def split: sum.splits)
  ultimately show ?case using Cons.IH [of "Suc k"] by simp
qed simp

lemma reply_run_replies:
  assumes "reply_run env p cid sq k xs = Inr evs" "\<forall>x \<in> set xs. length x \<le> SHELL_RESULT_BUF_SIZE"
  shows "sh_replies evs = map (\<lambda>x. \<lparr>hr_telemetry_id = cid, hr_error_code = 0, hr_seq_number = sq,
      hr_result = pad240 x\<rparr>) xs"
  using assms
proof (induction xs arbitrary: k evs)
  case (Cons x xs)
  from Cons.prems(1) obtain evs1 evs2 where
    s: "send_cmd_reply (sh_clone env k) p cid 0 sq (Some (pad240 x)) = Inr evs1"
    and r: "reply_run env p cid sq (Suc k) xs = Inr evs2"
    and e: "evs = evs1 @ Ev_sleep SHELL_CMD_REPLY_INTERVAL_SEC # evs2"
    by (auto split: sum.splits)
  from send_cmd_reply_Inr [OF s] Cons.prems(2)
  have "sh_replies evs1 = [\<lparr>hr_telemetry_id = cid, hr_error_code = 0, hr_seq_number = sq,
      hr_result = pad240 x\<rparr>]"
    by (auto simp: htole32_def)
  with Cons.IH [OF r] Cons.prems(2) e show ?case by simp
qed simp

lemma reply_run_own:
  assumes "reply_run env p cid sq k xs = Inr evs" "\<forall>i. sh_clone env i \<noteq> Some (pk_ptr p)"
  shows "own_run {pk_ptr p} evs = Some {pk_ptr p}"
  using assms(1)
proof (induction xs arbitrary: k evs)
  case (Cons x xs)
  then obtain evs1 evs2 where
    s: "send_cmd_reply (sh_clone env k) p cid 0 sq (Some (pad240 x)) = Inr evs1"
    and r: "reply_run env p cid sq (Suc k) xs = Inr evs2"
    and e: "evs = evs1 @ Ev_sleep SHELL_CMD_REPLY_INTERVAL_SEC # evs2"
    by (auto simp: seq_Inr)
  from send_cmd_reply_own [OF s] assms(2) have "own_run {pk_ptr p} evs1 = Some {pk_ptr p}"
    by blast
  with Cons.IH [OF r] e show ?case by (simp add: own_run_append)
qed simp

text \<open>The only buffers taken are the clones.\<close>

definition clone_addrs :: "shell_env \<Rightarrow> nat set" where
  "clone_addrs env = {a. \<exists>i. sh_clone env i = Some a}"

lemma send_cmd_reply_acquired:
  "send_cmd_reply (sh_clone env k) p cid err sq r = Inr evs \<Longrightarrow> acquired evs \<subseteq> clone_addrs env"
  by (auto simp: send_cmd_reply_def clone_addrs_def split: option.splits)

lemma reply_run_acquired:
  "reply_run env p cid sq k xs = Inr evs \<Longrightarrow> acquired evs \<subseteq> clone_addrs env"
  by (induction xs arbitrary: k evs) (fastforce simp: seq_Inr dest: send_cmd_reply_acquired)+

section \<open>Pipes and sleeps\<close>

fun pipe_events :: "event list \<Rightarrow> event list" where
  "pipe_events [] = []"
| "pipe_events (Ev_popen cmd # es) = Ev_popen cmd # pipe_events es"
| "pipe_events (Ev_pclose # es) = Ev_pclose # pipe_events es"
| "pipe_events (_ # es) = pipe_events es"

fun sleeps :: "event list \<Rightarrow> nat list" where
  "sleeps [] = []"
| "sleeps (Ev_sleep n # es) = n # sleeps es"
| "sleeps (_ # es) = sleeps es"

lemma pipe_events_append [simp]: "pipe_events (xs @ ys) = pipe_events xs @ pipe_events ys"
  by (induction xs rule: pipe_events.induct) auto

lemma sleeps_append [simp]: "sleeps (xs @ ys) = sleeps xs @ sleeps ys"
  by (induction xs rule: sleeps.induct) auto

lemma send_cmd_reply_quiet:
  "send_cmd_reply clone p cid err sq r = Inr evs \<Longrightarrow> pipe_events evs = [] \<and> sleeps evs = []"
  by (auto simp: send_cmd_reply_def split: option.splits)

lemma reply_run_quiet:
  "reply_run env p cid sq k xs = Inr evs \<Longrightarrow>
    pipe_events evs = [] \<and> sleeps evs = replicate (length xs) SHELL_CMD_REPLY_INTERVAL_SEC"
  by (induction xs arbitrary: k evs) (fastforce simp: seq_Inr dest: send_cmd_reply_quiet)+

section \<open>What a command promises\<close>

text \<open>The outcome of a command and the replies it promises for it.\<close>

datatype shell_outcome = Failed int | Output bytes

definition req_command :: "csp_packet \<Rightarrow> bytes option" where
  "req_command p = c_string (drop SHELL_CMD_STR_OFFSET (pk_data p))"

definition req_timeout :: "csp_packet \<Rightarrow> u16" where
  "req_timeout p = le16toh (rd16 (pk_data p) SHELL_CMD_TIMEOUT_OFFSET)"

definition outcome_of :: "shell_env \<Rightarrow> csp_packet \<Rightarrow> shell_outcome" where
  "outcome_of env p =
     (if pk_length p \<noteq> SHELL_EXEC_CMD_MIN_SIZE then Failed (- EINVAL)
      else if \<not> sh_popen env then Failed (- EIO)
      else if sh_select env (req_timeout p) < 0 then Failed (sh_select env (req_timeout p))
      else if sh_select env (req_timeout p) = 0 then Failed (- ETIMEDOUT)
      else Output (sh_output env))"

definition promised :: "u8 \<Rightarrow> u32 \<Rightarrow> shell_outcome \<Rightarrow> shell_cmd_reply_telemetry list" where
  "promised cid sq res =
     (let reply = (\<lambda>err r. \<lparr>hr_telemetry_id = cid, hr_error_code = htole32 err, hr_seq_number = sq,
                          hr_result = pad240 r\<rparr>) in
      case res of
        Failed err \<Rightarrow> [reply err []]
      | Output out \<Rightarrow>
        if out = [] then [reply 0 (str_bytes ''No output'')]
        else map (reply 0) (take 50 (pieces SHELL_RESULT_BUF_SIZE out)))"

text \<open>The length field and the string of a command that stays within the array
  \<open>cmd\<close>.\<close>

definition shell_fits :: "csp_packet \<Rightarrow> bool" where
  "shell_fits p \<longleftrightarrow>
     (pk_length p = SHELL_EXEC_CMD_MIN_SIZE \<longrightarrow>
        (case req_command p of None \<Rightarrow> False | Some s \<Rightarrow> length s < SHELL_CMD_STR_MAX_SIZE))"

text \<open>The pipe, when there is one.\<close>

definition promised_pipe :: "shell_env \<Rightarrow> csp_packet \<Rightarrow> event list" where
  "promised_pipe env p =
     (if pk_length p \<noteq> SHELL_EXEC_CMD_MIN_SIZE then []
      else [Ev_popen (the (req_command p))] @ (if sh_popen env then [Ev_pclose] else []))"

section \<open>The exits of \<open>shell_cmd\<close>\<close>

text \<open>A command that fits its array: what becomes of it depends on \<open>popen\<close> and \<open>select\<close>.\<close>

lemma shell_cmd_runs:
  assumes fits: "shell_fits p" and len: "pk_length p = SHELL_EXEC_CMD_MIN_SIZE" and cmd: "req_command p = Some cmd"
    and cp: "strcpy SHELL_CMD_STR_MAX_SIZE (drop SHELL_CMD_STR_OFFSET (pk_data p)) = Inr cmd"
  obtains (failed) err where "outcome_of env p = Failed err" "err < 0"
      "shell_cmd env cid p sq = shell_cmd_end env p cid sq err (promised_pipe env p)"
  | (ran) cmd where "outcome_of env p = Output (sh_output env)" "promised_pipe env p = [Ev_popen cmd, Ev_pclose]"
      "shell_cmd env cid p sq =
        (case shell_cmd_loop env p cid sq 0 (replicate SHELL_RESULT_BUF_SIZE 0) (sh_output env) of
           Inl flt \<Rightarrow> Inl flt
         | Inr evs \<Rightarrow> Inr (sq + 1, [Ev_popen cmd] @ evs @ [Ev_pclose, Ev_free (pk_ptr p)]))"
proof -
  let ?r = "sh_select env (req_timeout p)"
  have "le16toh (rd16 (pk_data p) (Suc 0)) = req_timeout p" by (simp add: req_timeout_def)
  note facts = len cmd cp outcome_of_def shell_cmd_def promised_pipe_def Let_def this
  consider "\<not> sh_popen env" | "sh_popen env" "?r < 0" | "sh_popen env" "?r = 0"
    | "sh_popen env" "0 < ?r" by linarith
  then show thesis
  proof cases
    case 1
    then show thesis using fits by (intro failed [of "- EIO"]) (simp_all add: facts)
  next
    case 2
    then show thesis using fits by (intro failed [of ?r]) (simp_all add: facts)
  next
    case 3
    then show thesis using fits by (intro failed [of "- ETIMEDOUT"]) (simp_all add: facts)
  next
    case 4
    have "shell_cmd env cid p sq =
      (case shell_cmd_loop env p cid sq 0 (replicate SHELL_RESULT_BUF_SIZE 0) (sh_output env) of
         Inl flt \<Rightarrow> Inl flt
       | Inr evs \<Rightarrow> shell_cmd_end env p cid sq ?r ([Ev_popen cmd] @ evs @ [Ev_pclose]))"
      using 4 by (simp add: facts)
    moreover have "shell_cmd_end env p cid sq ?r ([Ev_popen cmd] @ evs @ [Ev_pclose]) =
        Inr (sq + 1, [Ev_popen cmd] @ evs @ [Ev_pclose, Ev_free (pk_ptr p)])" for evs
      using 4 by (simp add: shell_cmd_end_def)
    ultimately show thesis
      using 4 fits by (intro ran [of cmd]) (simp_all add: facts split: sum.split)
  qed
qed

lemma shell_cmd_cases:
  obtains (overrun) "\<not> shell_fits p" "\<not> safe (shell_cmd env cid p sq)"
  | (failed) err where "shell_fits p" "outcome_of env p = Failed err" "err < 0"
      "shell_cmd env cid p sq = shell_cmd_end env p cid sq err (promised_pipe env p)"
  | (ran) cmd where "shell_fits p" "outcome_of env p = Output (sh_output env)"
      "promised_pipe env p = [Ev_popen cmd, Ev_pclose]"
      "shell_cmd env cid p sq =
        (case shell_cmd_loop env p cid sq 0 (replicate SHELL_RESULT_BUF_SIZE 0) (sh_output env) of
           Inl flt \<Rightarrow> Inl flt
         | Inr evs \<Rightarrow> Inr (sq + 1, [Ev_popen cmd] @ evs @ [Ev_pclose, Ev_free (pk_ptr p)]))"
proof (cases "pk_length p = SHELL_EXEC_CMD_MIN_SIZE")
  case False
  then show thesis
    by (intro failed [of "- EINVAL"])
      (simp_all add: shell_fits_def outcome_of_def shell_cmd_def promised_pipe_def)
next
  case len: True
  show thesis
  proof (cases "shell_fits p")
    case False
    with len have "\<not> safe (strcpy SHELL_CMD_STR_MAX_SIZE (drop SHELL_CMD_STR_OFFSET (pk_data p)))"
      by (auto simp: safe_strcpy shell_fits_def req_command_def)
    then obtain flt where "strcpy SHELL_CMD_STR_MAX_SIZE (drop SHELL_CMD_STR_OFFSET (pk_data p)) = Inl flt"
      by (auto simp: safe_iff)
    then have "\<not> safe (shell_cmd env cid p sq)" using len by (simp add: shell_cmd_def)
    with False overrun show thesis by blast
  next
    case True
    with len obtain cmd where cmd: "req_command p = Some cmd"
      and cp: "strcpy SHELL_CMD_STR_MAX_SIZE (drop SHELL_CMD_STR_OFFSET (pk_data p)) = Inr cmd"
      by (auto simp: shell_fits_def req_command_def strcpy_Inr split: option.splits)
    show thesis by (rule shell_cmd_runs [OF True len cmd cp]) (rule failed [OF True], assumption+, rule ran [OF True], assumption+)
  qed
qed

lemma shell_cmd_end_failed:
  assumes "err < 0" "sh_replies pre = []" "own_run {pk_ptr p} pre = Some {pk_ptr p}"
    "pipe_events pre = pre" "shell_cmd_end env p cid sq err pre = Inr (sq', evs)"
  shows "sq' = sq + 1 \<and> sh_replies evs = promised cid sq (Failed err) \<and> pipe_events evs = pre
    \<and> sleeps evs = sleeps pre \<and> acquired evs \<subseteq> acquired pre \<union> clone_addrs env
    \<and> (sh_clone env 0 \<noteq> Some (pk_ptr p) \<longrightarrow> linear (pk_ptr p) evs)"
proof -
  from assms(1,5) obtain e where
    s: "send_cmd_reply (sh_clone env 0) p cid err sq None = Inr e"
    and e: "sq' = sq + 1" "evs = pre @ e @ [Ev_free (pk_ptr p)]"
    by (auto simp: shell_cmd_end_def seq_Inr)
  from send_cmd_reply_quiet [OF s] have "pipe_events e = []" "sleeps e = []" by auto
  moreover from send_cmd_reply_acquired [OF s] have "acquired e \<subseteq> clone_addrs env" .
  moreover from s have "sh_replies e = promised cid sq (Failed err)"
    by (auto simp: promised_def elim: send_cmd_reply_Inr)
  moreover from s assms(3) have "sh_clone env 0 \<noteq> Some (pk_ptr p) \<Longrightarrow> linear (pk_ptr p) evs"
    by (auto simp: e linear_def own_run_append send_cmd_reply_def split: option.splits)
  ultimately show ?thesis using assms(2,4) e by auto
qed

lemma promised_pipe_facts:
  "sh_replies (promised_pipe env p) = []" "pipe_events (promised_pipe env p) = promised_pipe env p"
  "sleeps (promised_pipe env p) = []" "acquired (promised_pipe env p) = {}" "own_run own (promised_pipe env p) = Some own"
  by (simp_all add: promised_pipe_def)

text \<open>The loop as a whole.\<close>

lemma output_loop:
  assumes "shell_cmd_loop env p cid sq 0 (replicate SHELL_RESULT_BUF_SIZE 0) out = Inr evs"
  shows "sh_replies evs = promised cid sq (Output out) \<and> pipe_events evs = []
    \<and> set (sleeps evs) \<subseteq> {SHELL_CMD_REPLY_INTERVAL_SEC} \<and> acquired evs \<subseteq> clone_addrs env
    \<and> ((\<forall>i. sh_clone env i \<noteq> Some (pk_ptr p)) \<longrightarrow> own_run {pk_ptr p} evs = Some {pk_ptr p})"
proof (cases "out = []")
  case True
  with assms have s: "send_cmd_reply (sh_clone env 0) p cid 0 sq
      (Some (pad240 (str_bytes ''No output''))) = Inr evs"
    by (simp only: shell_cmd_loop_empty)
  have len: "length (pad240 (str_bytes ''No output'')) = SHELL_RESULT_BUF_SIZE" by simp
  have "sh_replies evs = promised cid sq (Output out)"
    by (simp only: True send_cmd_reply_some [OF s len] promised_def Let_def shell_outcome.case refl if_True)
  with send_cmd_reply_quiet [OF s] send_cmd_reply_own [OF s] send_cmd_reply_acquired [OF s]
  show ?thesis by simp
next
  case False
  with assms have r: "reply_run env p cid sq 0 (take 50 (pieces SHELL_RESULT_BUF_SIZE out)) = Inr evs"
    by (simp add: shell_cmd_loop_run)
  have "\<forall>x \<in> set (take 50 (pieces SHELL_RESULT_BUF_SIZE out)). length x \<le> SHELL_RESULT_BUF_SIZE"
    by (auto dest!: in_set_takeD pieces_lengths)
  from reply_run_replies [OF r this] False have "sh_replies evs = promised cid sq (Output out)"
    by (simp add: promised_def htole32_def)
  with reply_run_quiet [OF r] reply_run_own [OF r] reply_run_acquired [OF r] show ?thesis by auto
qed

text \<open>A command that returns.\<close>

lemma shell_cmd_returns:
  assumes "shell_cmd env cid p sq = Inr (sq', evs)"
  shows "sq' = sq + 1 \<and> sh_replies evs = promised cid sq (outcome_of env p)
    \<and> pipe_events evs = promised_pipe env p \<and> set (sleeps evs) \<subseteq> {SHELL_CMD_REPLY_INTERVAL_SEC}
    \<and> acquired evs \<subseteq> clone_addrs env
    \<and> ((\<forall>i. sh_clone env i \<noteq> Some (pk_ptr p)) \<longrightarrow> linear (pk_ptr p) evs)"
proof (cases rule: shell_cmd_cases [of p env cid sq])
  case overrun
  with assms show ?thesis by simp
next
  case (failed err)
  with assms have "shell_cmd_end env p cid sq err (promised_pipe env p) = Inr (sq', evs)" by simp
  from shell_cmd_end_failed [OF failed(3) promised_pipe_facts(1,5,2) this] failed(2)
  show ?thesis by (auto simp: promised_pipe_facts)
next
  case (ran cmd)
  with assms obtain evs' where
    l: "shell_cmd_loop env p cid sq 0 (replicate SHELL_RESULT_BUF_SIZE 0) (sh_output env) = Inr evs'"
    and e: "sq' = sq + 1" "evs = [Ev_popen cmd] @ evs' @ [Ev_pclose, Ev_free (pk_ptr p)]"
    by (auto simp: seq_Inr)
  from output_loop [OF l] ran show ?thesis by (auto simp: e linear_def own_run_append)
qed

lemma promised_length:
  "length (promised cid sq res) =
    (case res of Failed err \<Rightarrow> 1
     | Output out \<Rightarrow> if out = [] then 1 else min 50 (length (pieces SHELL_RESULT_BUF_SIZE out)))"
  by (cases res) (auto simp: promised_def Let_def)

text \<open>It returns when the request fits and there is a clone for every reply.\<close>

lemma shell_cmd_safe:
  "safe (shell_cmd env cid p sq) \<longleftrightarrow>
    shell_fits p \<and> (\<forall>i < length (promised cid sq (outcome_of env p)). sh_clone env i \<noteq> None)"
proof (cases rule: shell_cmd_cases [of p env cid sq])
  case (failed err)
  have "safe (shell_cmd_end env p cid sq err (promised_pipe env p)) \<longleftrightarrow>
      safe (send_cmd_reply (sh_clone env 0) p cid err sq None)"
    using failed(3) by (simp add: shell_cmd_end_def safe_seq del: send_cmd_reply_safe) (simp add: safe_def)
  with failed show ?thesis by (simp add: promised_length)
next
  case (ran cmd)
  then have "safe (shell_cmd env cid p sq) \<longleftrightarrow>
      safe (shell_cmd_loop env p cid sq 0 (replicate SHELL_RESULT_BUF_SIZE 0) (sh_output env))"
    by (simp add: safe_seq) (simp add: safe_def)
  also have "\<dots> \<longleftrightarrow> (\<forall>i < length (promised cid sq (outcome_of env p)). sh_clone env i \<noteq> None)"
  proof (cases "sh_output env = []")
    case True
    then show ?thesis
      using ran(2) send_cmd_reply_safe
      by (simp only: shell_cmd_loop_empty promised_length) simp
  next
    case False
    then have "shell_cmd_loop env p cid sq 0 (replicate SHELL_RESULT_BUF_SIZE 0) (sh_output env) =
        reply_run env p cid sq 0 (take 50 (pieces SHELL_RESULT_BUF_SIZE (sh_output env)))"
      by (simp add: shell_cmd_loop_run)
    with False ran(2) show ?thesis by (simp add: reply_run_safe promised_length min.commute)
  qed
  finally show ?thesis using ran(1) by simp
qed auto

end
