(* ===== verification/ShellProps.thy ===== *)
theory ShellProps
  imports ShellOps
begin

text \<open>
  The properties of the shell component, each with a witness on a concrete command.
\<close>

section \<open>The work function\<close>

abbreviation shell_work :: "shell_env \<Rightarrow> csp_packet \<Rightarrow> u32 \<Rightarrow> (u32 \<times> event list) res" where
  "shell_work env p \<equiv> csp_shell_work env (Some p)"

definition is_shell_cmd :: "csp_packet \<Rightarrow> bool" where
  "is_shell_cmd p \<longleftrightarrow> pk_length p \<noteq> 0 \<and> cmd_id p = SHELL_CMD"

lemma shell_work_cmd:
  "is_shell_cmd p \<Longrightarrow> shell_work env p sq = shell_cmd env SHELL_CMD p sq"
  by (auto simp: is_shell_cmd_def csp_shell_work_def Let_def word_less_1)

lemma shell_work_other:
  "\<not> is_shell_cmd p \<Longrightarrow>
    shell_work env p sq = Inr (sq, send_shell_err_reply p CSP_UNKNOWN_COMMAND_ID (- EINVAL))"
  by (auto simp: is_shell_cmd_def csp_shell_work_def Let_def word_less_1)

definition clones_suffice :: "shell_env \<Rightarrow> csp_packet \<Rightarrow> bool" where
  "clones_suffice env p \<longleftrightarrow>
     (\<forall>i < length (promised SHELL_CMD 0 (outcome_of env p)). sh_clone env i \<noteq> None)"

interpretation shell_worker: queue_worker g_queue_init "\<lambda>q p. shell_handler p q" g_queue_pop_head
  "\<lambda>q. q" shell_work "Ev_sleep SHELL_WORK_THREAD_SLEEP_SEC" "\<lambda>_. True" wf_packet
  by unfold_locales
    (auto simp: shell_handler_def g_queue.items_push g_queue.items_init g_queue.pop_item
      g_queue.pop_empty)

text \<open>The pieces of the output, each padded with zeros, give the output padded.\<close>

lemma concat_padded:
  assumes "0 < n"
  shows "\<exists>k < n. concat (map (\<lambda>x. x @ replicate (n - length x) c) (pieces n xs)) = xs @ replicate k c"
  using assms
proof (induction n xs rule: pieces.induct)
  case (1 n xs)
  show ?case
  proof (cases "length xs \<le> n")
    case True
    with 1 show ?thesis
      by (cases "xs = []")
        (auto simp: pieces.simps [of n xs] intro!: exI [of _ "n - length xs"])
  next
    case False
    with 1 obtain k where k: "k < n"
      "concat (map (\<lambda>x. x @ replicate (n - length x) c) (pieces n (drop n xs))) = drop n xs @ replicate k c"
      by (metis list.size(3) not_gr_zero zero_le)
    with False have "concat (map (\<lambda>x. x @ replicate (n - length x) c) (pieces n xs)) =
        (take n xs @ drop n xs) @ replicate k c"
      by (subst pieces.simps) (auto simp: min_def)
    with k(1) show ?thesis by auto
  qed
qed

section \<open>A session of commands\<close>

text \<open>What a sequence of commands promises, the first one under sequence number \<open>sq\<close>.\<close>

fun session_replies :: "(shell_env \<times> csp_packet) list \<Rightarrow> u32 \<Rightarrow> shell_cmd_reply_telemetry list" where
  "session_replies [] sq = []"
| "session_replies ((env, p) # eps) sq =
     promised SHELL_CMD sq (outcome_of env p) @ session_replies eps (sq + 1)"

lemma run_session:
  assumes "\<forall>(env, p) \<in> set eps. is_shell_cmd p \<and> shell_fits p \<and> clones_suffice env p"
  shows "\<exists>evs. run_work shell_work eps sq = Inr (sq + of_nat (length eps), evs)
    \<and> sh_replies evs = session_replies eps sq"
  using assms
proof (induction eps arbitrary: sq)
  case (Cons ep eps)
  obtain env p where ep: "ep = (env, p)" by fastforce
  with Cons.prems have p: "is_shell_cmd p" "shell_fits p" "clones_suffice env p" by auto
  then have "safe (shell_cmd env SHELL_CMD p sq)"
    by (simp add: shell_cmd_safe clones_suffice_def promised_length)
  then obtain sq1 evs1 where c: "shell_cmd env SHELL_CMD p sq = Inr (sq1, evs1)"
    by (auto simp: safe_def)
  from shell_cmd_returns [OF c] have sq1: "sq1 = sq + 1" by simp
  from Cons.IH [of "sq + 1"] Cons.prems obtain evs2 where
    "run_work shell_work eps (sq + 1) = Inr (sq + 1 + of_nat (length eps), evs2)"
    "sh_replies evs2 = session_replies eps (sq + 1)" by auto
  with shell_cmd_returns [OF c] sq1 p(1) c show ?case
    by (simp add: ep shell_work_cmd)
qed simp

section \<open>A concrete system\<close>

definition sh_ok :: "bytes \<Rightarrow> shell_env" where
  "sh_ok out = \<lparr>sh_popen = True, sh_select = (\<lambda>t. if t = 0 then 0 else 1), sh_output = out,
               sh_clone = (\<lambda>k. Some (100 + k))\<rparr>"

definition p_shell :: "bytes \<Rightarrow> csp_packet" where
  "p_shell cmd = mk_packet 1 ([0, 10, 0] @ strncpy cmd 200)"

definition p_ls :: csp_packet where
  "p_ls = p_shell (str_bytes ''ls'')"

lemma p_ls_facts:
  "is_shell_cmd p_ls" "shell_fits p_ls" "pk_ptr p_ls = 1" "wf_packet p_ls"
  "pk_length p_ls = 203" "req_timeout p_ls = 10"
  by code_simp+

lemma p_ls_outcome: "outcome_of (sh_ok out) p_ls = Output out"
  by (simp add: outcome_of_def p_ls_facts sh_ok_def)

lemma sh_ok_clones: "clones_suffice (sh_ok out) p" "sh_clone (sh_ok out) i \<noteq> Some 1"
  by (simp_all add: clones_suffice_def sh_ok_def)

lemma p_ls_safe: "\<exists>sq' evs. shell_work (sh_ok out) p_ls sq = Inr (sq', evs)"
proof -
  have "safe (shell_work (sh_ok out) p_ls sq)"
    by (simp add: shell_work_cmd p_ls_facts shell_cmd_safe sh_ok_def)
  then show ?thesis by (auto simp: safe_def)
qed

section \<open>Properties\<close>

text \<open>C20: The shell component runs into undefined behaviour exactly on a command request whose
  string has no NUL within the buffer or 200 bytes and more before it, or when libcsp has no
  buffer left for the clone of one of the replies.\<close>

theorem shell_work_fault_iff:
  "safe (csp_shell_work env (Some p) sq) = (if is_shell_cmd p then shell_fits p \<and> clones_suffice env p else True)"
  by (simp add: shell_work_cmd shell_work_other shell_cmd_safe clones_suffice_def promised_length)

text \<open>C9: A shell command that returns has answered as the specification says: one reply with the
  error of the first step that failed (-EINVAL for the size, -EIO for \<open>popen\<close>, what
  \<open>select\<close> returned, -ETIMEDOUT for its timeout), the text "No output", or the first fifty
  pieces of 240 bytes of the output, all under the sequence number of the command; the
  sequence number then moves on by one.\<close>

theorem shell_refines_spec:
  assumes "is_shell_cmd p" "csp_shell_work env (Some p) sq = Inr (sq', evs)"
  shows "sh_replies evs = promised SHELL_CMD sq (outcome_of env p) \<and> sq' = sq + 1"
  using assms shell_cmd_returns by (simp add: shell_work_cmd)

lemma shell_refines_spec_witness:
  "\<exists>sq' evs. csp_shell_work (sh_ok [65]) (Some p_ls) 7 = Inr (sq', evs)
    \<and> sh_replies evs = promised SHELL_CMD 7 (Output [65]) \<and> sq' = 8"
  using p_ls_safe [of "[65]" 7] shell_refines_spec [OF p_ls_facts(1), of "sh_ok [65]" 7]
  by (auto simp: p_ls_outcome)

text \<open>C14: The replies of a command with output carry it: their results one after the other are
  the first 12000 bytes of the output, followed by fewer than 240 zero bytes, in at most 50
  replies without error.\<close>

theorem shell_output_reassembles:
  assumes "is_shell_cmd p" "csp_shell_work env (Some p) sq = Inr (sq', evs)"
    and "outcome_of env p = Output out" "out \<noteq> []"
  shows "(\<exists>k < 240. concat (map hr_result (sh_replies evs)) = take 12000 out @ replicate k 0)
    \<and> length (sh_replies evs) \<le> 50 \<and> hr_error_code ` set (sh_replies evs) \<subseteq> {0}"
proof -
  have r: "sh_replies evs = promised SHELL_CMD sq (Output out)"
    using assms shell_cmd_returns by (simp add: shell_work_cmd)
  have "map hr_result (sh_replies evs) = map pad240 (pieces SHELL_RESULT_BUF_SIZE (take 12000 out))"
    using assms(4) take_pieces [of SHELL_RESULT_BUF_SIZE 50 out]
    by (simp add: r promised_def Let_def comp_def)
  with concat_padded [of SHELL_RESULT_BUF_SIZE 0 "take 12000 out"] show ?thesis
    using assms(4) by (auto simp: r promised_def Let_def htole32_def)
qed

lemma shell_output_reassembles_witness:
  "\<exists>sq' evs k. csp_shell_work (sh_ok (replicate 20000 65)) (Some p_ls) 0 = Inr (sq', evs) \<and> k < 240
    \<and> concat (map hr_result (sh_replies evs)) = take 12000 (replicate 20000 65) @ replicate k 0"
proof -
  obtain sq' evs where run: "csp_shell_work (sh_ok (replicate 20000 65)) (Some p_ls) 0 = Inr (sq', evs)"
    using p_ls_safe by blast
  have "replicate 20000 65 \<noteq> ([] :: bytes)" by (simp only: replicate_empty)
  from shell_output_reassembles [OF p_ls_facts(1) run p_ls_outcome this] run
  show ?thesis by blast
qed

text \<open>The shell component gives the packet it works on back exactly once, together with every
  clone, provided \<open>csp_buffer_clone\<close> never returns the buffer it clones.\<close>

theorem shell_work_gives_packet_back:
  assumes "csp_shell_work env (Some p) sq = Inr (sq', evs)" "\<forall>i. sh_clone env i \<noteq> Some (pk_ptr p)"
  shows "linear (pk_ptr p) evs"
proof (cases "is_shell_cmd p")
  case True
  with assms shell_cmd_returns show ?thesis by (simp add: shell_work_cmd)
next
  case False
  with assms show ?thesis by (auto simp: shell_work_other send_shell_err_reply_def own_simps)
qed

lemma shell_work_gives_packet_back_witness:
  "\<exists>sq' evs. csp_shell_work (sh_ok []) (Some p_ls) 0 = Inr (sq', evs) \<and> linear 1 evs"
  using p_ls_safe [of "[]" 0] shell_work_gives_packet_back [of "sh_ok []" p_ls 0] sh_ok_clones(2)
  by (auto simp: p_ls_facts)

text \<open>Every pipe a command opens is closed, and none is closed that was not opened. The pause
  between two replies is \<open>sleep(0.2)\<close>, which sleeps for 0 seconds: the replies follow each
  other without any pause.\<close>

theorem shell_replies_unpaced:
  assumes "is_shell_cmd p" "csp_shell_work env (Some p) sq = Inr (sq', evs)"
  shows "pipe_events evs = promised_pipe env p \<and> sum_list (sleeps evs) = 0"
proof -
  have "pipe_events evs = promised_pipe env p" "set (sleeps evs) \<subseteq> {0}"
    using assms shell_cmd_returns [of env SHELL_CMD p sq sq' evs]
    by (auto simp: shell_work_cmd SHELL_CMD_REPLY_INTERVAL_SEC_def)
  then show ?thesis by (auto simp: sum_list_eq_0_iff)
qed

lemma shell_replies_unpaced_witness:
  "\<exists>sq' evs. csp_shell_work (sh_ok []) (Some p_ls) 0 = Inr (sq', evs)
    \<and> pipe_events evs = [Ev_popen (str_bytes ''ls''), Ev_pclose] \<and> sum_list (sleeps evs) = 0"
proof -
  obtain sq' evs where run: "csp_shell_work (sh_ok []) (Some p_ls) 0 = Inr (sq', evs)"
    using p_ls_safe by blast
  have "promised_pipe (sh_ok []) p_ls = [Ev_popen (str_bytes ''ls''), Ev_pclose]" by code_simp
  with shell_replies_unpaced [OF p_ls_facts(1) run] run show ?thesis by auto
qed

text \<open>The shell thread empties its queue of commands in the order of their arrival, answers
  each as specified and numbers them consecutively: with as many turns as there are commands,
  each within the array and with enough clones, it returns, the queue is empty, and the replies
  of the \<open>i\<close>-th command carry the starting number plus \<open>i\<close>.\<close>

theorem shell_thread_serves_queue:
  assumes "length envs = length q"
    and "\<forall>(env, p) \<in> set (zip envs q). is_shell_cmd p \<and> shell_fits p \<and> clones_suffice env p"
  shows "\<exists>evs. shell_work_thread envs q sq = Inr ([], sq + of_nat (length q), evs)
    \<and> sh_replies evs = session_replies (zip envs q) sq"
proof -
  obtain evs where run: "run_work shell_work (zip envs q) sq = Inr (sq + of_nat (length q), evs)"
    and r: "sh_replies evs = session_replies (zip envs q) sq"
    using run_session [OF assms(2)] assms(1) by (metis length_zip min.idem)
  from shell_worker.loop_drains [OF assms(1) run] r show ?thesis
    by (simp add: shell_work_thread_def)
qed

lemma shell_thread_serves_queue_witness:
  "\<exists>evs. shell_work_thread [sh_ok [65], sh_ok []] [p_ls, p_ls] (- 1) = Inr ([], 1, evs)
    \<and> sh_replies evs = promised SHELL_CMD (- 1) (Output [65]) @ promised SHELL_CMD 0 (Output [])"
  using shell_thread_serves_queue [of "[sh_ok [65], sh_ok []]" "[p_ls, p_ls]" "- 1"]
  by (simp add: p_ls_facts sh_ok_clones(1) p_ls_outcome)

end
