(* ===== verification/System.thy ===== *)
theory System
  imports Telemetry
begin

text \<open>
  The system component, \<open>csp-handler/files/system.c\<close>: the version request. It is
  answered at once, in the thread of the CSP server.
\<close>

section \<open>Definitions\<close>

abbreviation (input) SYSTEM_CMD_MIN_SIZE :: u16 where "SYSTEM_CMD_MIN_SIZE \<equiv> 1"
abbreviation (input) SYSTEM_GET_VER_CMD :: u8 where "SYSTEM_GET_VER_CMD \<equiv> 0"

definition CSPD_VERSION :: string where
  "CSPD_VERSION = ''1.0.0''"

definition send_system_err_reply :: "csp_packet \<Rightarrow> u8 \<Rightarrow> int \<Rightarrow> event list" where
  "send_system_err_reply packet command_id err_code =
     [Ev_reply (put_payload packet
        (system_err_image \<lparr>se_telemetry_id = command_id, se_error_code = htole32 err_code\<rparr>))]"

text \<open>\<open>stack\<close> is what the local variable \<open>tlm\<close> held in its \<open>version\<close> field
  before: \<open>strcpy\<close> writes the string and its NUL and leaves the rest.\<close>

definition send_system_version_reply :: "(nat \<Rightarrow> u8) \<Rightarrow> csp_packet \<Rightarrow> u8 \<Rightarrow> int \<Rightarrow> event list res" where
  "send_system_version_reply stack packet command_id err_code =
     (case strcpy SYSTEM_VERSION_STR_SIZE (str_bytes CSPD_VERSION @ [0]) of
        Inl flt \<Rightarrow> Inl flt
      | Inr v \<Rightarrow>
        let tlm = \<lparr>sv_telemetry_id = command_id, sv_error_code = htole32 err_code,
                   sv_version = v @ [0] @ map stack [length v + 1..<SYSTEM_VERSION_STR_SIZE]\<rparr> in
        Inr [Ev_reply (put_payload packet (system_version_image tlm))])"

definition system_handler :: "(nat \<Rightarrow> u8) \<Rightarrow> csp_packet option \<Rightarrow> event list res" where
  "system_handler stack packet =
     (case packet of
        None \<Rightarrow> Inr []
      | Some p \<Rightarrow>
        if pk_length p < SYSTEM_CMD_MIN_SIZE then
          Inr (send_system_err_reply p CSP_UNKNOWN_COMMAND_ID (- EINVAL))
        else
          let command_id = pk_data p ! CSP_COMMAND_ID_OFFSET in
          if command_id = SYSTEM_GET_VER_CMD then send_system_version_reply stack p command_id 0
          else Inr (send_system_err_reply p CSP_UNKNOWN_COMMAND_ID (- EINVAL)))"

section \<open>Lemmas\<close>

definition is_version_cmd :: "csp_packet \<Rightarrow> bool" where
  "is_version_cmd p \<longleftrightarrow> pk_length p \<noteq> 0 \<and> cmd_id p = SYSTEM_GET_VER_CMD"

text \<open>The version field: the string, its NUL, and ten bytes of the stack.\<close>

definition version_field :: "(nat \<Rightarrow> u8) \<Rightarrow> bytes" where
  "version_field stack = str_bytes CSPD_VERSION @ [0] @ map stack [6..<SYSTEM_VERSION_STR_SIZE]"

lemma CSPD_VERSION_copied:
  "strcpy SYSTEM_VERSION_STR_SIZE (str_bytes CSPD_VERSION @ [0]) = Inr (str_bytes CSPD_VERSION)"
  "length CSPD_VERSION = 5"
  by code_simp+

lemma length_version_field [simp]:
  "length (version_field stack) = SYSTEM_VERSION_STR_SIZE"
  by (simp add: version_field_def CSPD_VERSION_copied)

lemma system_handler_cases:
  "system_handler stack (Some p) =
     Inr (if is_version_cmd p then
            [Ev_reply (put_payload p (system_version_image
               \<lparr>sv_telemetry_id = SYSTEM_GET_VER_CMD, sv_error_code = 0, sv_version = version_field stack\<rparr>))]
          else send_system_err_reply p CSP_UNKNOWN_COMMAND_ID (- EINVAL))"
  by (auto simp: system_handler_def is_version_cmd_def Let_def word_less_1
      send_system_version_reply_def CSPD_VERSION_copied version_field_def htole32_def)

lemma system_handler_one:
  "\<exists>q. system_handler stack (Some p) = Inr [Ev_reply q] \<and> pk_ptr q = pk_ptr p"
  by (cases "is_version_cmd p") (simp_all add: system_handler_cases send_system_err_reply_def)

section \<open>Properties\<close>

text \<open>A version request is answered with error code 0 and a version field whose string is
  the daemon's version; its last ten bytes are whatever the stack held.\<close>

theorem version_reply_reads_back:
  assumes "is_version_cmd p"
  shows "\<exists>q. system_handler stack (Some p) = Inr [Ev_reply q] \<and> pk_ptr q = pk_ptr p
    \<and> sv_error_code (parse_system_version (payload q)) = 0
    \<and> c_string (sv_version (parse_system_version (payload q))) = Some (str_bytes CSPD_VERSION)
    \<and> drop 6 (sv_version (parse_system_version (payload q))) = map stack [6..<SYSTEM_VERSION_STR_SIZE]"
proof -
  let ?t = "\<lparr>sv_telemetry_id = SYSTEM_GET_VER_CMD, sv_error_code = 0, sv_version = version_field stack\<rparr>"
  have "parse_system_version (payload (put_payload p (system_version_image ?t))) = ?t"
    by (simp add: system_version.reply_parses)
  moreover have "c_string (version_field stack) = Some (str_bytes CSPD_VERSION)"
    unfolding version_field_def by (simp, rule c_string_append) code_simp
  moreover have "drop 6 (version_field stack) = map stack [6..<SYSTEM_VERSION_STR_SIZE]"
    by (simp add: version_field_def CSPD_VERSION_copied)
  ultimately show ?thesis using assms by (simp add: system_handler_cases)
qed

lemma version_reply_reads_back_witness:
  "\<exists>q. system_handler (\<lambda>_. 170) (Some (mk_packet 1 [0])) = Inr [Ev_reply q]
    \<and> drop 6 (sv_version (parse_system_version (payload q))) = replicate 10 170"
proof -
  have "is_version_cmd (mk_packet 1 [0])" by code_simp
  from version_reply_reads_back [OF this, of "\<lambda>_. 170"] show ?thesis
    by (auto simp: eval_nat_numeral)
qed

end
