(* ===== verification/Decimal.thy ===== *)
theory Decimal
  imports Prelude
begin

text \<open>
  Decimal numbers as \<open>printf\<close> writes them: for the file names of the camera and for the words of
  a command line.
\<close>

section \<open>Formatting\<close>

text \<open>The conversions \<open>%d\<close> and \<open>%03d\<close> of a non-negative number, and
  \<open>snprintf\<close> into an array of \<open>n\<close> bytes.\<close>

fun dec :: "nat \<Rightarrow> string" where
  "dec n = (if n < 10 then [char_of (48 + n)] else dec (n div 10) @ [char_of (48 + n mod 10)])"

declare dec.simps [simp del]

definition fmt03 :: "nat \<Rightarrow> string" where
  "fmt03 n = replicate (3 - length (dec n)) (CHR ''0'') @ dec n"

definition snprintf :: "nat \<Rightarrow> string \<Rightarrow> string" where
  "snprintf n s = take (n - 1) s"

section \<open>Decimal numbers\<close>

definition dec_val :: "string \<Rightarrow> nat" where
  "dec_val s = foldl (\<lambda>a c. a * 10 + (of_char c - 48)) 0 s"

lemma dec_val_dec: "dec_val (dec n) = n"
proof (induction n rule: dec.induct)
  case (1 n)
  show ?case
  proof (cases "n < 10")
    case True
    then show ?thesis by (simp add: dec.simps [of n] dec_val_def)
  next
    case False
    with 1 have "dec_val (dec (n div 10)) = n div 10" by simp
    moreover have "(48 + n mod 10) mod 256 - 48 = n mod 10"
      using mod_less_divisor [of 10 n] by simp
    ultimately show ?thesis
      using False by (simp add: dec.simps [of n] dec_val_def)
  qed
qed

lemma dec_val_pad: "dec_val (replicate k (CHR ''0'') @ s) = dec_val s"
  by (induction k) (simp_all add: dec_val_def)

lemma fmt03_inj: "fmt03 m = fmt03 n \<Longrightarrow> m = n"
  by (metis dec_val_dec dec_val_pad fmt03_def)

lemma length_dec: "0 < k \<Longrightarrow> n < 10 ^ k \<Longrightarrow> length (dec n) \<le> k"
proof (induction k arbitrary: n)
  case (Suc k)
  show ?case
  proof (cases "n < 10")
    case True
    then show ?thesis by (simp add: dec.simps [of n])
  next
    case False
    then have "0 < k" using Suc.prems by (cases k) auto
    moreover have "n div 10 < 10 ^ k" using Suc.prems by (simp add: less_mult_imp_div_less mult.commute)
    ultimately show ?thesis using False Suc.IH by (simp add: dec.simps [of n])
  qed
qed simp

text \<open>The digits.\<close>

abbreviation digits :: string where
  "digits \<equiv> ''0123456789''"

lemma char_of_digit: "n < 10 \<Longrightarrow> char_of (48 + n) = digits ! n"
proof -
  have "\<forall>n \<in> set [0..<10]. char_of (48 + n) = digits ! n" by code_simp
  then show "n < 10 \<Longrightarrow> char_of (48 + n) = digits ! n" by simp
qed

lemma dec_digits: "set (dec n) \<subseteq> set digits"
proof -
  obtain D where D: "D = set digits" by simp
  have "char_of (48 + m) \<in> D" if "m < 10" for m :: nat
    unfolding char_of_digit [OF that] D by (rule nth_mem) (use that in simp)
  then have "set (dec n) \<subseteq> D"
    by (induction n rule: dec.induct) (simp add: dec.simps)
  then show ?thesis by (simp only: D)
qed

lemma dec_nonempty: "dec n \<noteq> []"
  by (simp add: dec.simps [of n])

end
