(* ===== verification/Camera.thy ===== *)
theory Camera
  imports Telemetry Decimal
begin

text \<open>
  The camera part of the hardware test, \<open>csp-handler/files/camera.c\<close>: the photo
  directory, the capture command and the number of frames.

  The state is the list of entries of \<open>/storageA/photo\<close> (None when the directory does
  not exist) and the sequence number of the next frame. What the surroundings decide: whether
  an existing directory can be opened, whether \<open>mkdir\<close> and each \<open>remove\<close> succeed,
  and what \<open>system\<close> returns.
\<close>

section \<open>Definitions\<close>

definition CAM_FRAME_PATH :: string where "CAM_FRAME_PATH = ''/storageA/photo''"
definition CAM_FRAME_PREFIX :: string where "CAM_FRAME_PREFIX = ''frame''"
abbreviation (input) PATH_MAX :: nat where "PATH_MAX \<equiv> 4096"

record cam_env =
  ce_opendir :: bool
  ce_mkdir :: bool
  ce_remove :: "string \<Rightarrow> bool"
  ce_system :: "string \<Rightarrow> int"

record cam_state =
  cam_dir :: "string list option"
  cam_seq :: u16

text \<open>\<open>strncmp(name, CAM_FRAME_PREFIX, strlen(CAM_FRAME_PREFIX)) == 0\<close>\<close>

definition is_frame :: "string \<Rightarrow> bool" where
  "is_frame name \<longleftrightarrow> take (length CAM_FRAME_PREFIX) name = CAM_FRAME_PREFIX"

text \<open>The entry of the photo directory that a path names is unlinked.\<close>

definition unlink_entry :: "string \<Rightarrow> string list \<Rightarrow> string list" where
  "unlink_entry path d = filter (\<lambda>name. CAM_FRAME_PATH @ ''/'' @ name \<noteq> path) d"

text \<open>The loop over the entries that \<open>readdir\<close> returns; \<open>d\<close> is the directory
  as it becomes.\<close>

fun remove_frames :: "cam_env \<Rightarrow> string list \<Rightarrow> string list \<Rightarrow> string list \<times> event list" where
  "remove_frames env [] d = (d, [])"
| "remove_frames env (name # names) d =
     (if is_frame name then
        let fname = snprintf PATH_MAX (CAM_FRAME_PATH @ ''/'' @ name);
            d1 = (if ce_remove env fname then unlink_entry fname d else d);
            (d2, evs) = remove_frames env names d1 in
        (d2, Ev_remove fname # evs)
      else remove_frames env names d)"

definition init_photo_dir :: "cam_env \<Rightarrow> cam_state \<Rightarrow> int \<times> cam_state \<times> event list" where
  "init_photo_dir env cs =
     (case (if ce_opendir env then cam_dir cs else None) of
        None \<Rightarrow>
          if ce_mkdir env \<and> cam_dir cs = None then
            (0, cs\<lparr>cam_dir := Some [''.'', ''..'']\<rparr>, [Ev_opendir CAM_FRAME_PATH, Ev_mkdir CAM_FRAME_PATH 420])
          else (- 1, cs, [Ev_opendir CAM_FRAME_PATH, Ev_mkdir CAM_FRAME_PATH 420])
      | Some d \<Rightarrow>
          let (d', evs) = remove_frames env d d in
          (0, cs\<lparr>cam_dir := Some d'\<rparr>, [Ev_opendir CAM_FRAME_PATH] @ evs @ [Ev_closedir]))"

definition frame_name :: "u16 \<Rightarrow> string" where
  "frame_name sq = snprintf 128 (CAM_FRAME_PATH @ ''/frame-'' @ fmt03 (unat sq) @ ''.bin'')"

definition capture_frame :: "cam_env \<Rightarrow> cam_state \<Rightarrow> int \<times> cam_state \<times> event list" where
  "capture_frame env cs =
     (let fname = frame_name (cam_seq cs);
          cam_cmd = snprintf 256 (''cam -c 1 --capture=1 --file='' @ fname @ '' &'');
          ret = ce_system env cam_cmd in
      (ret, if ret = 0 then cs\<lparr>cam_seq := cam_seq cs + 1\<rparr> else cs, [Ev_system cam_cmd]))"

fun count_frames :: "string list \<Rightarrow> u16 \<Rightarrow> u16" where
  "count_frames [] count = count"
| "count_frames (name # names) count =
     count_frames names (if is_frame name then count + 1 else count)"

definition get_frame_file_count :: "cam_env \<Rightarrow> cam_state \<Rightarrow> u16 \<Rightarrow> int \<times> u16 \<times> event list" where
  "get_frame_file_count env cs count =
     (case (if ce_opendir env then cam_dir cs else None) of
        None \<Rightarrow> (- 1, count, [Ev_opendir CAM_FRAME_PATH])
      | Some d \<Rightarrow> (0, count_frames d count, [Ev_opendir CAM_FRAME_PATH, Ev_closedir]))"

text \<open>The services. The first two do not touch the packet.\<close>

definition init_photo_dir_service ::
    "cam_env \<Rightarrow> u8 \<Rightarrow> csp_packet \<Rightarrow> cam_state \<Rightarrow> cam_state \<times> event list" where
  "init_photo_dir_service env command_id packet cs =
     (let (ret, cs', evs) = init_photo_dir env cs in (cs', evs))"

definition capture_frame_service ::
    "cam_env \<Rightarrow> u8 \<Rightarrow> csp_packet \<Rightarrow> cam_state \<Rightarrow> cam_state \<times> event list" where
  "capture_frame_service env command_id packet cs =
     (let (ret, cs', evs) = capture_frame env cs in (cs', evs))"

definition get_frame_count_service ::
    "cam_env \<Rightarrow> u8 \<Rightarrow> csp_packet \<Rightarrow> cam_state \<Rightarrow> cam_state \<times> event list" where
  "get_frame_count_service env command_id packet cs =
     (let (ret, count, evs) = get_frame_file_count env cs 0;
          tlm = \<lparr>hc_telemetry_id = command_id, hc_frame_count = count\<rparr> in
      (cs, evs @ [Ev_reply (put_data packet (cam_image tlm))]))"

lemma length_fmt03: "length (fmt03 (unat (sq :: u16))) \<le> 5"
proof -
  have "unat sq < 10 ^ 5" using unsigned_less [of sq, where 'a = nat] by simp
  from length_dec [OF _ this] show ?thesis by (simp add: fmt03_def)
qed

section \<open>Names\<close>

definition frame_entry :: "u16 \<Rightarrow> string" where
  "frame_entry sq = ''frame-'' @ fmt03 (unat sq) @ ''.bin''"

definition capture_command :: "u16 \<Rightarrow> string" where
  "capture_command sq = ''cam -c 1 --capture=1 --file='' @ CAM_FRAME_PATH @ ''/'' @ frame_entry sq @ '' &''"

text \<open>Neither \<open>snprintf\<close> truncates.\<close>

lemma frame_name_full: "frame_name sq = CAM_FRAME_PATH @ ''/'' @ frame_entry sq"
  using length_fmt03 [of sq]
  by (simp add: frame_name_def frame_entry_def snprintf_def CAM_FRAME_PATH_def)

lemma capture_frame_eq:
  "capture_frame env cs =
    (ce_system env (capture_command (cam_seq cs)),
     if ce_system env (capture_command (cam_seq cs)) = 0 then cs\<lparr>cam_seq := cam_seq cs + 1\<rparr> else cs,
     [Ev_system (capture_command (cam_seq cs))])"
proof -
  have "snprintf 256 (''cam -c 1 --capture=1 --file='' @ frame_name (cam_seq cs) @ '' &'') =
      capture_command (cam_seq cs)"
    using length_fmt03 [of "cam_seq cs"]
    by (simp add: frame_name_full capture_command_def snprintf_def frame_entry_def CAM_FRAME_PATH_def)
  then show ?thesis by (simp add: capture_frame_def Let_def)
qed

lemma frame_entry_inj: "frame_entry a = frame_entry b \<longleftrightarrow> a = b"
  by (auto simp: frame_entry_def word_unat_eq_iff dest: fmt03_inj)

lemma capture_command_inj: "capture_command a = capture_command b \<longleftrightarrow> a = b"
  by (simp add: capture_command_def frame_entry_inj)

lemma seq_inj_on: "n \<le> 65536 \<Longrightarrow> inj_on (\<lambda>i. sq + of_nat i :: u16) {0..<n}"
proof (rule inj_onI)
  fix i j
  assume "n \<le> 65536" "i \<in> {0..<n}" "j \<in> {0..<n}" "sq + of_nat i = sq + (of_nat j :: u16)"
  then have "unat (of_nat i :: u16) = unat (of_nat j :: u16)" "i < 65536" "j < 65536" by auto
  then show "i = j" by (simp add: unat_of_nat)
qed

lemma is_frame_entry: "is_frame (frame_entry sq)"
  by (simp add: is_frame_def frame_entry_def CAM_FRAME_PREFIX_def)

section \<open>Counting and removing\<close>

lemma count_frames_filter: "count_frames d c = c + of_nat (length (filter is_frame d))"
  by (induction d arbitrary: c) simp_all

text \<open>The names a directory can hold have at most 255 bytes, so their paths fit.\<close>

abbreviation (input) NAME_MAX :: nat where "NAME_MAX \<equiv> 255"

abbreviation entry_path :: "string \<Rightarrow> string" where
  "entry_path name \<equiv> CAM_FRAME_PATH @ ''/'' @ name"

lemma remove_frames_filter:
  assumes "\<forall>name \<in> set names. length name \<le> NAME_MAX"
  shows "fst (remove_frames env names d) =
    filter (\<lambda>name. \<not> (name \<in> set names \<and> is_frame name \<and> ce_remove env (entry_path name))) d"
  using assms
proof (induction names arbitrary: d)
  case (Cons name names)
  have path: "snprintf PATH_MAX (entry_path name) = entry_path name"
    using Cons.prems by (simp add: snprintf_def CAM_FRAME_PATH_def)
  have "unlink_entry (entry_path name) d = filter (\<lambda>n. n \<noteq> name) d"
    by (simp add: unlink_entry_def)
  then show ?case
    using Cons path
    by (auto simp: Let_def split: prod.splits intro!: filter_cong dest!: arg_cong [where f = fst])
qed simp

lemma init_photo_dir_opened:
  assumes "ce_opendir env" "cam_dir cs = Some d" "\<forall>name \<in> set d. length name \<le> NAME_MAX"
  shows "\<exists>evs. init_photo_dir env cs = (0, cs\<lparr>cam_dir :=
    Some (filter (\<lambda>name. \<not> (is_frame name \<and> ce_remove env (entry_path name))) d)\<rparr>, evs)"
proof -
  obtain d' evs where r: "remove_frames env d d = (d', evs)" by fastforce
  with remove_frames_filter [OF assms(3), of env d] have
    "d' = filter (\<lambda>name. \<not> (is_frame name \<and> ce_remove env (entry_path name))) d"
    by (auto intro: filter_cong)
  then show ?thesis using assms r by (simp add: init_photo_dir_def)
qed

text \<open>A series of captures.\<close>

fun capture_run :: "cam_env list \<Rightarrow> cam_state \<Rightarrow> cam_state \<times> event list" where
  "capture_run [] cs = (cs, [])"
| "capture_run (env # envs) cs =
     (let (ret, cs1, evs1) = capture_frame env cs;
          (cs2, evs2) = capture_run envs cs1 in
      (cs2, evs1 @ evs2))"

lemma capture_run_names:
  assumes "\<forall>env \<in> set envs. \<forall>c. ce_system env c = 0"
  shows "capture_run envs cs =
    (cs\<lparr>cam_seq := cam_seq cs + of_nat (length envs)\<rparr>,
     map (\<lambda>i. Ev_system (capture_command (cam_seq cs + of_nat i))) [0..<length envs])"
  using assms
proof (induction envs arbitrary: cs)
  case (Cons env envs)
  have upt: "[0..<length (env # envs)] = 0 # map Suc [0..<length envs]"
    by (simp add: map_Suc_upt upt_conv_Cons del: upt_Suc)
  have ok: "\<forall>env \<in> set envs. \<forall>c. ce_system env c = 0" using Cons.prems by simp
  have one: "capture_frame env cs = (0, cs\<lparr>cam_seq := cam_seq cs + 1\<rparr>,
      [Ev_system (capture_command (cam_seq cs))])"
    using Cons.prems by (simp add: capture_frame_eq)
  show ?case unfolding upt
    by (simp add: one Cons.IH [OF ok] comp_def add.assoc del: upt_Suc)
qed simp

section \<open>Properties\<close>

text \<open>Captures in a row write to different files, as long as there are no more of them than
  the sequence number has values; no name is truncated, and every name is one that the count
  and the removal recognise.\<close>

theorem capture_names_distinct:
  assumes "\<forall>env \<in> set envs. \<forall>c. ce_system env c = 0" "length envs \<le> 65536"
  shows "distinct (snd (capture_run envs cs))
    \<and> (\<forall>e \<in> set (snd (capture_run envs cs)). \<exists>name. is_frame name \<and>
         e = Ev_system (''cam -c 1 --capture=1 --file=/storageA/photo/'' @ name @ '' &''))"
proof
  from seq_inj_on [OF assms(2)] have "inj_on (\<lambda>i. cam_seq cs + of_nat i) {0..<length envs}" .
  then show "distinct (snd (capture_run envs cs))"
    by (simp add: capture_run_names [OF assms(1)] distinct_map inj_on_def capture_command_inj)
  show "\<forall>e \<in> set (snd (capture_run envs cs)). \<exists>name. is_frame name \<and>
         e = Ev_system (''cam -c 1 --capture=1 --file=/storageA/photo/'' @ name @ '' &'')"
    using is_frame_entry
    by (auto simp: capture_run_names [OF assms(1)] capture_command_def CAM_FRAME_PATH_def)
qed

lemma capture_names_distinct_witness:
  "distinct (snd (capture_run (replicate 3 \<lparr>ce_opendir = True, ce_mkdir = True,
      ce_remove = (\<lambda>_. True), ce_system = (\<lambda>_. 0)\<rparr>) \<lparr>cam_dir = None, cam_seq = 65535\<rparr>))"
  using capture_names_distinct [of "replicate 3 \<lparr>ce_opendir = True, ce_mkdir = True,
      ce_remove = (\<lambda>_. True), ce_system = (\<lambda>_. 0)\<rparr>" "\<lparr>cam_dir = None, cam_seq = 65535\<rparr>"]
  by simp

end
