(* ===== verification/TempSensor.thy ===== *)
theory TempSensor
  imports Telemetry
begin

text \<open>
  The temperature part of the hardware test, \<open>csp-handler/files/temp.c\<close>: one reading
  of the TMP175 over I2C and its telemetry. The results of \<open>open\<close>, \<open>ioctl\<close>,
  \<open>write\<close> and \<open>read\<close> and the two bytes read are arguments.
\<close>

section \<open>Definitions\<close>

text \<open>The I2C bus behind the device file: the results of the system calls, the two bytes a register
  of a slave holds, and what the bus remembers between two calls: the slave that the descriptor
  addresses and the register that each slave's pointer selects.\<close>

abbreviation (input) I2C_TMP175_SLAVE_ADDR :: u8 where "I2C_TMP175_SLAVE_ADDR \<equiv> 0x4E"
abbreviation (input) I2C_TMP175_TEMP_REG :: u8 where "I2C_TMP175_TEMP_REG \<equiv> 0"

record i2c_bus =
  ib_slave :: "u8 option"
  ib_pointer :: "u8 \<Rightarrow> u8"

record i2c_env =
  i2_open :: "string \<Rightarrow> int"
  i2_ioctl :: "u8 \<Rightarrow> int"
  i2_write :: "bytes \<Rightarrow> int"
  i2_read :: "nat \<Rightarrow> int"
  i2_regs :: "u8 \<Rightarrow> u8 \<Rightarrow> u8 \<times> u8"
  i2_pointer :: "u8 \<Rightarrow> u8"

text \<open>\<open>open\<close> gives a descriptor that addresses no slave yet; the pointers are what earlier
  transactions have left. A request that fails changes nothing, a \<open>write\<close> selects a register of
  the slave addressed, and a \<open>read\<close> delivers the register that is selected.\<close>

definition i2c_opened :: "i2c_env \<Rightarrow> i2c_bus" where
  "i2c_opened env = \<lparr>ib_slave = None, ib_pointer = i2_pointer env\<rparr>"

definition i2c_ioctl_slave :: "i2c_env \<Rightarrow> u8 \<Rightarrow> i2c_bus \<Rightarrow> int \<times> i2c_bus" where
  "i2c_ioctl_slave env addr bus =
     (i2_ioctl env addr, if i2_ioctl env addr < 0 then bus else bus\<lparr>ib_slave := Some addr\<rparr>)"

definition i2c_write :: "i2c_env \<Rightarrow> u8 \<Rightarrow> i2c_bus \<Rightarrow> int \<times> i2c_bus" where
  "i2c_write env reg bus =
     (i2_write env [reg],
      case ib_slave bus of
        None \<Rightarrow> bus
      | Some a \<Rightarrow> if i2_write env [reg] = 1 then bus\<lparr>ib_pointer := (ib_pointer bus)(a := reg)\<rparr> else bus)"

definition i2c_read2 :: "i2c_env \<Rightarrow> i2c_bus \<Rightarrow> int \<times> u8 \<times> u8" where
  "i2c_read2 env bus =
     (i2_read env 2, case ib_slave bus of None \<Rightarrow> (0, 0) | Some a \<Rightarrow> i2_regs env a (ib_pointer bus a))"

text \<open>\<open>"/dev/i2c-%d"\<close> with \<open>I2C_DEV_NO\<close>, which is 1.\<close>

definition i2c_dev_fn :: string where
  "i2c_dev_fn = ''/dev/i2c-1''"

text \<open>The return value, \<open>*temp\<close>, and the descriptors opened and closed.\<close>

definition get_tmp175_temp :: "i2c_env \<Rightarrow> u16 \<Rightarrow> int \<times> u16 \<times> event list" where
  "get_tmp175_temp env temp =
     (let fd = i2_open env i2c_dev_fn;
         reg = I2C_TMP175_TEMP_REG in
      if fd < 0 then (- 1, temp, [])
      else
        let (ret1, bus1) = i2c_ioctl_slave env I2C_TMP175_SLAVE_ADDR (i2c_opened env) in
        if ret1 < 0 then (- 1, temp, [Ev_open (nat fd)])
        else
          let (ret2, bus2) = i2c_write env reg bus1 in
          if ret2 \<noteq> 1 then (- 1, temp, [Ev_open (nat fd)])
          else
            let (ret3, dat) = i2c_read2 env bus2 in
            if ret3 \<noteq> 2 then (- 1, temp, [Ev_open (nat fd)])
            else
              let dat0 = fst dat;
                  dat1 = drop_bit 4 (snd dat) in
              (0, push_bit 8 (ucast dat0) OR ucast dat1, [Ev_open (nat fd), Ev_close (nat fd)]))"

definition get_temp_service :: "i2c_env \<Rightarrow> u8 \<Rightarrow> csp_packet \<Rightarrow> event list" where
  "get_temp_service env command_id packet =
     (let (ret, temp, evs) = get_tmp175_temp env 0;
          tlm = \<lparr>ht_telemetry_id = command_id, ht_temp_raw = temp\<rparr> in
      evs @ [Ev_reply (put_payload packet (temp_image tlm))])"

section \<open>Lemmas\<close>

definition i2c_works :: "i2c_env \<Rightarrow> bool" where
  "i2c_works env \<longleftrightarrow> 0 \<le> i2_open env i2c_dev_fn \<and> 0 \<le> i2_ioctl env I2C_TMP175_SLAVE_ADDR
     \<and> i2_write env [I2C_TMP175_TEMP_REG] = 1 \<and> i2_read env 2 = 2"

text \<open>The temperature register of the sensor, and the descriptor of the bus.\<close>

definition tmp175_reg :: "i2c_env \<Rightarrow> u8 \<times> u8" where
  "tmp175_reg env = i2_regs env I2C_TMP175_SLAVE_ADDR I2C_TMP175_TEMP_REG"

abbreviation i2c_fd :: "i2c_env \<Rightarrow> int" where
  "i2c_fd env \<equiv> i2_open env i2c_dev_fn"

text \<open>The descriptors a trace leaves open.\<close>

fun open_fds :: "event list \<Rightarrow> nat set \<Rightarrow> nat set" where
  "open_fds [] fds = fds"
| "open_fds (Ev_open fd # es) fds = open_fds es (insert fd fds)"
| "open_fds (Ev_close fd # es) fds = open_fds es (fds - {fd})"
| "open_fds (_ # es) fds = open_fds es fds"

text \<open>The sensor's 12-bit value: the first byte holds bits 11 to 4, the upper half of the
  second byte bits 3 to 0.\<close>

definition tmp175_value :: "u8 \<times> u8 \<Rightarrow> nat" where
  "tmp175_value dat = unat (fst dat) * 16 + unat (snd dat) div 16"

definition packed_temp :: "u8 \<times> u8 \<Rightarrow> u16" where
  "packed_temp dat = push_bit 8 (ucast (fst dat)) OR ucast (drop_bit 4 (snd dat))"

lemma get_tmp175_temp_cases:
  "get_tmp175_temp env temp =
    (if i2c_works env then (0, packed_temp (tmp175_reg env), [Ev_open (nat (i2c_fd env)), Ev_close (nat (i2c_fd env))])
     else (- 1, temp, if i2c_fd env < 0 then [] else [Ev_open (nat (i2c_fd env))]))"
  by (auto simp: get_tmp175_temp_def i2c_works_def tmp175_reg_def packed_temp_def Let_def
      i2c_ioctl_slave_def i2c_write_def i2c_read2_def i2c_opened_def)

lemma packed_temp_high: "drop_bit 8 (packed_temp (a, b)) = ucast a"
  by (rule bit_word_eqI) (auto simp: packed_temp_def bit_simps dest: bit_imp_le_length)

lemma packed_temp_low: "take_bit 8 (packed_temp (a, b)) = ucast (drop_bit 4 b)"
  by (rule bit_word_eqI) (auto simp: packed_temp_def bit_simps dest: bit_imp_le_length)

text \<open>A receiver has the sensor's value back: the high byte times 16 plus the low byte. As a
  16-bit number the field itself is not the value: the two halves have a gap of four bits.\<close>

lemma packed_temp_value:
  "unat (packed_temp dat) div 256 * 16 + unat (packed_temp dat) mod 256 = tmp175_value dat"
proof -
  obtain a b where dat: "dat = (a, b)" by fastforce
  have "unat (packed_temp (a, b)) div 256 = unat (drop_bit 8 (packed_temp (a, b)))"
    by (simp only: unat_drop_bit_eq) (simp add: drop_bit_eq_div)
  moreover have "unat (packed_temp (a, b)) mod 256 = unat (take_bit 8 (packed_temp (a, b)))"
    by (simp only: unsigned_take_bit_eq) (simp add: take_bit_eq_mod)
  moreover have "unat (drop_bit 4 b) = unat b div 16"
    by (simp only: unat_drop_bit_eq) (simp add: drop_bit_eq_div)
  moreover have "take_bit 16 (unat a) = unat a" "take_bit 16 (unat b div 16) = unat b div 16"
    using unsigned_less [of a, where 'a = nat] unsigned_less [of b, where 'a = nat]
    by (simp_all add: take_bit_nat_eq_self)
  ultimately show ?thesis
    by (simp add: dat packed_temp_high packed_temp_low tmp175_value_def unsigned_ucast_eq)
qed

end
