(* ===== verification/Hwtest.thy ===== *)
theory Hwtest
  imports Camera TempSensor
begin

text \<open>
  The hardware-test component, \<open>csp-handler/files/hwtest.c\<close>: the dispatch of a packet to
  the services of \<open>temp.c\<close> and \<open>camera.c\<close>, in the thread of the CSP server.
\<close>

section \<open>Definitions\<close>

abbreviation (input) HWTEST_CMD_MIN_SIZE :: u16 where "HWTEST_CMD_MIN_SIZE \<equiv> 1"
abbreviation (input) HWTEST_GET_TEMP_CMD :: u8 where "HWTEST_GET_TEMP_CMD \<equiv> 0"
abbreviation (input) HWTEST_INIT_PHOTO_DIR_CMD :: u8 where "HWTEST_INIT_PHOTO_DIR_CMD \<equiv> 1"
abbreviation (input) HWTEST_CAPTURE_FRAME_CMD :: u8 where "HWTEST_CAPTURE_FRAME_CMD \<equiv> 2"
abbreviation (input) HWTEST_GET_FRAME_COUNT_CMD :: u8 where "HWTEST_GET_FRAME_COUNT_CMD \<equiv> 3"

record hw_env =
  he_i2c :: i2c_env
  he_cam :: cam_env

definition hwtest_handler :: "hw_env \<Rightarrow> csp_packet option \<Rightarrow> cam_state \<Rightarrow> cam_state \<times> event list" where
  "hwtest_handler env packet cs =
     (case packet of
        None \<Rightarrow> (cs, [])
      | Some p \<Rightarrow>
        if pk_length p < HWTEST_CMD_MIN_SIZE then (cs, [Ev_free (pk_ptr p)])
        else
          let command_id = pk_data p ! CSP_COMMAND_ID_OFFSET in
          if command_id = HWTEST_GET_TEMP_CMD then (cs, get_temp_service (he_i2c env) command_id p)
          else if command_id = HWTEST_INIT_PHOTO_DIR_CMD then
            init_photo_dir_service (he_cam env) command_id p cs
          else if command_id = HWTEST_CAPTURE_FRAME_CMD then
            capture_frame_service (he_cam env) command_id p cs
          else if command_id = HWTEST_GET_FRAME_COUNT_CMD then
            get_frame_count_service (he_cam env) command_id p cs
          else (cs, [Ev_free (pk_ptr p)]))"

section \<open>Dispatch\<close>

lemma hwtest_handler_cases:
  obtains (temp) "pk_length p \<noteq> 0" "cmd_id p = HWTEST_GET_TEMP_CMD"
      "hwtest_handler env (Some p) cs = (cs, get_temp_service (he_i2c env) HWTEST_GET_TEMP_CMD p)"
  | (init) "pk_length p \<noteq> 0" "cmd_id p = HWTEST_INIT_PHOTO_DIR_CMD"
      "hwtest_handler env (Some p) cs =
        init_photo_dir_service (he_cam env) HWTEST_INIT_PHOTO_DIR_CMD p cs"
  | (capture) "pk_length p \<noteq> 0" "cmd_id p = HWTEST_CAPTURE_FRAME_CMD"
      "hwtest_handler env (Some p) cs =
        capture_frame_service (he_cam env) HWTEST_CAPTURE_FRAME_CMD p cs"
  | (count) "pk_length p \<noteq> 0" "cmd_id p = HWTEST_GET_FRAME_COUNT_CMD"
      "hwtest_handler env (Some p) cs =
        get_frame_count_service (he_cam env) HWTEST_GET_FRAME_COUNT_CMD p cs"
  | (other) "pk_length p = 0 \<or> cmd_id p \<notin> {0, 1, 2, 3}"
      "hwtest_handler env (Some p) cs = (cs, [Ev_free (pk_ptr p)])"
proof -
  consider "pk_length p = 0" | "pk_length p \<noteq> 0" "cmd_id p = 0" | "pk_length p \<noteq> 0" "cmd_id p = 1"
    | "pk_length p \<noteq> 0" "cmd_id p = 2" | "pk_length p \<noteq> 0" "cmd_id p = 3"
    | "pk_length p \<noteq> 0" "cmd_id p \<notin> {0, 1, 2, 3}"
    by blast
  then show thesis
    by cases (use that in \<open>simp_all add: hwtest_handler_def Let_def word_less_1\<close>)
qed

lemma hwtest_handler_none [simp]: "hwtest_handler env None cs = (cs, [])"
  by (simp add: hwtest_handler_def)

section \<open>Ownership\<close>

text \<open>The events of the directory and of the camera touch no packet.\<close>

lemma own_remove_frames:
  "remove_frames env names d = (d', evs) \<Longrightarrow> own_run own evs = Some own \<and> acquired evs = {}"
  by (induction names arbitrary: d evs) (auto simp: Let_def split: if_splits prod.splits)

lemma own_init_photo_dir:
  "init_photo_dir env cs = (ret, cs', evs) \<Longrightarrow> own_run own evs = Some own \<and> acquired evs = {}"
  using own_remove_frames [of env _ _ _ _ own]
  by (auto simp: init_photo_dir_def own_run_append split: option.splits if_splits prod.splits)

lemma own_frame_count:
  "get_frame_file_count env cs count = (ret, count', evs) \<Longrightarrow>
    own_run own evs = Some own \<and> acquired evs = {}"
  by (auto simp: get_frame_file_count_def split: option.splits)

definition no_reply_cmd :: "csp_packet \<Rightarrow> bool" where
  "no_reply_cmd p \<longleftrightarrow>
     pk_length p \<noteq> 0 \<and> cmd_id p \<in> {HWTEST_INIT_PHOTO_DIR_CMD, HWTEST_CAPTURE_FRAME_CMD}"

text \<open>The two camera services neither reply nor free the packet.\<close>

lemma hwtest_ownership:
  assumes "hwtest_handler env (Some p) cs = (cs', evs)"
  shows "own_run {pk_ptr p} evs = Some (if no_reply_cmd p then {pk_ptr p} else {}) \<and> acquired evs = {}"
proof (cases rule: hwtest_handler_cases [of p env cs])
  case temp
  with assms show ?thesis
    by (cases "i2c_works (he_i2c env)")
      (auto simp: no_reply_cmd_def get_temp_service_def get_tmp175_temp_cases split: if_splits)
next
  case init
  obtain ret cs1 e where i: "init_photo_dir (he_cam env) cs = (ret, cs1, e)" by (metis prod_cases3)
  with init assms own_init_photo_dir [OF i] show ?thesis
    by (simp add: no_reply_cmd_def init_photo_dir_service_def)
next
  case capture
  then show ?thesis using assms
    by (auto simp: no_reply_cmd_def capture_frame_service_def capture_frame_eq)
next
  case count
  obtain ret k e where c: "get_frame_file_count (he_cam env) cs 0 = (ret, k, e)" by (metis prod_cases3)
  with count assms have "evs = e @ [Ev_reply (put_data p (cam_image
      \<lparr>hc_telemetry_id = HWTEST_GET_FRAME_COUNT_CMD, hc_frame_count = k\<rparr>))]"
    by (simp add: get_frame_count_service_def)
  with own_frame_count [OF c] count show ?thesis by (simp add: own_run_append no_reply_cmd_def)
next
  case other
  with assms show ?thesis by (auto simp: no_reply_cmd_def)
qed

end
