(* ===== verification/CspServer.thy ===== *)
theory CspServer
  imports WorkQueue
begin

text \<open>
  The accept loop every CSP server of the repository runs (\<open>handle_csp_packet\<close>, the
  server tasks of the Pico and of the samples): connections are accepted, the packets of each
  are read until none is left, each is dispatched on the destination port of its connection,
  and the connection is closed. The locales state what a dispatcher owes to libcsp.
\<close>

section \<open>The loop\<close>

text \<open>What \<open>csp_accept\<close> returns: NULL after the timeout, or a connection, which is its
  destination port and the packets that \<open>csp_read\<close> delivers before it returns NULL.\<close>

type_synonym 'e conn = "(nat \<times> ('e \<times> csp_packet) list) option"

fun read_loop ::
    "('e \<Rightarrow> nat \<Rightarrow> csp_packet \<Rightarrow> 's \<Rightarrow> ('s \<times> event list) res) \<Rightarrow> nat \<Rightarrow> ('e \<times> csp_packet) list
       \<Rightarrow> 's \<Rightarrow> ('s \<times> event list) res" where
  "read_loop dispatch dport [] s = Inr (s, [Ev_conn_close])"
| "read_loop dispatch dport ((e, p) # ps) s =
     (case dispatch e dport p s of
        Inl flt \<Rightarrow> Inl flt
      | Inr (s1, evs1) \<Rightarrow>
        (case read_loop dispatch dport ps s1 of
           Inl flt \<Rightarrow> Inl flt
         | Inr (s2, evs2) \<Rightarrow> Inr (s2, Ev_read (pk_ptr p) # evs1 @ evs2)))"

text \<open>One element of the list per round of the outer loop.\<close>

fun serve ::
    "('e \<Rightarrow> nat \<Rightarrow> csp_packet \<Rightarrow> 's \<Rightarrow> ('s \<times> event list) res) \<Rightarrow> 'e conn list \<Rightarrow> 's
       \<Rightarrow> ('s \<times> event list) res" where
  "serve dispatch [] s = Inr (s, [])"
| "serve dispatch (None # conns) s = serve dispatch conns s"
| "serve dispatch (Some (dport, ps) # conns) s =
     (case read_loop dispatch dport ps s of
        Inl flt \<Rightarrow> Inl flt
      | Inr (s1, evs1) \<Rightarrow>
        (case serve dispatch conns s1 of
           Inl flt \<Rightarrow> Inl flt
         | Inr (s2, evs2) \<Rightarrow> Inr (s2, evs1 @ evs2)))"

text \<open>Only the ports that occur matter.\<close>

lemma read_loop_cong:
  "(\<And>e p s. (e, p) \<in> set ps \<Longrightarrow> d1 e dport p s = d2 e dport p s) \<Longrightarrow>
    read_loop d1 dport ps s = read_loop d2 dport ps s"
  by (induction ps arbitrary: s) (auto split: sum.split)

lemma serve_cong:
  assumes "\<And>dport ps e p s. Some (dport, ps) \<in> set conns \<Longrightarrow> (e, p) \<in> set ps \<Longrightarrow>
      d1 e dport p s = d2 e dport p s"
  shows "serve d1 conns s = serve d2 conns s"
  using assms
proof (induction conns arbitrary: s)
  case (Cons c conns)
  have IH: "serve d1 conns s = serve d2 conns s" for s
    using Cons by (metis list.set_intros(2))
  show ?case
  proof (cases c)
    case (Some dp)
    obtain dport ps where dp: "dp = (dport, ps)" by fastforce
    with Some Cons.prems have "read_loop d1 dport ps s = read_loop d2 dport ps s"
      by (intro read_loop_cong Cons.prems [of dport ps]) simp_all
    with Some dp IH show ?thesis by (auto split: sum.split)
  qed (simp add: IH)
qed simp

section \<open>What libcsp promises\<close>

text \<open>\<open>csp_read\<close> returns no buffer that is in the program's hands.\<close>

fun fresh_reads :: "nat set \<Rightarrow> event list \<Rightarrow> bool" where
  "fresh_reads own [] = True"
| "fresh_reads own (e # es) =
     ((case e of Ev_read a \<Rightarrow> a \<notin> own | _ \<Rightarrow> True)
      \<and> (case own_step e own of None \<Rightarrow> True | Some own' \<Rightarrow> fresh_reads own' es))"

lemma fresh_reads_append:
  "own_run own xs = Some own' \<Longrightarrow> fresh_reads own (xs @ ys) \<longleftrightarrow> fresh_reads own xs \<and> fresh_reads own' ys"
  by (induction xs arbitrary: own) (auto split: option.splits)

text \<open>The packets of a connection list.\<close>

definition conn_packets :: "'e conn list \<Rightarrow> csp_packet set" where
  "conn_packets conns = {p. \<exists>dport ps e. Some (dport, ps) \<in> set conns \<and> (e, p) \<in> set ps}"

text \<open>The packets for a port, in the order of their arrival.\<close>

definition packets_to :: "nat \<Rightarrow> 'e conn list \<Rightarrow> csp_packet list" where
  "packets_to port conns =
     concat (map (\<lambda>c. case c of None \<Rightarrow> [] | Some (dport, ps) \<Rightarrow> if dport = port then map snd ps else []) conns)"

section \<open>The contract\<close>

text \<open>\<open>held s\<close> are the buffers that the state keeps for later. A dispatcher touches no
  buffer but the packet it got, and keeps in its state no buffer that it has given away.\<close>

locale csp_server =
  fixes dispatch :: "'e \<Rightarrow> nat \<Rightarrow> csp_packet \<Rightarrow> 's \<Rightarrow> ('s \<times> event list) res"
    and held :: "'s \<Rightarrow> nat set"
    and inv :: "'s \<Rightarrow> bool"
  assumes dispatch_inv:
      "inv s \<Longrightarrow> wf_packet p \<Longrightarrow> pk_ptr p \<notin> held s \<Longrightarrow> dispatch e dport p s = Inr (s', evs) \<Longrightarrow> inv s'"
    and dispatch_owns:
      "inv s \<Longrightarrow> wf_packet p \<Longrightarrow> pk_ptr p \<notin> held s \<Longrightarrow> dispatch e dport p s = Inr (s', evs) \<Longrightarrow>
        acquired evs = {} \<and>
        (\<exists>kept. own_run {pk_ptr p} evs = Some kept \<and> held s' \<subseteq> held s \<union> kept)"
begin

lemma dispatch_step:
  assumes "inv s" "wf_packet p" "held s \<subseteq> own" "pk_ptr p \<notin> own" "dispatch e dport p s = Inr (s', evs)"
  shows "\<exists>own'. own_run (insert (pk_ptr p) own) evs = Some own' \<and> held s' \<subseteq> own' \<and> inv s'"
proof -
  have "pk_ptr p \<notin> held s" using assms by blast
  from dispatch_owns [OF assms(1,2) this assms(5)] dispatch_inv [OF assms(1,2) this assms(5)]
  obtain kept where "acquired evs = {}" "own_run {pk_ptr p} evs = Some kept"
    "held s' \<subseteq> held s \<union> kept" "inv s'" by blast
  moreover from own_run_frame [OF this(2), of own] assms(4) this(1)
  have "own_run ({pk_ptr p} \<union> own) evs = Some (kept \<union> own)" by auto
  ultimately show ?thesis using assms(3) by auto
qed

lemma read_loop_owns:
  assumes "inv s" "held s \<subseteq> own" "\<forall>(e, p) \<in> set ps. wf_packet p"
    "read_loop dispatch dport ps s = Inr (s', evs)" "fresh_reads own evs"
  shows "\<exists>own'. own_run own evs = Some own' \<and> held s' \<subseteq> own' \<and> inv s'"
  using assms
proof (induction ps arbitrary: s own evs)
  case (Cons ep ps)
  obtain e p where ep: "ep = (e, p)" by fastforce
  from Cons.prems(4) obtain s1 evs1 evs2 where
    d: "dispatch e dport p s = Inr (s1, evs1)" and r: "read_loop dispatch dport ps s1 = Inr (s', evs2)"
    and evs: "evs = Ev_read (pk_ptr p) # evs1 @ evs2"
    by (auto simp: ep split: sum.splits)
  from Cons.prems(3,5) have p: "wf_packet p" "pk_ptr p \<notin> own"
    and f: "fresh_reads (insert (pk_ptr p) own) (evs1 @ evs2)" by (auto simp: ep evs)
  from dispatch_step [OF Cons.prems(1) p(1) Cons.prems(2) p(2) d] obtain own1 where
    o: "own_run (insert (pk_ptr p) own) evs1 = Some own1" "held s1 \<subseteq> own1" "inv s1" by blast
  from f have "fresh_reads own1 evs2" by (simp add: fresh_reads_append [OF o(1)])
  with Cons.IH [OF o(3,2) _ r] Cons.prems(3) obtain own2 where
    "own_run own1 evs2 = Some own2" "held s' \<subseteq> own2" "inv s'" by auto
  with o(1) p(2) show ?case by (simp add: evs own_run_append)
qed auto

text \<open>Whatever arrives, the loop never uses a buffer it has given away, and the buffers its
  state refers to are in its hands.\<close>

lemma serve_owns:
  assumes "inv s" "held s \<subseteq> own" "\<forall>p \<in> conn_packets conns. wf_packet p"
    "serve dispatch conns s = Inr (s', evs)" "fresh_reads own evs"
  shows "\<exists>own'. own_run own evs = Some own' \<and> held s' \<subseteq> own' \<and> inv s'"
  using assms
proof (induction conns arbitrary: s own evs)
  case (Cons c conns)
  have sub: "\<forall>p \<in> conn_packets conns. wf_packet p"
    using Cons.prems(3) by (auto simp: conn_packets_def)
  show ?case
  proof (cases c)
    case None
    with Cons sub show ?thesis by simp
  next
    case (Some dp)
    obtain dport ps where c: "c = Some (dport, ps)" using Some by (cases dp) auto
    from Cons.prems(4) obtain s1 evs1 evs2 where
      r: "read_loop dispatch dport ps s = Inr (s1, evs1)" and sv: "serve dispatch conns s1 = Inr (s', evs2)"
      and evs: "evs = evs1 @ evs2"
      by (auto simp: c split: sum.splits)
    have ps: "\<forall>(e, p) \<in> set ps. wf_packet p"
      using Cons.prems(3) by (fastforce simp: conn_packets_def c)
    have f1: "fresh_reads own evs1"
      using Cons.prems(5) unfolding evs
      by (induction evs1 arbitrary: own) (auto split: option.splits)
    from read_loop_owns [OF Cons.prems(1,2) ps r f1] obtain own1 where
      o: "own_run own evs1 = Some own1" "held s1 \<subseteq> own1" "inv s1" by blast
    have "fresh_reads own1 evs2" using Cons.prems(5) by (simp add: evs fresh_reads_append [OF o(1)])
    from Cons.IH [OF o(3,2) sub sv this] o(1) show ?thesis by (auto simp: evs own_run_append)
  qed
qed auto

end

text \<open>A server that keeps nothing and gives every packet back at once.\<close>

locale tidy_server = csp_server dispatch "\<lambda>_. {}" inv
  for dispatch :: "'e \<Rightarrow> nat \<Rightarrow> csp_packet \<Rightarrow> 's \<Rightarrow> ('s \<times> event list) res" and inv +
  assumes dispatch_total: "inv s \<Longrightarrow> wf_packet p \<Longrightarrow> safe (dispatch e dport p s)"
    and dispatch_linear:
      "inv s \<Longrightarrow> wf_packet p \<Longrightarrow> dispatch e dport p s = Inr (s', evs) \<Longrightarrow> linear (pk_ptr p) evs"
begin

lemma read_loop_returns:
  assumes "inv s" "\<forall>(e, p) \<in> set ps. wf_packet p \<and> pk_ptr p \<notin> own"
  shows "\<exists>s' evs. read_loop dispatch dport ps s = Inr (s', evs) \<and> own_run own evs = Some own \<and> inv s'"
  using assms
proof (induction ps arbitrary: s)
  case (Cons ep ps)
  obtain e p where ep: "ep = (e, p)" by fastforce
  with Cons.prems have p: "wf_packet p" "pk_ptr p \<notin> own" by auto
  from dispatch_total [OF Cons.prems(1) p(1)] obtain s1 evs1 where
    d: "dispatch e dport p s = Inr (s1, evs1)" by (metis safe_def old.prod.exhaust)
  from dispatch_owns [OF Cons.prems(1) p(1) _ d] dispatch_inv [OF Cons.prems(1) p(1) _ d]
  have a: "acquired evs1 = {}" "inv s1" by auto
  from dispatch_linear [OF Cons.prems(1) p(1) d]
  have "own_run {pk_ptr p} evs1 = Some {}" by (simp add: linear_def)
  from own_run_frame [OF this, of own] p(2) a(1)
  have "own_run (insert (pk_ptr p) own) evs1 = Some own" by simp
  moreover from Cons.IH [OF a(2)] Cons.prems(2) obtain s' evs where
    "read_loop dispatch dport ps s1 = Inr (s', evs)" "own_run own evs = Some own" "inv s'" by auto
  ultimately show ?case using d p(2) by (auto simp: ep own_run_append)
qed auto

text \<open>The server never stops, and has no buffer more in hand after any round.\<close>

lemma serve_returns:
  assumes "inv s" "\<forall>p \<in> conn_packets conns. wf_packet p \<and> pk_ptr p \<notin> own"
  shows "\<exists>s' evs. serve dispatch conns s = Inr (s', evs) \<and> own_run own evs = Some own \<and> inv s'"
  using assms
proof (induction conns arbitrary: s)
  case (Cons c conns)
  have sub: "\<forall>p \<in> conn_packets conns. wf_packet p \<and> pk_ptr p \<notin> own"
    using Cons.prems(2) by (auto simp: conn_packets_def)
  show ?case
  proof (cases c)
    case None
    with Cons sub show ?thesis by simp
  next
    case (Some dp)
    obtain dport ps where c: "c = Some (dport, ps)" using Some by (cases dp) auto
    have "\<forall>(e, p) \<in> set ps. wf_packet p \<and> pk_ptr p \<notin> own"
      using Cons.prems(2) by (fastforce simp: conn_packets_def c)
    from read_loop_returns [OF Cons.prems(1) this, of dport] obtain s1 evs1 where
      "read_loop dispatch dport ps s = Inr (s1, evs1)" "own_run own evs1 = Some own" "inv s1" by blast
    with Cons.IH [OF this(3) sub] show ?thesis by (auto simp: c own_run_append)
  qed
qed auto

end

end
