(* ===== verification/Daemon.thy ===== *)
theory Daemon
  imports FileWork ShellProps System Hwtest CspServer
begin

text \<open>
  The daemon as a whole: the start-up of \<open>csp-handler/files/main.c\<close>, the router thread
  of \<open>router.c\<close>, the dispatch of \<open>handler.c\<close>, and the three threads (CSP server,
  file worker, shell worker) as a transition system whose steps interleave at will.

  A step of the server thread reads and dispatches one packet; a step of a worker is one turn
  of its loop. \<open>GQueue\<close> operations are taken as atomic, although the code does not lock
  the queues.
\<close>

section \<open>handler.c\<close>

abbreviation (input) PORT_SHELL :: nat where "PORT_SHELL \<equiv> 10"
abbreviation (input) PORT_HWTEST :: nat where "PORT_HWTEST \<equiv> 11"
abbreviation (input) PORT_FILE :: nat where "PORT_FILE \<equiv> 13"
abbreviation (input) PORT_SYSTEM :: nat where "PORT_SYSTEM \<equiv> 16"

record daemon =
  dm_file_queue :: "csp_packet list"
  dm_shell_queue :: "csp_packet list"
  dm_upload :: upload_state
  dm_seq_number :: u32
  dm_cam :: cam_state

record srv_env =
  sv_hw :: hw_env
  sv_stack :: "nat \<Rightarrow> u8"

definition dispatch_packet ::
    "srv_env \<Rightarrow> nat \<Rightarrow> csp_packet \<Rightarrow> daemon \<Rightarrow> (daemon \<times> event list) res" where
  "dispatch_packet env dport packet d =
     (if dport = PORT_SHELL then
        Inr (d\<lparr>dm_shell_queue := shell_handler packet (dm_shell_queue d)\<rparr>, [])
      else if dport = PORT_HWTEST then
        let (cs, evs) = hwtest_handler (sv_hw env) (Some packet) (dm_cam d) in
        Inr (d\<lparr>dm_cam := cs\<rparr>, evs)
      else if dport = PORT_FILE then
        Inr (d\<lparr>dm_file_queue := file_handler packet (dm_file_queue d)\<rparr>, [])
      else if dport = PORT_SYSTEM then
        (case system_handler (sv_stack env) (Some packet) of
           Inl flt \<Rightarrow> Inl flt
         | Inr evs \<Rightarrow> Inr (d, evs))
      else Inr (d, [Ev_service packet]))"

definition handle_csp_packet :: "srv_env conn list \<Rightarrow> daemon \<Rightarrow> (daemon \<times> event list) res" where
  "handle_csp_packet = serve dispatch_packet"

section \<open>router.c\<close>

text \<open>The calls of the first \<open>n\<close> rounds of the router thread.\<close>

fun router :: "nat \<Rightarrow> route_call list" where
  "router 0 = []"
| "router (Suc n) = Csp_route_work # router n"

text \<open>The results of the four pthread calls; the return value and whether the router thread
  has been started.\<close>

record pthread_env =
  pt_attr_init :: int
  pt_setdetach :: int
  pt_create :: int
  pt_destroy :: int

definition start_csp_router :: "pthread_env \<Rightarrow> int \<times> bool" where
  "start_csp_router env =
     (if pt_attr_init env \<noteq> 0 then (- 1, False)
      else if pt_setdetach env \<noteq> 0 then (- 1, False)
      else if pt_create env \<noteq> 0 then (- 1, False)
      else if pt_destroy env \<noteq> 0 then (- 1, True)
      else (0, True))"

section \<open>main.c\<close>

text \<open>The addresses are macros that \<open>cspd.h\<close> defines only where the command line of the compiler has
  not: \<open>ds\<close> are the options \<open>-D NAME=value\<close> of the build.\<close>

type_synonym build_options = "string \<rightharpoonup> nat"

definition ifndef :: "build_options \<Rightarrow> string \<Rightarrow> nat \<Rightarrow> nat" where
  "ifndef ds name fallback = (case ds name of None \<Rightarrow> fallback | Some v \<Rightarrow> v)"

definition MAIN_OBC_CAN_ADDR :: "build_options \<Rightarrow> nat" where
  "MAIN_OBC_CAN_ADDR ds = ifndef ds ''MAIN_OBC_CAN_ADDR'' 1"

definition RPI_ZERO_CAN_ADDR :: "build_options \<Rightarrow> nat" where
  "RPI_ZERO_CAN_ADDR ds = ifndef ds ''RPI_ZERO_CAN_ADDR'' 2"

definition RPI_ZERO_UART_ADDR :: "build_options \<Rightarrow> nat" where
  "RPI_ZERO_UART_ADDR ds = ifndef ds ''RPI_ZERO_UART_ADDR'' 3"

definition RPI_PICO_UART_ADDR :: "build_options \<Rightarrow> nat" where
  "RPI_PICO_UART_ADDR ds = ifndef ds ''RPI_PICO_UART_ADDR'' 4"

text \<open>The options that \<open>csp-handler_0.bb\<close> passes, with the values of
  \<open>scsat1-rpi-variables.inc\<close>.\<close>

definition recipe_defines :: build_options where
  "recipe_defines = [''MAIN_OBC_CAN_ADDR'' \<mapsto> 8, ''RPI_ZERO_CAN_ADDR'' \<mapsto> 24,
     ''RPI_ZERO_UART_ADDR'' \<mapsto> 25, ''RPI_PICO_UART_ADDR'' \<mapsto> 26]"

datatype iface = Can_iface | Usart_iface

text \<open>What \<open>main\<close> sets up in libcsp: the protocol version, the address of each interface, its netmask, the
  default interface, and the arguments (destination, netmask, interface) of the calls of
  \<open>csp_rtable_set\<close>, in their order. What libcsp's routing table makes of the calls is libcsp's;
  \<open>main\<close> does not look at their results.\<close>

record csp_net =
  nt_version :: nat
  nt_addr :: "iface \<Rightarrow> nat option"
  nt_netmask :: "iface \<Rightarrow> nat option"
  nt_default :: "iface option"
  nt_rtable_set :: "(nat \<times> nat \<times> iface) list"

record boot_env =
  be_defines :: build_options
  be_can :: bool
  be_usart :: int
  be_host_bits :: nat
  be_file_thread :: int
  be_shell_thread :: int
  be_router :: pthread_env

record running =
  rn_net :: csp_net
  rn_daemon :: daemon
  rn_file_log :: thread_log
  rn_shell_log :: thread_log
  rn_router :: bool

text \<open>\<open>main\<close> up to the call of \<open>handle_csp_packet\<close>, which does not return: the exit
  code, or the running system. \<open>us\<close> and \<open>cs\<close> are the initial values of the static
  variables.\<close>

definition daemon_main :: "boot_env \<Rightarrow> upload_state \<Rightarrow> cam_state \<Rightarrow> int + running" where
  "daemon_main env us cs =
     (let n0 = \<lparr>nt_version = 1, nt_addr = (\<lambda>_. None), nt_netmask = (\<lambda>_. None), nt_default = None, nt_rtable_set = []\<rparr> in
      if \<not> be_can env then Inl 1
      else
        let n1 = n0\<lparr>nt_addr := (nt_addr n0)(Can_iface \<mapsto> RPI_ZERO_CAN_ADDR (be_defines env)),
                    nt_default := Some Can_iface,
                    nt_netmask := (nt_netmask n0)(Can_iface \<mapsto> be_host_bits env)\<rparr> in
        if be_usart env \<noteq> 0 then Inl 1
        else
          let n2 = n1\<lparr>nt_addr := (nt_addr n1)(Usart_iface \<mapsto> RPI_ZERO_UART_ADDR (be_defines env)),
                      nt_netmask := (nt_netmask n1)(Usart_iface \<mapsto> be_host_bits env)\<rparr>;
              n3 = n2\<lparr>nt_rtable_set := nt_rtable_set n2
                       @ [(RPI_PICO_UART_ADDR (be_defines env), be_host_bits env, Usart_iface)]\<rparr>;
              n4 = n3\<lparr>nt_rtable_set := nt_rtable_set n3
                       @ [(MAIN_OBC_CAN_ADDR (be_defines env), be_host_bits env, Can_iface)]\<rparr>;
              (fq, flog, us1) = file_handler_init (be_file_thread env) us;
              (sq, slog) = shell_handler_init (be_shell_thread env);
              (ret, started) = start_csp_router (be_router env) in
          Inr \<lparr>rn_net = n4,
               rn_daemon = \<lparr>dm_file_queue = fq, dm_shell_queue = sq, dm_upload = us1,
                            dm_seq_number = 0, dm_cam = cs\<rparr>,
               rn_file_log = flog, rn_shell_log = slog, rn_router = started\<rparr>)"

definition cam_statics :: "string list option \<Rightarrow> cam_state" where
  "cam_statics photo = \<lparr>cam_dir = photo, cam_seq = 1\<rparr>"

section \<open>The threads together\<close>

text \<open>\<open>in_hand tr\<close> are the buffers in the daemon's hands after the trace \<open>tr\<close>, none when the
  trace has misused one.\<close>

definition in_hand :: "event list \<Rightarrow> nat set" where
  "in_hand tr = (case own_run {} tr of None \<Rightarrow> {} | Some own \<Rightarrow> own)"

text \<open>
  \<open>daemon_reach seeks st photo d tr k\<close>: from the start the threads can reach the state
  \<open>d\<close> with the trace \<open>tr\<close>, having served \<open>k\<close> camera commands that have no reply.
  libcsp gives no buffer that is in hand already. With \<open>seeks\<close>, no \<open>fseek\<close> fails. Between the
  turns of the threads the photo directory changes as it will: the camera programs, which run
  in the background, write their frames there.
\<close>

inductive daemon_reach ::
    "bool \<Rightarrow> stdio \<Rightarrow> string list option \<Rightarrow> daemon \<Rightarrow> event list \<Rightarrow> nat \<Rightarrow> bool"
  for seeks st photo where
  boot: "daemon_main env (upload_statics st) (cam_statics photo) = Inr r \<Longrightarrow>
    daemon_reach seeks st photo (rn_daemon r) [] 0"
| server: "daemon_reach seeks st photo d tr k \<Longrightarrow> wf_packet p \<Longrightarrow> pk_ptr p \<notin> in_hand tr \<Longrightarrow>
    dispatch_packet env dport p d = Inr (d', evs) \<Longrightarrow>
    daemon_reach seeks st photo d' (tr @ [Ev_read (pk_ptr p)] @ evs)
      (k + (if dport = PORT_HWTEST \<and> no_reply_cmd p then 1 else 0))"
| file_turn: "daemon_reach seeks st photo d tr k \<Longrightarrow> (seeks \<longrightarrow> e_fseek fenv) \<Longrightarrow>
    file_work_thread [fenv] (dm_file_queue d) (dm_upload d) = Inr (q, us, evs) \<Longrightarrow>
    daemon_reach seeks st photo (d\<lparr>dm_file_queue := q, dm_upload := us\<rparr>) (tr @ evs) k"
| shell_turn: "daemon_reach seeks st photo d tr k \<Longrightarrow>
    (\<forall>i a. sh_clone senv i = Some a \<longrightarrow> a \<notin> in_hand tr) \<Longrightarrow>
    shell_work_thread [senv] (dm_shell_queue d) (dm_seq_number d) = Inr (q, sq, evs) \<Longrightarrow>
    daemon_reach seeks st photo (d\<lparr>dm_shell_queue := q, dm_seq_number := sq\<rparr>) (tr @ evs) k"
| photos: "daemon_reach seeks st photo d tr k \<Longrightarrow>
    daemon_reach seeks st photo (d\<lparr>dm_cam := (dm_cam d)\<lparr>cam_dir := dir\<rparr>\<rparr>) tr k"

section \<open>Dispatch\<close>

definition queued :: "daemon \<Rightarrow> csp_packet list" where
  "queued d = dm_file_queue d @ dm_shell_queue d"

definition queued_ptrs :: "daemon \<Rightarrow> nat list" where
  "queued_ptrs d = map pk_ptr (queued d)"

definition daemon_inv :: "daemon \<Rightarrow> bool" where
  "daemon_inv d \<longleftrightarrow> upload_inv (dm_upload d) \<and> (\<forall>p \<in> set (queued d). wf_packet p)
     \<and> distinct (queued_ptrs d)"

lemma dispatch_cases:
  obtains (to_shell) "dport = PORT_SHELL"
      "dispatch_packet env dport p d = Inr (d\<lparr>dm_shell_queue := dm_shell_queue d @ [p]\<rparr>, [])"
  | (to_hwtest) cs evs where "dport = PORT_HWTEST" "hwtest_handler (sv_hw env) (Some p) (dm_cam d) = (cs, evs)"
      "dispatch_packet env dport p d = Inr (d\<lparr>dm_cam := cs\<rparr>, evs)"
  | (to_file) "dport = PORT_FILE"
      "dispatch_packet env dport p d = Inr (d\<lparr>dm_file_queue := dm_file_queue d @ [p]\<rparr>, [])"
  | (to_system) q where "dport = PORT_SYSTEM" "pk_ptr q = pk_ptr p"
      "dispatch_packet env dport p d = Inr (d, [Ev_reply q])"
  | (to_service) "dport \<notin> {PORT_SHELL, PORT_HWTEST, PORT_FILE, PORT_SYSTEM}"
      "dispatch_packet env dport p d = Inr (d, [Ev_service p])"
proof -
  consider "dport = PORT_SHELL" | "dport = PORT_HWTEST" | "dport = PORT_FILE" | "dport = PORT_SYSTEM"
    | "dport \<notin> {PORT_SHELL, PORT_HWTEST, PORT_FILE, PORT_SYSTEM}" by blast
  then show thesis
  proof cases
    case 1
    then show thesis
      by (intro to_shell) (simp_all add: dispatch_packet_def shell_handler_def g_queue.items_push)
  next
    case 2
    obtain cs evs where "hwtest_handler (sv_hw env) (Some p) (dm_cam d) = (cs, evs)" by fastforce
    with 2 show thesis by (intro to_hwtest [of cs evs]) (simp_all add: dispatch_packet_def)
  next
    case 3
    then show thesis
      by (intro to_file) (simp_all add: dispatch_packet_def file_handler_def g_queue.items_push)
  next
    case 4
    obtain q where "system_handler (sv_stack env) (Some p) = Inr [Ev_reply q]" "pk_ptr q = pk_ptr p"
      using system_handler_one [of "sv_stack env" p] by blast
    with 4 show thesis by (intro to_system [of q]) (simp_all add: dispatch_packet_def)
  next
    case 5
    then show thesis by (intro to_service) (simp_all add: dispatch_packet_def)
  qed
qed

end
