(* ===== verification/DaemonOps.thy ===== *)
theory DaemonOps
  imports Daemon "HOL-Library.Multiset"
begin

text \<open>
  The turns of the three threads of the daemon: what each does to the queues and to the
  buffers in hand, and the invariant they keep together.
\<close>

section \<open>One turn of each thread\<close>

lemma file_turn_cases:
  assumes "file_work_thread [fenv] q us = Inr (q', us', evs)"
  obtains (idle) "q = []" "q' = []" "us' = us" "evs = [Ev_usleep FILE_WORK_THREAD_SLEEP_USEC]"
  | (work) p where "q = p # q'" "file_work fenv p us = Inr (us', evs)"
  using assms that
  by (cases q) (auto simp: file_work_thread_def g_queue_pop_head_def split: sum.splits)

lemma shell_turn_cases:
  assumes "shell_work_thread [senv] q sq = Inr (q', sq', evs)"
  obtains (idle) "q = []" "q' = []" "sq' = sq" "evs = [Ev_sleep SHELL_WORK_THREAD_SLEEP_SEC]"
  | (work) p where "q = p # q'" "shell_work senv p sq = Inr (sq', evs)"
  using assms that
  by (cases q) (auto simp: shell_work_thread_def g_queue_pop_head_def split: sum.splits)

text \<open>What the dispatch of a packet does: it is queued, leaked, or given back.\<close>

definition leaks_packet :: "nat \<Rightarrow> csp_packet \<Rightarrow> bool" where
  "leaks_packet dport p \<longleftrightarrow> dport = PORT_HWTEST \<and> no_reply_cmd p"

definition queues_packet :: "nat \<Rightarrow> bool" where
  "queues_packet dport \<longleftrightarrow> dport \<in> {PORT_SHELL, PORT_FILE}"

lemma dispatch_effect:
  assumes "dispatch_packet env dport p d = Inr (d', evs)"
  shows "dm_upload d' = dm_upload d \<and> acquired evs = {}
    \<and> mset (queued d') = mset (queued d) + (if queues_packet dport then {#p#} else {#})
    \<and> own_run {pk_ptr p} evs = Some (if queues_packet dport \<or> leaks_packet dport p then {pk_ptr p} else {})"
proof (cases rule: dispatch_cases [of dport env p d])
  case (to_hwtest cs evs')
  with hwtest_ownership [OF to_hwtest(2)] assms show ?thesis
    by (auto simp: leaks_packet_def queues_packet_def queued_def)
qed (use assms in \<open>auto simp: leaks_packet_def queues_packet_def queued_def\<close>)

lemma dispatch_total: "safe (dispatch_packet env dport p d)"
  by (cases rule: dispatch_cases [of dport env p d]) auto

lemma shell_work_acquires:
  assumes "shell_work env p sq = Inr (sq', evs)"
  shows "acquired evs \<subseteq> clone_addrs env"
proof (cases "is_shell_cmd p")
  case True
  with assms shell_cmd_returns show ?thesis by (simp add: shell_work_cmd)
next
  case False
  with assms show ?thesis by (auto simp: shell_work_other send_shell_err_reply_def)
qed

section \<open>The server thread on its own\<close>

lemma daemon_inv_mset:
  assumes "daemon_inv d" "dm_upload d' = dm_upload d"
    "mset (queued d') = mset (queued d) + (if b then {#p#} else {#})"
    "wf_packet p" "pk_ptr p \<notin> set (queued_ptrs d)"
  shows "daemon_inv d' \<and> set (queued_ptrs d') \<subseteq> set (queued_ptrs d) \<union> (if b then {pk_ptr p} else {})"
proof -
  have ptrs: "mset (queued_ptrs d') = mset (queued_ptrs d) + (if b then {#pk_ptr p#} else {#})"
    using arg_cong [OF assms(3), of "image_mset pk_ptr"] by (simp add: queued_ptrs_def)
  have "set (queued d') = set (queued d) \<union> (if b then {p} else {})"
    using arg_cong [OF assms(3), of set_mset] by auto
  moreover have "set (queued_ptrs d') = set (queued_ptrs d) \<union> (if b then {pk_ptr p} else {})"
    using arg_cong [OF ptrs, of set_mset] by auto
  moreover have "distinct (queued_ptrs d')"
  proof -
    have "distinct (if b then pk_ptr p # queued_ptrs d else queued_ptrs d)"
      using assms(1,5) by (simp add: daemon_inv_def)
    moreover have "mset (queued_ptrs d') = mset (if b then pk_ptr p # queued_ptrs d else queued_ptrs d)"
      using ptrs by simp
    ultimately show ?thesis using mset_eq_imp_distinct_iff by blast
  qed
  ultimately show ?thesis using assms by (auto simp: daemon_inv_def)
qed

interpretation daemon_server: csp_server dispatch_packet "\<lambda>d. set (queued_ptrs d)" daemon_inv
proof
  fix d d' p e dport evs
  assume a: "daemon_inv d" "wf_packet p" "pk_ptr p \<notin> set (queued_ptrs d)"
    "dispatch_packet e dport p d = Inr (d', evs)"
  note eff = dispatch_effect [OF a(4)]
  from daemon_inv_mset [OF a(1) _ _ a(2,3), of d' "queues_packet dport"] eff
  have d': "daemon_inv d'" "set (queued_ptrs d') \<subseteq> set (queued_ptrs d) \<union>
      (if queues_packet dport then {pk_ptr p} else {})" by auto
  then show "daemon_inv d'" by simp
  from eff d'(2) show "acquired evs = {} \<and> (\<exists>kept. own_run {pk_ptr p} evs = Some kept \<and>
      set (queued_ptrs d') \<subseteq> set (queued_ptrs d) \<union> kept)"
    by (auto split: if_splits)
qed

section \<open>The invariant of the whole\<close>

definition accounted :: "daemon \<Rightarrow> event list \<Rightarrow> nat \<Rightarrow> bool" where
  "accounted d tr k \<longleftrightarrow>
     (\<exists>own. own_run {} tr = Some own \<and> finite own \<and> set (queued_ptrs d) \<subseteq> own
       \<and> card own = length (queued d) + k)"

lemma own_run_single:
  assumes "own_run {a} evs = Some kept" "kept \<subseteq> {a}" "a \<in> own" "acquired evs \<inter> own = {}"
  shows "own_run own evs = Some (own - {a} \<union> kept)"
proof -
  have "own_run ({a} \<union> (own - {a})) evs = Some (kept \<union> (own - {a}))"
    using own_run_frame [OF assms(1), of "own - {a}"] assms(4) by blast
  moreover have "{a} \<union> (own - {a}) = own" using assms(3) by auto
  ultimately show ?thesis by (simp add: Un_commute)
qed

lemma accounted_server:
  assumes "accounted d tr k" "pk_ptr p \<notin> in_hand tr" "dispatch_packet env dport p d = Inr (d', evs)"
  shows "accounted d' (tr @ [Ev_read (pk_ptr p)] @ evs)
    (k + (if dport = PORT_HWTEST \<and> no_reply_cmd p then 1 else 0))"
proof -
  from assms(1) obtain own where own: "own_run {} tr = Some own" "finite own"
    "set (queued_ptrs d) \<subseteq> own" "card own = length (queued d) + k"
    by (auto simp: accounted_def)
  with assms(2) have fresh: "pk_ptr p \<notin> own" by (simp add: in_hand_def)
  note eff = dispatch_effect [OF assms(3)]
  let ?kept = "if queues_packet dport \<or> leaks_packet dport p then {pk_ptr p} else {}"
  have "own_run (insert (pk_ptr p) own) evs = Some (insert (pk_ptr p) own - {pk_ptr p} \<union> ?kept)"
    using eff by (intro own_run_single) auto
  moreover have "insert (pk_ptr p) own - {pk_ptr p} = own" using fresh by auto
  ultimately have run: "own_run {} (tr @ [Ev_read (pk_ptr p)] @ evs) = Some (own \<union> ?kept)"
    using own(1) fresh by (simp add: own_run_append)
  have len: "length (queued d') = length (queued d) + (if queues_packet dport then 1 else 0)"
    using arg_cong [of _ _ size, OF conjunct1 [OF conjunct2 [OF conjunct2 [OF eff]]]] by auto
  have "set (queued_ptrs d') \<subseteq> own \<union> ?kept"
  proof -
    have "set (queued d') = set (queued d) \<union> (if queues_packet dport then {p} else {})"
      using arg_cong [of _ _ set_mset, OF conjunct1 [OF conjunct2 [OF conjunct2 [OF eff]]]] by auto
    with own(3) show ?thesis by (auto simp: queued_ptrs_def)
  qed
  moreover have "\<not> (queues_packet dport \<and> leaks_packet dport p)"
    by (auto simp: queues_packet_def leaks_packet_def)
  ultimately show ?thesis
    using run own fresh len
    by (auto simp: accounted_def leaks_packet_def card_insert_if)
qed

text \<open>A worker that gives back the packet it takes from its queue.\<close>

lemma accounted_worker:
  assumes "accounted d tr k" "distinct (queued_ptrs d)" "p \<in> set (queued d)"
    and "mset (queued d) = mset (queued d') + {#p#}"
    and "linear (pk_ptr p) evs" "acquired evs \<inter> in_hand tr = {}"
  shows "accounted d' (tr @ evs) k"
proof -
  from assms(1) obtain own where own: "own_run {} tr = Some own" "finite own"
    "set (queued_ptrs d) \<subseteq> own" "card own = length (queued d) + k"
    by (auto simp: accounted_def)
  from own(3) assms(3) have p: "pk_ptr p \<in> own" by (auto simp: queued_ptrs_def)
  have "own_run own evs = Some (own - {pk_ptr p} \<union> {})"
    using assms(5,6) p own(1) by (intro own_run_single) (auto simp: linear_def in_hand_def)
  then have run: "own_run {} (tr @ evs) = Some (own - {pk_ptr p})"
    using own(1) by (simp add: own_run_append)
  have m: "mset (queued_ptrs d) = mset (queued_ptrs d') + {#pk_ptr p#}"
    using arg_cong [OF assms(4), of "image_mset pk_ptr"] by (simp add: queued_ptrs_def)
  then have "mset (queued_ptrs d) = mset (pk_ptr p # queued_ptrs d')" by simp
  with assms(2) have "distinct (pk_ptr p # queued_ptrs d')" using mset_eq_imp_distinct_iff by blast
  moreover have "set (queued_ptrs d') \<subseteq> set (queued_ptrs d)"
    using arg_cong [OF m, of set_mset] by auto
  moreover have "length (queued d) = Suc (length (queued d'))"
    using arg_cong [OF assms(4), of size] by simp
  ultimately show ?thesis
    using run own p by (auto simp: accounted_def)
qed

lemma accounted_idle:
  "accounted d tr k \<Longrightarrow> queued d' = queued d \<Longrightarrow> evs = [Ev_sleep n] \<or> evs = [Ev_usleep n] \<Longrightarrow>
    accounted d' (tr @ evs) k"
  by (auto simp: accounted_def own_run_append queued_ptrs_def)

end
