(* ===== verification/HwtestProps.thy ===== *)
theory HwtestProps
  imports Hwtest
begin

text \<open>
  The properties of the hardware-test component: the temperature telemetry, the photo
  directory and its count, and what becomes of the packets.
\<close>

section \<open>Concrete surroundings\<close>

definition cam_ok :: cam_env where
  "cam_ok = \<lparr>ce_opendir = True, ce_mkdir = True, ce_remove = (\<lambda>_. True), ce_system = (\<lambda>_. 0)\<rparr>"

text \<open>A sensor that reads 23.5 degrees, and one that does not answer.\<close>

definition i2c_ok :: i2c_env where
  "i2c_ok = \<lparr>i2_open = (\<lambda>_. 5), i2_ioctl = (\<lambda>_. 0), i2_write = (\<lambda>bs. int (length bs)), i2_read = int,
             i2_regs = (\<lambda>a r. if a = 0x4E \<and> r = 0 then (23, 128) else (0, 0)), i2_pointer = (\<lambda>_. 1)\<rparr>"

definition i2c_silent :: i2c_env where
  "i2c_silent = i2c_ok\<lparr>i2_read := (\<lambda>_. - 1)\<rparr>"

definition cs_photos :: cam_state where
  "cs_photos = \<lparr>cam_dir = Some [''.'', ''..'', ''frame-001.bin'', ''notes'', ''frame-002.bin''],
                cam_seq = 3\<rparr>"

definition p_count :: csp_packet where
  "p_count = mk_packet 1 [3]"

text \<open>A sensor that reads 0 degrees.\<close>

definition i2c_zero :: i2c_env where
  "i2c_zero = i2c_ok\<lparr>i2_regs := (\<lambda>_ _. (0, 0))\<rparr>"

section \<open>Properties\<close>

text \<open>When the sensor answers, the temperature request is answered with its 12-bit value (that
  of register 0 of the slave 0x4E of the bus), the integral degrees in the high byte and the
  sixteenths in the low byte of the field, and the descriptor is closed.\<close>

theorem temp_reading_reported:
  assumes "pk_length p \<noteq> 0" "cmd_id p = HWTEST_GET_TEMP_CMD" "i2c_works (he_i2c env)"
  shows "\<exists>evs q. hwtest_handler env (Some p) cs = (cs, evs @ [Ev_reply q])
    \<and> (let raw = unat (ht_temp_raw (parse_temp (payload q))) in
       raw div 256 * 16 + raw mod 256 = tmp175_value (tmp175_reg (he_i2c env)))
    \<and> ht_telemetry_id (parse_temp (payload q)) = HWTEST_GET_TEMP_CMD
    \<and> open_fds (evs @ [Ev_reply q]) {} = {}"
proof (cases rule: hwtest_handler_cases [of p env cs])
  case temp
  with assms(3) show ?thesis
    by (simp add: get_temp_service_def get_tmp175_temp_cases Let_def temp.reply_parses packed_temp_value)
qed (use assms in auto)

lemma temp_reading_reported_witness:
  "\<exists>evs q. hwtest_handler \<lparr>he_i2c = i2c_ok, he_cam = cam_ok\<rparr> (Some (mk_packet 1 [0])) cs_photos
      = (cs_photos, evs @ [Ev_reply q])
    \<and> (let raw = unat (ht_temp_raw (parse_temp (payload q))) in raw div 256 * 16 + raw mod 256 = 376)"
proof -
  have "pk_length (mk_packet 1 [0]) \<noteq> 0" "cmd_id (mk_packet 1 [0]) = HWTEST_GET_TEMP_CMD"
    "i2c_works i2c_ok" "tmp175_value (tmp175_reg i2c_ok) = 376" by code_simp+
  then show ?thesis
    using temp_reading_reported [of "mk_packet 1 [0]" "\<lparr>he_i2c = i2c_ok, he_cam = cam_ok\<rparr>" cs_photos]
    by (simp add: Let_def) blast
qed

text \<open>When the sensor does not answer, the reply is the one of a sensor that reads 0 degrees,
  and a descriptor that was opened stays open.\<close>

theorem temp_failure_reads_as_zero:
  assumes "pk_length p \<noteq> 0" "cmd_id p = HWTEST_GET_TEMP_CMD" "\<not> i2c_works (he_i2c env)"
  shows "\<exists>evs. hwtest_handler env (Some p) cs = (cs, evs)
    \<and> sent evs = sent (snd (hwtest_handler
         (env\<lparr>he_i2c := i2c_zero\<rparr>) (Some p) cs))
    \<and> open_fds evs {} = (if i2c_fd (he_i2c env) < 0 then {} else {nat (i2c_fd (he_i2c env))})"
proof -
  have "i2c_works i2c_zero" "packed_temp (tmp175_reg i2c_zero) = 0" by code_simp+
  then show ?thesis
    using assms
    by (simp add: hwtest_handler_def Let_def word_less_1 get_temp_service_def get_tmp175_temp_cases)
qed

lemma temp_failure_reads_as_zero_witness:
  "\<exists>evs. hwtest_handler \<lparr>he_i2c = i2c_silent, he_cam = cam_ok\<rparr> (Some (mk_packet 1 [0])) cs_photos
      = (cs_photos, evs) \<and> open_fds evs {} = {5}"
proof -
  have "pk_length (mk_packet 1 [0]) \<noteq> 0" "cmd_id (mk_packet 1 [0]) = HWTEST_GET_TEMP_CMD"
    "\<not> i2c_works i2c_silent" "i2c_fd i2c_silent = 5" by code_simp+
  then show ?thesis
    using temp_failure_reads_as_zero [of "mk_packet 1 [0]" "\<lparr>he_i2c = i2c_silent, he_cam = cam_ok\<rparr>" cs_photos]
    by auto
qed

text \<open>C28: A temperature request is always answered. When the sensor answers, with its 12-bit value
  (that of register 0 of the slave 0x4E of the bus), the integral degrees in the high byte and
  the sixteenths in the low byte, and the descriptor is closed; when any of the system calls
  fails, with 0, which is what a sensor at 0 degrees gives, and a descriptor that was opened
  stays open.\<close>

theorem temp_request_answered:
  assumes "pk_length p \<noteq> 0" "cmd_id p = HWTEST_GET_TEMP_CMD"
  shows "\<exists>evs q. hwtest_handler env (Some p) cs = (cs, evs @ [Ev_reply q])
    \<and> ht_telemetry_id (parse_temp (payload q)) = HWTEST_GET_TEMP_CMD
    \<and> (let raw = unat (ht_temp_raw (parse_temp (payload q))) in
       raw div 256 * 16 + raw mod 256 = (if i2c_works (he_i2c env) then tmp175_value (tmp175_reg (he_i2c env)) else 0))
    \<and> open_fds (evs @ [Ev_reply q]) {} =
       (if i2c_works (he_i2c env) \<or> i2c_fd (he_i2c env) < 0 then {} else {nat (i2c_fd (he_i2c env))})"
proof (cases rule: hwtest_handler_cases [of p env cs])
  case temp
  then show ?thesis
    by (simp add: get_temp_service_def get_tmp175_temp_cases Let_def temp.reply_parses packed_temp_value)
qed (use assms in auto)

text \<open>A sensor at 23.5 degrees, and one that does not answer.\<close>

lemma temp_request_answered_witness:
  "(\<exists>evs q. hwtest_handler \<lparr>he_i2c = i2c_ok, he_cam = cam_ok\<rparr> (Some (mk_packet 1 [0])) cs_photos = (cs_photos, evs @ [Ev_reply q])
      \<and> (let raw = unat (ht_temp_raw (parse_temp (payload q))) in raw div 256 * 16 + raw mod 256 = 376)
      \<and> open_fds (evs @ [Ev_reply q]) {} = {})
    \<and> (\<exists>evs q. hwtest_handler \<lparr>he_i2c = i2c_silent, he_cam = cam_ok\<rparr> (Some (mk_packet 1 [0])) cs_photos = (cs_photos, evs @ [Ev_reply q])
      \<and> open_fds (evs @ [Ev_reply q]) {} = {5})" (is "?ok \<and> ?silent")
proof
  have p: "pk_length (mk_packet 1 [0]) \<noteq> 0" "cmd_id (mk_packet 1 [0]) = HWTEST_GET_TEMP_CMD" by code_simp+
  have "i2c_works i2c_ok" "tmp175_value (tmp175_reg i2c_ok) = 376" by code_simp+
  with temp_request_answered [OF p, of "\<lparr>he_i2c = i2c_ok, he_cam = cam_ok\<rparr>" cs_photos]
  show ?ok by (simp add: Let_def) blast
  have "\<not> i2c_works i2c_silent" "i2c_fd i2c_silent = 5" by code_simp+
  with temp_request_answered [OF p, of "\<lparr>he_i2c = i2c_silent, he_cam = cam_ok\<rparr>" cs_photos]
  show ?silent by (simp add: Let_def) blast
qed

text \<open>C27: The hardware-test handler never uses a packet it has given away; it gives every packet
  back except for the two camera commands that have no reply, whose packets it keeps for
  ever.\<close>

theorem hwtest_leaks_camera_packets:
  assumes "hwtest_handler env (Some p) cs = (cs', evs)"
  shows "if no_reply_cmd p then leaks (pk_ptr p) evs else linear (pk_ptr p) evs"
  using hwtest_ownership [OF assms] by (simp add: leaks_def linear_def)

lemma hwtest_leaks_camera_packets_witness:
  "\<exists>evs. snd (hwtest_handler \<lparr>he_i2c = i2c_ok, he_cam = cam_ok\<rparr> (Some (mk_packet 1 [2])) cs_photos) = evs
    \<and> leaks 1 evs"
proof -
  obtain cs' evs where
    h: "hwtest_handler \<lparr>he_i2c = i2c_ok, he_cam = cam_ok\<rparr> (Some (mk_packet 1 [2])) cs_photos = (cs', evs)"
    by fastforce
  have "no_reply_cmd (mk_packet 1 [2])" by code_simp
  with hwtest_leaks_camera_packets [OF h] h show ?thesis by simp
qed

text \<open>The frame-count reply carries the number of frame files, modulo 65536, behind the command
  byte of the packet's data, but the handler leaves the length of the request in the packet:
  what is transmitted is cut to that length, and to a request of one byte the answer is the
  command byte alone.\<close>

theorem count_reply_keeps_request_length:
  assumes "wf_packet p" "pk_length p \<noteq> 0" "cmd_id p = HWTEST_GET_FRAME_COUNT_CMD"
    and "ce_opendir (he_cam env)" "cam_dir cs = Some d"
  shows "\<exists>evs q. hwtest_handler env (Some p) cs = (cs, evs @ [Ev_reply q])
    \<and> parse_cam (pk_data q) = \<lparr>hc_telemetry_id = HWTEST_GET_FRAME_COUNT_CMD,
         hc_frame_count = of_nat (length (filter is_frame d))\<rparr>
    \<and> length (payload q) = unat (pk_length p)
    \<and> (pk_length p = 1 \<longrightarrow> payload q = [HWTEST_GET_FRAME_COUNT_CMD])"
proof (cases rule: hwtest_handler_cases [of p env cs])
  case count
  let ?t = "\<lparr>hc_telemetry_id = HWTEST_GET_FRAME_COUNT_CMD,
    hc_frame_count = of_nat (length (filter is_frame d))\<rparr>"
  let ?q = "put_data p (cam_image ?t)"
  have "hwtest_handler env (Some p) cs =
      (cs, [Ev_opendir CAM_FRAME_PATH, Ev_closedir] @ [Ev_reply ?q])"
    using count assms(4,5)
    by (simp add: get_frame_count_service_def get_frame_file_count_def count_frames_filter)
  moreover have "parse_cam (pk_data ?q) = ?t" by (simp add: cam.parse_image)
  moreover have "length (payload ?q) = unat (pk_length p)"
    using assms(1) by (auto simp: payload_def wf_packet_def cam.len_image min_def)
  moreover have "pk_length p = 1 \<longrightarrow> payload ?q = [HWTEST_GET_FRAME_COUNT_CMD]"
    by (simp add: payload_def cam_image_def)
  ultimately show ?thesis by blast
qed (use assms in auto)

lemma count_reply_keeps_request_length_witness:
  "\<exists>evs q. hwtest_handler \<lparr>he_i2c = i2c_ok, he_cam = cam_ok\<rparr> (Some p_count) cs_photos
      = (cs_photos, evs @ [Ev_reply q]) \<and> payload q = [3]
      \<and> hc_frame_count (parse_cam (pk_data q)) = 2"
proof -
  have p: "wf_packet p_count" "pk_length p_count \<noteq> 0"
    "cmd_id p_count = HWTEST_GET_FRAME_COUNT_CMD" "pk_length p_count = 1"
    "length (filter is_frame (the (cam_dir cs_photos))) = 2" by code_simp+
  have "ce_opendir (he_cam \<lparr>he_i2c = i2c_ok, he_cam = cam_ok\<rparr>)"
    "cam_dir cs_photos = Some (the (cam_dir cs_photos))" by code_simp+
  from count_reply_keeps_request_length [OF p(1-3) this] show ?thesis by (auto simp: p)
qed

text \<open>After the photo directory has been initialised, it exists, holds no frame, and keeps every
  other entry: the count that follows is 0, and the sequence number of the next frame has not
  been reset.\<close>

theorem init_clears_frames:
  assumes "pk_length p \<noteq> 0" "cmd_id p = HWTEST_INIT_PHOTO_DIR_CMD"
    and "ce_opendir (he_cam env)" "ce_mkdir (he_cam env)" "\<forall>path. ce_remove (he_cam env) path"
    and "\<forall>d. cam_dir cs = Some d \<longrightarrow> (\<forall>name \<in> set d. length name \<le> NAME_MAX)"
    and "hwtest_handler env (Some p) cs = (cs', evs)"
  shows "(case cam_dir cs of None \<Rightarrow> cam_dir cs' = Some [''.'', ''..'']
      | Some d \<Rightarrow> cam_dir cs' = Some (filter (\<lambda>name. \<not> is_frame name) d))
    \<and> get_frame_file_count (he_cam env) cs' 0 = (0, 0, [Ev_opendir CAM_FRAME_PATH, Ev_closedir])
    \<and> cam_seq cs' = cam_seq cs"
proof (cases rule: hwtest_handler_cases [of p env cs])
  case init
  show ?thesis
  proof (cases "cam_dir cs")
    case None
    have "\<not> is_frame ''.''" "\<not> is_frame ''..''" by code_simp+
    moreover have "cs' = cs\<lparr>cam_dir := Some [''.'', ''..'']\<rparr>"
      using None init assms(3,4,7) by (simp add: init_photo_dir_service_def init_photo_dir_def)
    ultimately show ?thesis using None assms(3) by (simp add: get_frame_file_count_def)
  next
    case (Some d)
    have "\<forall>name \<in> set d. length name \<le> NAME_MAX" using Some assms(6) by simp
    from init_photo_dir_opened [OF assms(3) Some this] obtain evs' where
      "init_photo_dir (he_cam env) cs =
        (0, cs\<lparr>cam_dir := Some (filter (\<lambda>name. \<not> is_frame name) d)\<rparr>, evs')"
      using assms(5) by auto
    then have "cs' = cs\<lparr>cam_dir := Some (filter (\<lambda>name. \<not> is_frame name) d)\<rparr>"
      using init assms(7) by (simp add: init_photo_dir_service_def)
    then show ?thesis
      using Some assms(3) by (simp add: get_frame_file_count_def count_frames_filter)
  qed
qed (use assms in auto)

lemma init_clears_frames_witness:
  "\<exists>cs' evs. hwtest_handler \<lparr>he_i2c = i2c_ok, he_cam = cam_ok\<rparr> (Some (mk_packet 1 [1])) cs_photos = (cs', evs)
    \<and> cam_dir cs' = Some [''.'', ''..'', ''notes''] \<and> cam_seq cs' = 3"
proof -
  let ?env = "\<lparr>he_i2c = i2c_ok, he_cam = cam_ok\<rparr>"
  obtain cs' evs where h: "hwtest_handler ?env (Some (mk_packet 1 [1])) cs_photos = (cs', evs)"
    by fastforce
  have "pk_length (mk_packet 1 [1]) \<noteq> 0" "cmd_id (mk_packet 1 [1]) = HWTEST_INIT_PHOTO_DIR_CMD"
    by code_simp+
  from init_clears_frames [OF this _ _ _ _ h] h show ?thesis
    by (simp add: cam_ok_def cs_photos_def is_frame_def CAM_FRAME_PREFIX_def)
qed

end
