(* ===== verification/DaemonProps.thy ===== *)
theory DaemonProps
  imports DaemonOps UploadScenario HwtestProps
begin

text \<open>
  The properties of the daemon as a whole: the invariant of the three threads and their
  account of the packet buffers, the way of a request through the queues, the start-up, and
  the rejection of unknown commands.
\<close>

section \<open>Reachable states\<close>

lemma daemon_main_Inr:
  assumes "daemon_main env us cs = Inr r"
  shows "queued (rn_daemon r) = [] \<and> dm_upload (rn_daemon r) = upload_handler_init us
    \<and> dm_seq_number (rn_daemon r) = 0 \<and> dm_cam (rn_daemon r) = cs"
  using assms
  by (auto simp: daemon_main_def Let_def file_handler_init_def shell_handler_init_def
      g_queue_init_def queued_def split: if_splits prod.splits)

lemma daemon_main_starts:
  "(\<exists>r. daemon_main env us cs = Inr r) \<longleftrightarrow> be_can env \<and> be_usart env = 0"
  by (simp add: daemon_main_def Let_def split: prod.split)

lemma inv_file_turn:
  assumes inv: "daemon_inv d" and acc: "accounted d tr k" and seek: "e_fseek env"
    and run: "file_work_thread [env] (dm_file_queue d) (dm_upload d) = Inr (q, us, evs)"
  defines "d' \<equiv> d\<lparr>dm_file_queue := q, dm_upload := us\<rparr>"
  shows "daemon_inv d' \<and> accounted d' (tr @ evs) k"
  using run
proof (cases rule: file_turn_cases)
  case idle
  with inv accounted_idle [OF acc, of d'] show ?thesis
    by (simp add: d'_def daemon_inv_def queued_def queued_ptrs_def)
next
  case (work p)
  from inv work have p: "upload_inv (dm_upload d)" "wf_packet p" "p \<in> set (queued d)"
    by (auto simp: daemon_inv_def queued_def)
  from file_work_ownership [OF p(1,2) work(2)] seek
  have "linear (pk_ptr p) evs" by (simp add: bad_seek_def seek_fails_def)
  with accounted_worker [OF acc _ p(3), of d' evs] work file_work_acquires [OF p(1,2) work(2)] inv
  have "accounted d' (tr @ evs) k" by (simp add: d'_def daemon_inv_def queued_def)
  with inv work file_work_inv [OF p(1,2) work(2)] show ?thesis
    by (simp add: d'_def daemon_inv_def queued_def queued_ptrs_def)
qed

lemma shell_work_linear:
  assumes "shell_work env p sq = Inr (sq', evs)" "\<forall>i. sh_clone env i \<noteq> Some (pk_ptr p)"
  shows "linear (pk_ptr p) evs"
  using assms
  by (cases "is_shell_cmd p")
    (use shell_cmd_returns [of env SHELL_CMD p] in
      \<open>auto simp: shell_work_cmd shell_work_other send_shell_err_reply_def own_simps\<close>)

lemma inv_shell_turn:
  assumes inv: "daemon_inv d" and acc: "accounted d tr k"
    and fresh: "\<forall>i a. sh_clone env i = Some a \<longrightarrow> a \<notin> in_hand tr"
    and run: "shell_work_thread [env] (dm_shell_queue d) (dm_seq_number d) = Inr (q, sq, evs)"
  defines "d' \<equiv> d\<lparr>dm_shell_queue := q, dm_seq_number := sq\<rparr>"
  shows "daemon_inv d' \<and> accounted d' (tr @ evs) k"
  using run
proof (cases rule: shell_turn_cases)
  case idle
  with inv accounted_idle [OF acc, of d'] show ?thesis
    by (simp add: d'_def daemon_inv_def queued_def queued_ptrs_def)
next
  case (work p)
  have p: "p \<in> set (queued d)" using work by (simp add: queued_def)
  with acc have "pk_ptr p \<in> in_hand tr" by (auto simp: accounted_def in_hand_def queued_ptrs_def)
  with fresh have "linear (pk_ptr p) evs" using shell_work_linear [OF work(2)] by blast
  moreover have "acquired evs \<inter> in_hand tr = {}"
    using shell_work_acquires [OF work(2)] fresh by (auto simp: clone_addrs_def)
  ultimately have "accounted d' (tr @ evs) k"
    using accounted_worker [OF acc _ p, of d' evs] work inv by (simp add: d'_def daemon_inv_def queued_def)
  with inv work show ?thesis by (simp add: d'_def daemon_inv_def queued_def queued_ptrs_def)
qed

lemma daemon_reach_inv:
  assumes "daemon_reach True st photo d tr k" "stdio_inv st" "st_open st = Map.empty"
  shows "daemon_inv d \<and> accounted d tr k"
  using assms(1)
proof (induction rule: daemon_reach.induct)
  case (boot env r)
  from daemon_main_Inr [OF boot] upload_inv_init [OF assms(2,3)] show ?case
    by (simp add: daemon_inv_def accounted_def queued_ptrs_def)
next
  case (server d tr k p dport env d' evs)
  then have inv: "daemon_inv d" and acc: "accounted d tr k" by auto
  from acc server.hyps(3) have "pk_ptr p \<notin> set (queued_ptrs d)"
    by (auto simp: accounted_def in_hand_def)
  with daemon_inv_mset [OF inv _ _ server.hyps(2)] dispatch_effect [OF server.hyps(4)]
  have "daemon_inv d'" by blast
  with accounted_server [OF acc server.hyps(3,4)] show ?case by simp
next
  case (file_turn d tr k fenv q us evs)
  then show ?case using inv_file_turn [of d tr k fenv q us evs] by simp
next
  case (shell_turn d tr k senv q sq evs)
  then show ?case using inv_shell_turn [of d tr k senv q sq evs] by simp
next
  case (photos d tr k dir)
  then show ?case by (simp add: daemon_inv_def accounted_def queued_def queued_ptrs_def)
qed

section \<open>A concrete run\<close>

definition boot_ok :: boot_env where
  "boot_ok = \<lparr>be_defines = recipe_defines, be_can = True, be_usart = 0, be_host_bits = 5, be_file_thread = 0,
              be_shell_thread = 0, be_router = \<lparr>pt_attr_init = 0, pt_setdetach = 0, pt_create = 0, pt_destroy = 0\<rparr>\<rparr>"

definition srv_ok :: srv_env where
  "srv_ok = \<lparr>sv_hw = \<lparr>he_i2c = i2c_ok, he_cam = cam_ok\<rparr>, sv_stack = (\<lambda>_. 0)\<rparr>"

definition p_capture :: "nat \<Rightarrow> csp_packet" where
  "p_capture a = mk_packet a [2]"

lemma p_capture_facts:
  "wf_packet (p_capture a)" "pk_ptr (p_capture a) = a" "no_reply_cmd (p_capture a)"
  by (simp_all add: p_capture_def wf_mk_packet) (simp add: mk_packet_def no_reply_cmd_def)

text \<open>Any number of capture requests can be served one after the other.\<close>

lemma captures_reachable:
  assumes "stdio_inv st" "st_open st = Map.empty"
  shows "\<exists>d tr. daemon_reach True st photo d tr k \<and> queued d = []"
proof (induction k)
  case 0
  obtain r where r: "daemon_main boot_ok (upload_statics st) (cam_statics photo) = Inr r"
    using daemon_main_starts [of boot_ok "upload_statics st" "cam_statics photo"]
    by (auto simp: boot_ok_def)
  from daemon_reach.boot [OF r] daemon_main_Inr [OF r] show ?case by blast
next
  case (Suc k)
  then obtain d tr where r: "daemon_reach True st photo d tr k" "queued d = []" by blast
  from daemon_reach_inv [OF r(1) assms] have "finite (in_hand tr)"
    by (auto simp: accounted_def in_hand_def)
  then obtain a where a: "a \<notin> in_hand tr" using ex_new_if_finite [OF infinite_UNIV_nat] by blast
  obtain d' evs where s: "dispatch_packet srv_ok PORT_HWTEST (p_capture a) d = Inr (d', evs)"
    using dispatch_total [of srv_ok PORT_HWTEST "p_capture a" d] by (auto simp: safe_def)
  have q: "queued d' = []"
    using dispatch_effect [OF s] r(2) by (simp add: queues_packet_def)
  have "daemon_reach True st photo d' (tr @ [Ev_read a] @ evs) (Suc k)"
    using daemon_reach.server [OF r(1) p_capture_facts(1) _ s] a by (simp add: p_capture_facts)
  with q show ?case by blast
qed

section \<open>Properties\<close>

text \<open>C4: However the three threads interleave and whatever arrives, as long as no \<open>fseek\<close>
  fails: the upload component stays well-formed, no packet is in a queue twice, no buffer is
  used after it has been given away, and the buffers in the daemon's hands are exactly those of
  the queued packets and one for each camera command that was served: nothing else leaks.\<close>

theorem daemon_accounts_for_buffers:
  assumes "stdio_inv st" "st_open st = Map.empty" "daemon_reach True st photo d tr k"
  shows "daemon_inv d \<and> (\<exists>own. own_run {} tr = Some own \<and> set (queued_ptrs d) \<subseteq> own
    \<and> card own = length (queued d) + k)"
  using daemon_reach_inv [OF assms(3,1,2)] by (auto simp: accounted_def)

lemma daemon_accounts_for_buffers_witness:
  "\<exists>d tr own. daemon_reach True st_empty None d tr 3 \<and> daemon_inv d \<and> own_run {} tr = Some own
    \<and> card own = 3"
proof -
  have st: "stdio_inv st_empty" "st_open st_empty = Map.empty" by simp_all
  from captures_reachable [OF st, of None 3] obtain d tr where
    r: "daemon_reach True st_empty None d tr 3" "queued d = []" by blast
  from daemon_accounts_for_buffers [OF st r(1)] r show ?thesis by auto
qed

text \<open>Camera commands exhaust libcsp's buffers: for every number of them there is a run that
  serves just these and ends with empty queues and that many buffers in hand.\<close>

theorem camera_commands_exhaust_buffers:
  assumes "stdio_inv st" "st_open st = Map.empty"
  shows "\<exists>d tr own. daemon_reach True st photo d tr n \<and> queued d = []
    \<and> own_run {} tr = Some own \<and> card own = n"
proof -
  from captures_reachable [OF assms, of photo n] obtain d tr where
    r: "daemon_reach True st photo d tr n" "queued d = []" by blast
  from daemon_reach_inv [OF r(1) assms] r show ?thesis by (auto simp: accounted_def)
qed

lemma camera_commands_exhaust_buffers_witness:
  "\<exists>d tr own. daemon_reach True st_empty None d tr 15 \<and> queued d = []
    \<and> own_run {} tr = Some own \<and> card own = 15"
  using camera_commands_exhaust_buffers [of st_empty None 15] by simp

section \<open>The way of a request\<close>

lemma dispatch_queues:
  assumes "dispatch_packet env dport p d = Inr (d', evs)"
  shows "dm_file_queue d' = dm_file_queue d @ (if dport = PORT_FILE then [p] else [])
    \<and> dm_shell_queue d' = dm_shell_queue d @ (if dport = PORT_SHELL then [p] else [])
    \<and> dm_upload d' = dm_upload d \<and> dm_seq_number d' = dm_seq_number d"
  by (cases rule: dispatch_cases [of dport env p d]) (use assms in auto)

lemma read_loop_queues:
  assumes "read_loop dispatch_packet dport ps d = Inr (d', evs)"
  shows "dm_file_queue d' = dm_file_queue d @ (if dport = PORT_FILE then map snd ps else [])
    \<and> dm_shell_queue d' = dm_shell_queue d @ (if dport = PORT_SHELL then map snd ps else [])
    \<and> dm_upload d' = dm_upload d \<and> dm_seq_number d' = dm_seq_number d"
  using assms
proof (induction ps arbitrary: d evs)
  case (Cons ep ps)
  obtain e p where ep: "ep = (e, p)" by fastforce
  from Cons.prems obtain d1 evs1 evs2 where
    s: "dispatch_packet e dport p d = Inr (d1, evs1)" and r: "read_loop dispatch_packet dport ps d1 = Inr (d', evs2)"
    by (auto simp: ep split: sum.splits)
  from dispatch_queues [OF s] Cons.IH [OF r] show ?case by (simp add: ep)
qed simp

lemma serve_queues:
  assumes "handle_csp_packet conns d = Inr (d', evs)"
  shows "dm_file_queue d' = dm_file_queue d @ packets_to PORT_FILE conns
    \<and> dm_shell_queue d' = dm_shell_queue d @ packets_to PORT_SHELL conns
    \<and> dm_upload d' = dm_upload d \<and> dm_seq_number d' = dm_seq_number d"
  using assms unfolding handle_csp_packet_def
proof (induction conns arbitrary: d evs)
  case (Cons c conns)
  show ?case
  proof (cases c)
    case None
    with Cons show ?thesis by (simp add: packets_to_def)
  next
    case (Some dp)
    obtain dport ps where c: "c = Some (dport, ps)" using Some by (cases dp) auto
    from Cons.prems obtain d1 evs1 evs2 where
      r: "read_loop dispatch_packet dport ps d = Inr (d1, evs1)" and s: "serve dispatch_packet conns d1 = Inr (d', evs2)"
      by (auto simp: c split: sum.splits)
    from read_loop_queues [OF r] Cons.IH [OF s] show ?thesis by (simp add: c packets_to_def)
  qed
qed (simp add: packets_to_def)

lemma read_loop_total: "safe (read_loop dispatch_packet dport ps d)"
proof (induction ps arbitrary: d)
  case (Cons ep ps)
  obtain e p where ep: "ep = (e, p)" by fastforce
  from dispatch_total [of e dport p d] obtain d1 evs1 where
    "dispatch_packet e dport p d = Inr (d1, evs1)" by (auto simp: safe_def)
  with Cons [of d1] show ?case by (auto simp: ep safe_def)
qed simp

lemma serve_total: "safe (handle_csp_packet conns d)"
  unfolding handle_csp_packet_def
proof (induction conns arbitrary: d)
  case (Cons c conns)
  show ?case
  proof (cases c)
    case None
    with Cons show ?thesis by simp
  next
    case (Some dp)
    obtain dport ps where c: "c = Some (dport, ps)" using Some by (cases dp) auto
    from read_loop_total [of dport ps d] obtain d1 evs1 where
      "read_loop dispatch_packet dport ps d = Inr (d1, evs1)" by (auto simp: safe_def)
    with Cons [of d1] show ?thesis by (auto simp: c safe_def)
  qed
qed simp

lemma file_work_drains:
  assumes "upload_inv us" "\<forall>(env, p) \<in> set eps. wf_packet p \<and> fits p"
  shows "\<exists>us' evs. run_work file_work eps us = Inr (us', evs) \<and> upload_inv us'"
  using assms
proof (induction eps arbitrary: us)
  case (Cons ep eps)
  obtain env p where ep: "ep = (env, p)" by fastforce
  with Cons.prems have p: "wf_packet p" "fits p" by auto
  from file_work_safe_iff [OF Cons.prems(1) p(1), of env] p(2)
  have "safe (file_work env p us)" by simp
  then obtain us1 evs1 where w: "file_work env p us = Inr (us1, evs1)" by (auto simp: safe_def)
  from file_work_inv [OF Cons.prems(1) p(1) w] Cons.IH [of us1] Cons.prems(2) w show ?case
    by (auto simp: ep)
qed simp

text \<open>C17: The server thread never stops: whatever connections and packets arrive, on whatever port,
  it returns to its accept loop; every file and shell request has been appended to the queue of
  its component, in the order of arrival, and as long as libcsp hands out only buffers that are
  free, no buffer is used after it has been given away.\<close>

theorem server_thread_never_stops:
  assumes "daemon_inv d" "\<forall>p \<in> conn_packets conns. wf_packet p"
  shows "\<exists>d' evs. handle_csp_packet conns d = Inr (d', evs)
    \<and> dm_file_queue d' = dm_file_queue d @ packets_to PORT_FILE conns
    \<and> dm_shell_queue d' = dm_shell_queue d @ packets_to PORT_SHELL conns
    \<and> (fresh_reads (set (queued_ptrs d)) evs \<longrightarrow>
         daemon_inv d' \<and> own_run (set (queued_ptrs d)) evs \<noteq> None)"
proof -
  from serve_total [of conns d] obtain d' evs where h: "handle_csp_packet conns d = Inr (d', evs)"
    by (auto simp: safe_def)
  then have "fresh_reads (set (queued_ptrs d)) evs \<Longrightarrow>
      daemon_inv d' \<and> own_run (set (queued_ptrs d)) evs \<noteq> None"
    using daemon_server.serve_owns [OF assms(1) subset_refl assms(2)]
    by (auto simp: handle_csp_packet_def)
  with h serve_queues [OF h] show ?thesis by blast
qed

definition d_start :: daemon where
  "d_start = \<lparr>dm_file_queue = [], dm_shell_queue = [], dm_upload = us_start, dm_seq_number = 0,
              dm_cam = cam_statics None\<rparr>"

lemma d_start_inv: "daemon_inv d_start"
  by (simp add: d_start_def daemon_inv_def queued_def queued_ptrs_def us_start_inv)

definition conns_upload :: "srv_env conn list" where
  "conns_upload = [None, Some (PORT_FILE, [(srv_ok, p_open), (srv_ok, p_data)]),
                   Some (PORT_SYSTEM, [(srv_ok, mk_packet 9 [0])]), Some (PORT_FILE, [(srv_ok, p_close)])]"

lemma conns_upload_facts:
  "packets_to PORT_FILE conns_upload = [p_open, p_data, p_close]"
  "packets_to PORT_SHELL conns_upload = []"
  "\<forall>p \<in> conn_packets conns_upload. wf_packet p"
  by (auto simp: conns_upload_def packets_to_def conn_packets_def wf_examples wf_mk_packet)

lemma server_thread_never_stops_witness:
  "\<exists>d' evs. handle_csp_packet conns_upload d_start = Inr (d', evs)
    \<and> dm_file_queue d' = [p_open, p_data, p_close]"
  using server_thread_never_stops [OF d_start_inv conns_upload_facts(3)]
  by (auto simp: conns_upload_facts d_start_def)

text \<open>What arrives on the file port is worked on in the order of arrival: when the server has
  read the connections and the file worker takes as many turns as there were requests, it has
  done what the upload commands do on the sequence of these requests, and its queue is empty. It
  gets there when the requests fit the arrays.\<close>

theorem file_requests_served_in_order:
  assumes "daemon_inv d" "dm_file_queue d = []" "handle_csp_packet conns d = Inr (d', evs)"
    and "length envs = length (packets_to PORT_FILE conns)"
    and "\<forall>p \<in> set (packets_to PORT_FILE conns). wf_packet p \<and> fits p"
  shows "\<exists>us evs'. run_work (\<lambda>env p. csp_file_work env (Some p))
      (zip envs (packets_to PORT_FILE conns)) (dm_upload d) = Inr (us, evs')
    \<and> file_work_thread envs (dm_file_queue d') (dm_upload d') = Inr ([], us, evs') \<and> upload_inv us"
proof -
  from serve_queues [OF assms(3)] assms(2) have
    q: "dm_file_queue d' = packets_to PORT_FILE conns" "dm_upload d' = dm_upload d" by auto
  have "\<forall>(env, p) \<in> set (zip envs (packets_to PORT_FILE conns)). wf_packet p \<and> fits p"
    using assms(5) by (auto dest: set_zip_rightD)
  from file_work_drains [OF _ this, of "dm_upload d"] assms(1) obtain us evs' where
    r: "run_work file_work (zip envs (packets_to PORT_FILE conns)) (dm_upload d) = Inr (us, evs')"
      "upload_inv us"
    unfolding daemon_inv_def by blast
  from file_worker.loop_drains [of envs "dm_file_queue d'"] r assms(4) show ?thesis
    by (auto simp: q file_work_thread_def)
qed

lemma fits_examples: "fits p_open" "fits p_data" "fits p_close"
  by code_simp+

lemma file_requests_served_in_order_witness:
  "\<exists>d' evs us evs'. handle_csp_packet conns_upload d_start = Inr (d', evs)
    \<and> file_work_thread [env_ok, env_ok, env_ok] (dm_file_queue d') (dm_upload d') = Inr ([], us, evs')"
proof -
  obtain d' evs where h: "handle_csp_packet conns_upload d_start = Inr (d', evs)"
    using serve_total [of conns_upload d_start] by (auto simp: safe_def)
  have "dm_file_queue d_start = []" by (simp add: d_start_def)
  from file_requests_served_in_order [OF d_start_inv this h, of "[env_ok, env_ok, env_ok]"] h
  show ?thesis by (auto simp: conns_upload_facts wf_examples fits_examples)
qed

text \<open>The start-up in general: which calls it makes, with the addresses of the build.\<close>

lemma daemon_main_outcome:
  "(case daemon_main env us cs of
      Inl code \<Rightarrow> code = 1 \<and> \<not> (be_can env \<and> be_usart env = 0)
    | Inr r \<Rightarrow> be_can env \<and> be_usart env = 0
        \<and> nt_default (rn_net r) = Some Can_iface
        \<and> nt_addr (rn_net r) Can_iface = Some (RPI_ZERO_CAN_ADDR (be_defines env))
        \<and> nt_addr (rn_net r) Usart_iface = Some (RPI_ZERO_UART_ADDR (be_defines env))
        \<and> nt_rtable_set (rn_net r) = [(RPI_PICO_UART_ADDR (be_defines env), be_host_bits env, Usart_iface),
                                       (MAIN_OBC_CAN_ADDR (be_defines env), be_host_bits env, Can_iface)]
        \<and> (rn_router r \<longleftrightarrow> pt_attr_init (be_router env) = 0 \<and> pt_setdetach (be_router env) = 0
                          \<and> pt_create (be_router env) = 0)
        \<and> (rn_file_log r = Started \<longleftrightarrow> 0 \<le> be_file_thread env)
        \<and> (rn_shell_log r = Started \<longleftrightarrow> 0 \<le> be_shell_thread env))"
  by (auto simp: daemon_main_def Let_def file_handler_init_def shell_handler_init_def start_csp_router_def
      split: prod.split)

text \<open>On the file, shell and system ports a packet without a command byte, or with one that
  the component does not know, is answered in the packet itself with the telemetry id 255 and
  the error -EINVAL, and changes nothing else.\<close>

theorem unknown_commands_rejected:
  assumes "pk_length p = 0 \<or> cmd_id p \<notin> {0, 2, 3, 4}"
  shows "\<exists>q. pk_ptr q = pk_ptr p \<and> payload q = [255, 234, 255, 255, 255]
    \<and> csp_file_work fenv (Some p) us = Inr (us, [Ev_reply q])
    \<and> csp_shell_work senv (Some p) sq = Inr (sq, [Ev_reply q])
    \<and> system_handler stack (Some p) = Inr [Ev_reply q]"
proof -
  let ?img = "[255, 234, 255, 255, 255] :: bytes"
  have img: "file_err_image \<lparr>fe_telemetry_id = 255, fe_error_code = htole32 (- EINVAL)\<rparr> = ?img"
    "shell_err_image \<lparr>he_telemetry_id = 255, he_error_code = htole32 (- EINVAL)\<rparr> = ?img"
    "system_err_image \<lparr>se_telemetry_id = 255, se_error_code = htole32 (- EINVAL)\<rparr> = ?img"
    by code_simp+
  have "payload (put_payload p ?img) = ?img" by (rule payload_put_payload) simp
  moreover have "csp_file_work fenv (Some p) us = Inr (us, [Ev_reply (put_payload p ?img)])"
    by (cases rule: file_work_cases [of p fenv us]) (use assms img(1) in \<open>auto simp: send_err_reply_def\<close>)
  moreover have "csp_shell_work senv (Some p) sq = Inr (sq, [Ev_reply (put_payload p ?img)])"
    using assms img(2) by (subst shell_work_other) (auto simp: is_shell_cmd_def send_shell_err_reply_def)
  moreover have "system_handler stack (Some p) = Inr [Ev_reply (put_payload p ?img)]"
    using assms img(3) by (auto simp: system_handler_cases is_version_cmd_def send_system_err_reply_def)
  ultimately show ?thesis by (intro exI [of _ "put_payload p ?img"]) simp
qed

lemma unknown_commands_rejected_witness:
  "\<exists>q. payload q = [255, 234, 255, 255, 255]
    \<and> csp_shell_work (sh_ok []) (Some (mk_packet 1 [77])) 5 = Inr (5, [Ev_reply q])"
proof -
  have "cmd_id (mk_packet 1 [77]) \<notin> {0, 2, 3, 4}" by code_simp
  then have "pk_length (mk_packet 1 [77]) = 0 \<or> cmd_id (mk_packet 1 [77]) \<notin> {0, 2, 3, 4}" by (rule disjI2)
  from unknown_commands_rejected [OF this] show ?thesis by blast
qed

end
