(* ===== verification/Schedule.thy ===== *)
theory Schedule
  imports DaemonProps
begin

text \<open>
  The interleaving of the daemon's threads made executable: a schedule is the list of the
  turns the threads take, \<open>daemon_run\<close> executes it, and every schedule that keeps to the
  promises of libcsp is a run of \<open>daemon_reach\<close>, and conversely.

  A schedule is then taken apart: what a worker does depends only on the jobs it gets, which
  are pairs of a request and the surroundings of the turn that took it from the queue. The
  interleaved run gives every thread exactly the state and the trace of a sequential run over
  its own jobs.
\<close>

section \<open>Schedules\<close>

datatype turn =
    Serve srv_env nat csp_packet     \<comment> \<open>the server reads a packet for a port and dispatches it\<close>
  | File_turn upload_env             \<comment> \<open>one round of the loop of the file worker\<close>
  | Shell_turn shell_env             \<comment> \<open>one round of the loop of the shell worker\<close>
  | Photos "string list option"      \<comment> \<open>other programs change the photo directory\<close>

fun daemon_step :: "turn \<Rightarrow> daemon \<Rightarrow> (daemon \<times> event list) res" where
  "daemon_step (Serve env dport p) d =
     (case dispatch_packet env dport p d of
        Inl flt \<Rightarrow> Inl flt
      | Inr (d', evs) \<Rightarrow> Inr (d', Ev_read (pk_ptr p) # evs))"
| "daemon_step (File_turn env) d =
     (case file_work_thread [env] (dm_file_queue d) (dm_upload d) of
        Inl flt \<Rightarrow> Inl flt
      | Inr (q, us, evs) \<Rightarrow> Inr (d\<lparr>dm_file_queue := q, dm_upload := us\<rparr>, evs))"
| "daemon_step (Shell_turn env) d =
     (case shell_work_thread [env] (dm_shell_queue d) (dm_seq_number d) of
        Inl flt \<Rightarrow> Inl flt
      | Inr (q, sq, evs) \<Rightarrow> Inr (d\<lparr>dm_shell_queue := q, dm_seq_number := sq\<rparr>, evs))"
| "daemon_step (Photos dir) d = Inr (d\<lparr>dm_cam := (dm_cam d)\<lparr>cam_dir := dir\<rparr>\<rparr>, [])"

text \<open>Who acts in a turn; a worker that finds its queue empty sleeps.\<close>

datatype actor = Server | File_worker | Shell_worker | Nobody

fun who :: "turn \<Rightarrow> daemon \<Rightarrow> actor" where
  "who (Serve env dport p) d = Server"
| "who (File_turn env) d = (if dm_file_queue d = [] then Nobody else File_worker)"
| "who (Shell_turn env) d = (if dm_shell_queue d = [] then Nobody else Shell_worker)"
| "who (Photos dir) d = Nobody"

text \<open>The trace of a schedule has the events of each turn with their actor.\<close>

type_synonym sched_trace = "(actor \<times> event list) list"

fun daemon_run :: "turn list \<Rightarrow> daemon \<Rightarrow> (daemon \<times> sched_trace) res" where
  "daemon_run [] d = Inr (d, [])"
| "daemon_run (t # ts) d =
     (case daemon_step t d of
        Inl flt \<Rightarrow> Inl flt
      | Inr (d1, evs) \<Rightarrow>
        (case daemon_run ts d1 of
           Inl flt \<Rightarrow> Inl flt
         | Inr (d2, tr) \<Rightarrow> Inr (d2, (who t d, evs) # tr)))"

definition events_of :: "actor \<Rightarrow> sched_trace \<Rightarrow> event list" where
  "events_of a tr = concat (map snd (filter (\<lambda>(b, _). b = a) tr))"

definition all_events :: "sched_trace \<Rightarrow> event list" where
  "all_events tr = concat (map snd tr)"

lemma events_of_simps [simp]:
  "events_of a [] = []"
  "events_of a ((b, evs) # tr) = (if b = a then evs @ events_of a tr else events_of a tr)"
  by (auto simp: events_of_def)

lemma all_events_simps [simp]:
  "all_events [] = []" "all_events ((b, evs) # tr) = evs @ all_events tr"
  by (simp_all add: all_events_def)

lemma daemon_run_append:
  "daemon_run (ts @ us) d =
     (case daemon_run ts d of
        Inl flt \<Rightarrow> Inl flt
      | Inr (d1, tr1) \<Rightarrow>
        (case daemon_run us d1 of
           Inl flt \<Rightarrow> Inl flt
         | Inr (d2, tr2) \<Rightarrow> Inr (d2, tr1 @ tr2)))"
  by (induction ts arbitrary: d) (auto split: sum.splits)

lemma all_events_append [simp]: "all_events (xs @ ys) = all_events xs @ all_events ys"
  by (simp add: all_events_def)

section \<open>Schedules and the transition system\<close>

text \<open>What libcsp and, with \<open>seeks\<close>, the file system promise of a turn.\<close>

fun turn_ok :: "bool \<Rightarrow> event list \<Rightarrow> turn \<Rightarrow> bool" where
  "turn_ok seeks tr (Serve env dport p) \<longleftrightarrow> wf_packet p \<and> pk_ptr p \<notin> in_hand tr"
| "turn_ok seeks tr (File_turn env) \<longleftrightarrow> (seeks \<longrightarrow> e_fseek env)"
| "turn_ok seeks tr (Shell_turn env) \<longleftrightarrow> (\<forall>i a. sh_clone env i = Some a \<longrightarrow> a \<notin> in_hand tr)"
| "turn_ok seeks tr (Photos dir) \<longleftrightarrow> True"

fun sched_ok :: "bool \<Rightarrow> event list \<Rightarrow> turn list \<Rightarrow> daemon \<Rightarrow> bool" where
  "sched_ok seeks tr [] d = True"
| "sched_ok seeks tr (t # ts) d \<longleftrightarrow> turn_ok seeks tr t \<and>
     (case daemon_step t d of Inl flt \<Rightarrow> True | Inr (d1, evs) \<Rightarrow> sched_ok seeks (tr @ evs) ts d1)"

lemma step_reach:
  assumes "daemon_reach seeks st photo d tr k" "turn_ok seeks tr t" "daemon_step t d = Inr (d', evs)"
  shows "\<exists>k'. daemon_reach seeks st photo d' (tr @ evs) k'"
proof (cases t)
  case (Serve env dport p)
  with assms(3) obtain evs' where "dispatch_packet env dport p d = Inr (d', evs')"
    "evs = Ev_read (pk_ptr p) # evs'" by (auto split: sum.splits)
  with daemon_reach.server [OF assms(1) _ _ this(1)] assms(2) Serve show ?thesis by auto
next
  case (File_turn env)
  with assms(3) obtain q us where "file_work_thread [env] (dm_file_queue d) (dm_upload d) = Inr (q, us, evs)"
    "d' = d\<lparr>dm_file_queue := q, dm_upload := us\<rparr>" by (auto split: sum.splits)
  with daemon_reach.file_turn [OF assms(1) _ this(1)] assms(2) File_turn show ?thesis by auto
next
  case (Shell_turn env)
  with assms(3) obtain q sq where "shell_work_thread [env] (dm_shell_queue d) (dm_seq_number d) = Inr (q, sq, evs)"
    "d' = d\<lparr>dm_shell_queue := q, dm_seq_number := sq\<rparr>" by (auto split: sum.splits)
  with daemon_reach.shell_turn [OF assms(1) _ this(1)] assms(2) Shell_turn show ?thesis by auto
next
  case (Photos dir)
  with assms(3) daemon_reach.photos [OF assms(1), of dir] show ?thesis by auto
qed

lemma run_reach:
  assumes "daemon_reach seeks st photo d tr k" "sched_ok seeks tr ts d" "daemon_run ts d = Inr (d', ltr)"
  shows "\<exists>k'. daemon_reach seeks st photo d' (tr @ all_events ltr) k'"
  using assms
proof (induction ts arbitrary: d tr k ltr)
  case (Cons t ts)
  from Cons.prems(3) obtain d1 evs ltr1 where
    s: "daemon_step t d = Inr (d1, evs)" and r: "daemon_run ts d1 = Inr (d', ltr1)"
    and ltr: "ltr = (who t d, evs) # ltr1"
    by (auto split: sum.splits)
  from Cons.prems(2) s have ok: "turn_ok seeks tr t" "sched_ok seeks (tr @ evs) ts d1" by auto
  from step_reach [OF Cons.prems(1) ok(1) s] obtain k1 where "daemon_reach seeks st photo d1 (tr @ evs) k1" ..
  from Cons.IH [OF this ok(2) r] show ?case by (simp add: ltr)
qed auto

lemma sched_ok_snoc:
  "daemon_run ts d = Inr (d1, ltr) \<Longrightarrow>
    sched_ok seeks tr (ts @ [t]) d \<longleftrightarrow> sched_ok seeks tr ts d \<and> turn_ok seeks (tr @ all_events ltr) t"
  by (induction ts arbitrary: d tr ltr) (auto split: sum.splits)

lemma run_snoc:
  "daemon_run ts d = Inr (d1, ltr) \<Longrightarrow> daemon_step t d1 = Inr (d2, evs) \<Longrightarrow>
    daemon_run (ts @ [t]) d = Inr (d2, ltr @ [(who t d1, evs)])"
  by (simp add: daemon_run_append)

text \<open>The states that a schedule reaches from a start of the daemon, with their traces.\<close>

definition scheduled :: "bool \<Rightarrow> stdio \<Rightarrow> string list option \<Rightarrow> daemon \<Rightarrow> event list \<Rightarrow> bool" where
  "scheduled seeks st photo d tr \<longleftrightarrow>
     (\<exists>env r ts ltr. daemon_main env (upload_statics st) (cam_statics photo) = Inr r
        \<and> sched_ok seeks [] ts (rn_daemon r) \<and> daemon_run ts (rn_daemon r) = Inr (d, ltr)
        \<and> all_events ltr = tr)"

lemma scheduled_step:
  assumes "scheduled seeks st photo d tr" "turn_ok seeks tr t" "daemon_step t d = Inr (d', evs)"
  shows "scheduled seeks st photo d' (tr @ evs)"
proof -
  from assms(1) obtain env r ts ltr where
    r: "daemon_main env (upload_statics st) (cam_statics photo) = Inr r"
    "sched_ok seeks [] ts (rn_daemon r)" "daemon_run ts (rn_daemon r) = Inr (d, ltr)" "all_events ltr = tr"
    by (auto simp: scheduled_def)
  have "sched_ok seeks [] (ts @ [t]) (rn_daemon r)"
    using r(2,4) assms(2) by (simp add: sched_ok_snoc [OF r(3)])
  with r run_snoc [OF r(3) assms(3)] show ?thesis
    unfolding scheduled_def
    by (intro exI [of _ env] exI [of _ r] exI [of _ "ts @ [t]"] exI [of _ "ltr @ [(who t d, evs)]"]) simp
qed

lemma reach_scheduled: "daemon_reach seeks st photo d tr k \<Longrightarrow> scheduled seeks st photo d tr"
proof (induction rule: daemon_reach.induct)
  case (boot env r)
  then show ?case
    unfolding scheduled_def
    by (intro exI [of _ env] exI [of _ r] exI [of _ "[]"] exI [of _ "[]"]) simp
next
  case (server d tr k p env dport d' evs)
  then show ?case using scheduled_step [of seeks st photo d tr "Serve env dport p"] by simp
next
  case (file_turn d tr k fenv q us evs)
  then show ?case using scheduled_step [of seeks st photo d tr "File_turn fenv"] by simp
next
  case (shell_turn d tr k senv q sq evs)
  then show ?case using scheduled_step [of seeks st photo d tr "Shell_turn senv"] by simp
next
  case (photos d tr k dir)
  then show ?case using scheduled_step [of seeks st photo d tr "Photos dir"] by simp
qed

lemma scheduled_reach: "scheduled seeks st photo d tr \<Longrightarrow> \<exists>k. daemon_reach seeks st photo d tr k"
  using run_reach [OF daemon_reach.boot] by (fastforce simp: scheduled_def)

lemma scheduled_iff_reach: "scheduled seeks st photo d tr \<longleftrightarrow> (\<exists>k. daemon_reach seeks st photo d tr k)"
  using reach_scheduled scheduled_reach by blast

end
