(* ===== verification/Interleave.thy ===== *)
theory Interleave
  imports Schedule
begin

text \<open>
  What the interleaving of the threads can influence: the jobs of a worker, as the schedule
  hands them out, and nothing else. The locale states how a worker appears in the turns of
  the daemon; both workers are instances.
\<close>

section \<open>Jobs\<close>

text \<open>\<open>jobs arrival taker ts q\<close>: the requests that the turns \<open>ts\<close> take from the queue
  \<open>q\<close>, each with the surroundings of the turn, and what is left in the queue. It does not
  look at what the requests do.\<close>

fun jobs ::
    "(turn \<Rightarrow> csp_packet option) \<Rightarrow> (turn \<Rightarrow> 'e option) \<Rightarrow> turn list \<Rightarrow> csp_packet list
       \<Rightarrow> ('e \<times> csp_packet) list \<times> csp_packet list" where
  "jobs arrival taker [] q = ([], q)"
| "jobs arrival taker (t # ts) q =
     (case taker t of
        None \<Rightarrow> jobs arrival taker ts (case arrival t of None \<Rightarrow> q | Some p \<Rightarrow> q @ [p])
      | Some e \<Rightarrow>
        (case q of
           [] \<Rightarrow> jobs arrival taker ts []
         | p # q' \<Rightarrow> (let (js, left) = jobs arrival taker ts q' in ((e, p) # js, left))))"

text \<open>First come, first served.\<close>

lemma jobs_in_order:
  "\<forall>t \<in> set ts. taker t = None \<or> arrival t = None \<Longrightarrow>
    map snd (fst (jobs arrival taker ts q)) @ snd (jobs arrival taker ts q) = q @ List.map_filter arrival ts"
  by (induction ts arbitrary: q)
    (auto simp: List.map_filter_simps case_prod_beta Let_def split: option.splits list.splits)

lemma jobs_filter:
  "\<forall>t \<in> set ts. taker t \<noteq> None \<or> arrival t \<noteq> None \<longrightarrow> P t \<Longrightarrow>
    jobs arrival taker (filter P ts) q = jobs arrival taker ts q"
  by (induction ts arbitrary: q) (auto split: option.splits list.splits)

fun arrival_on :: "nat \<Rightarrow> turn \<Rightarrow> csp_packet option" where
  "arrival_on port (Serve env dport p) = (if dport = port then Some p else None)"
| "arrival_on port t = None"

fun file_taker :: "turn \<Rightarrow> upload_env option" where
  "file_taker (File_turn env) = Some env"
| "file_taker t = None"

fun shell_taker :: "turn \<Rightarrow> shell_env option" where
  "shell_taker (Shell_turn env) = Some env"
| "shell_taker t = None"

fun_cases arrival_onE: "arrival_on port t = Some p"
fun_cases file_takerE: "file_taker t = Some env"
fun_cases shell_takerE: "shell_taker t = Some env"

abbreviation file_jobs where "file_jobs \<equiv> jobs (arrival_on PORT_FILE) file_taker"
abbreviation shell_jobs where "shell_jobs \<equiv> jobs (arrival_on PORT_SHELL) shell_taker"

section \<open>A worker among the turns\<close>

locale interleaved_worker =
  fixes queue :: "daemon \<Rightarrow> csp_packet list"
    and state :: "daemon \<Rightarrow> 's"
    and work :: "'e \<Rightarrow> csp_packet \<Rightarrow> 's \<Rightarrow> ('s \<times> event list) res"
    and arrival :: "turn \<Rightarrow> csp_packet option"
    and taker :: "turn \<Rightarrow> 'e option"
    and me :: actor
  assumes other_turn: "taker t = None \<Longrightarrow> daemon_step t d = Inr (d', evs) \<Longrightarrow>
      queue d' = (case arrival t of None \<Rightarrow> queue d | Some p \<Rightarrow> queue d @ [p])
      \<and> state d' = state d \<and> who t d \<noteq> me"
    and idle_turn: "taker t = Some e \<Longrightarrow> queue d = [] \<Longrightarrow> daemon_step t d = Inr (d', evs) \<Longrightarrow>
      queue d' = [] \<and> state d' = state d \<and> who t d \<noteq> me"
    and work_turn: "taker t = Some e \<Longrightarrow> queue d = p # q \<Longrightarrow> daemon_step t d = Inr (d', evs) \<Longrightarrow>
      queue d' = q \<and> work e p (state d) = Inr (state d', evs) \<and> who t d = me"
begin

text \<open>In any interleaving the worker does what it does alone on its jobs.\<close>

lemma runs_its_jobs:
  "daemon_run ts d = Inr (d', tr) \<Longrightarrow>
    run_work work (fst (jobs arrival taker ts (queue d))) (state d) = Inr (state d', events_of me tr)
    \<and> queue d' = snd (jobs arrival taker ts (queue d))"
proof (induction ts arbitrary: d tr)
  case (Cons t ts)
  from Cons.prems obtain d1 evs tr1 where
    s: "daemon_step t d = Inr (d1, evs)" and r: "daemon_run ts d1 = Inr (d', tr1)"
    and tr: "tr = (who t d, evs) # tr1"
    by (auto split: sum.splits)
  note IH = Cons.IH [OF r]
  show ?case
  proof (cases "taker t")
    case None
    with IH other_turn [OF None s] show ?thesis by (simp add: tr)
  next
    case (Some e)
    show ?thesis
    proof (cases "queue d")
      case Nil
      with IH Some idle_turn [OF Some Nil s] show ?thesis by (simp add: tr)
    next
      case (Cons p q)
      with IH Some work_turn [OF Some Cons s] show ?thesis by (auto simp: tr split: prod.split)
    qed
  qed
qed simp

end

text \<open>The turns of the daemon, read off the dispatch and the worker loops.\<close>

lemma serve_turn:
  "daemon_step (Serve env dport p) d = Inr (d', evs) \<Longrightarrow>
    dm_file_queue d' = (case arrival_on PORT_FILE (Serve env dport p) of None \<Rightarrow> dm_file_queue d
                        | Some p \<Rightarrow> dm_file_queue d @ [p])
    \<and> dm_shell_queue d' = (case arrival_on PORT_SHELL (Serve env dport p) of None \<Rightarrow> dm_shell_queue d
                        | Some p \<Rightarrow> dm_shell_queue d @ [p])
    \<and> dm_upload d' = dm_upload d \<and> dm_seq_number d' = dm_seq_number d"
  using dispatch_queues [of env dport p d] by (auto split: sum.splits)

lemma file_thread_one:
  "file_work_thread [env] q us =
     (case q of
        [] \<Rightarrow> Inr ([], us, [Ev_usleep FILE_WORK_THREAD_SLEEP_USEC])
      | p # q' \<Rightarrow> (case file_work env p us of Inl flt \<Rightarrow> Inl flt | Inr (us', evs) \<Rightarrow> Inr (q', us', evs)))"
  by (auto simp: file_work_thread_def g_queue_pop_head_def split: list.split sum.split)

lemma shell_thread_one:
  "shell_work_thread [env] q sq =
     (case q of
        [] \<Rightarrow> Inr ([], sq, [Ev_sleep SHELL_WORK_THREAD_SLEEP_SEC])
      | p # q' \<Rightarrow> (case shell_work env p sq of Inl flt \<Rightarrow> Inl flt | Inr (sq', evs) \<Rightarrow> Inr (q', sq', evs)))"
  by (auto simp: shell_work_thread_def g_queue_pop_head_def split: list.split sum.split)

lemmas worker_turns = file_thread_one shell_thread_one

text \<open>A turn of one worker is none of the other's.\<close>

lemma file_turn_frame:
  "daemon_step (File_turn env) d = Inr (d', evs) \<Longrightarrow>
    dm_shell_queue d' = dm_shell_queue d \<and> dm_seq_number d' = dm_seq_number d \<and> dm_cam d' = dm_cam d
    \<and> who (File_turn env) d \<in> {File_worker, Nobody}"
  by (auto split: sum.splits)

lemma shell_turn_frame:
  "daemon_step (Shell_turn env) d = Inr (d', evs) \<Longrightarrow>
    dm_file_queue d' = dm_file_queue d \<and> dm_upload d' = dm_upload d \<and> dm_cam d' = dm_cam d
    \<and> who (Shell_turn env) d \<in> {Shell_worker, Nobody}"
  by (auto split: sum.splits)

interpretation file_view: interleaved_worker dm_file_queue dm_upload file_work
  "arrival_on PORT_FILE" file_taker File_worker
proof
  fix t d d' evs e p q
  show "dm_file_queue d' = (case arrival_on PORT_FILE t of None \<Rightarrow> dm_file_queue d | Some p \<Rightarrow> dm_file_queue d @ [p])
      \<and> dm_upload d' = dm_upload d \<and> who t d \<noteq> File_worker"
    if "file_taker t = None" "daemon_step t d = Inr (d', evs)"
  proof (cases t)
    case (Serve env dport p)
    with serve_turn [of env dport p d d' evs] that(2) show ?thesis by (simp split: if_splits)
  next
    case (Shell_turn env)
    with shell_turn_frame [of env d d' evs] that(2) show ?thesis by simp
  qed (use that in auto)
  show "dm_file_queue d' = [] \<and> dm_upload d' = dm_upload d \<and> who t d \<noteq> File_worker"
    if "file_taker t = Some e" "dm_file_queue d = []" "daemon_step t d = Inr (d', evs)"
    using that by (cases t) (auto simp: worker_turns)
  show "dm_file_queue d' = q \<and> file_work e p (dm_upload d) = Inr (dm_upload d', evs) \<and> who t d = File_worker"
    if "file_taker t = Some e" "dm_file_queue d = p # q" "daemon_step t d = Inr (d', evs)"
    using that by (cases t) (auto simp: worker_turns split: sum.splits)
qed

interpretation shell_view: interleaved_worker dm_shell_queue dm_seq_number shell_work
  "arrival_on PORT_SHELL" shell_taker Shell_worker
proof
  fix t d d' evs e p q
  show "dm_shell_queue d' = (case arrival_on PORT_SHELL t of None \<Rightarrow> dm_shell_queue d | Some p \<Rightarrow> dm_shell_queue d @ [p])
      \<and> dm_seq_number d' = dm_seq_number d \<and> who t d \<noteq> Shell_worker"
    if "shell_taker t = None" "daemon_step t d = Inr (d', evs)"
  proof (cases t)
    case (Serve env dport p)
    with serve_turn [of env dport p d d' evs] that(2) show ?thesis by (simp split: if_splits)
  next
    case (File_turn env)
    with file_turn_frame [of env d d' evs] that(2) show ?thesis by simp
  qed (use that in auto)
  show "dm_shell_queue d' = [] \<and> dm_seq_number d' = dm_seq_number d \<and> who t d \<noteq> Shell_worker"
    if "shell_taker t = Some e" "dm_shell_queue d = []" "daemon_step t d = Inr (d', evs)"
    using that by (cases t) (auto simp: worker_turns)
  show "dm_shell_queue d' = q \<and> shell_work e p (dm_seq_number d) = Inr (dm_seq_number d', evs) \<and> who t d = Shell_worker"
    if "shell_taker t = Some e" "dm_shell_queue d = p # q" "daemon_step t d = Inr (d', evs)"
    using that by (cases t) (auto simp: worker_turns split: sum.splits)
qed

section \<open>Faults\<close>

lemma safe_run_Cons:
  "safe (daemon_run (t # ts) d) \<longleftrightarrow>
     (case daemon_step t d of Inl flt \<Rightarrow> False | Inr (d1, evs) \<Rightarrow> safe (daemon_run ts d1))"
  by (auto simp: safe_def split: sum.splits)

lemma safe_run_work_Cons:
  "safe (run_work work ((e, p) # ps) s) \<longleftrightarrow>
     (case work e p s of Inl flt \<Rightarrow> False | Inr (s1, evs) \<Rightarrow> safe (run_work work ps s1))"
  by (auto simp: safe_def split: sum.splits)

lemma safe_idle [simp]: "safe (run_work work [] s)"
  by (simp add: safe_def)

text \<open>A schedule runs into a fault exactly when one of the workers does on its jobs.\<close>

lemma daemon_run_safe:
  "safe (daemon_run ts d) \<longleftrightarrow>
     safe (run_work file_work (fst (file_jobs ts (dm_file_queue d))) (dm_upload d))
     \<and> safe (run_work shell_work (fst (shell_jobs ts (dm_shell_queue d))) (dm_seq_number d))"
proof (induction ts arbitrary: d)
  case (Cons t ts)
  note defs = safe_run_Cons safe_run_work_Cons worker_turns
  show ?case
  proof (cases t)
    case (Serve env dport p)
    from dispatch_total [of env dport p d] obtain d1 evs where
      s: "daemon_step t d = Inr (d1, evs)" by (auto simp: safe_def Serve)
    with Cons.IH [of d1] serve_turn [of env dport p d d1 evs] show ?thesis
      by (simp add: Serve safe_run_Cons del: daemon_run.simps)
  next
    case (File_turn env)
    show ?thesis
    proof (cases "dm_file_queue d")
      case Nil
      with Cons.IH [of "d\<lparr>dm_file_queue := []\<rparr>"] show ?thesis by (simp add: File_turn defs del: daemon_run.simps run_work.simps)
    next
      case (Cons p q)
      with Cons.IH show ?thesis
        by (simp add: File_turn defs case_prod_beta del: daemon_run.simps run_work.simps split: sum.split)
    qed
  next
    case (Shell_turn env)
    show ?thesis
    proof (cases "dm_shell_queue d")
      case Nil
      with Cons.IH [of "d\<lparr>dm_shell_queue := []\<rparr>"] show ?thesis by (simp add: Shell_turn defs del: daemon_run.simps run_work.simps)
    next
      case (Cons p q)
      with Cons.IH show ?thesis
        by (simp add: Shell_turn defs case_prod_beta del: daemon_run.simps run_work.simps split: sum.split)
    qed
  next
    case (Photos dir)
    with Cons.IH [of "d\<lparr>dm_cam := (dm_cam d)\<lparr>cam_dir := dir\<rparr>\<rparr>"] show ?thesis
      by (simp add: Photos safe_run_Cons del: daemon_run.simps)
  qed
qed (simp add: safe_def)

section \<open>The server thread\<close>

text \<open>The server on its own: what it does with a packet depends on the camera state only, on what
  happens to the photo directory, and on nothing the workers do.\<close>

definition cam_daemon :: "cam_state \<Rightarrow> daemon" where
  "cam_daemon cs = \<lparr>dm_file_queue = [], dm_shell_queue = [],
     dm_upload = \<lparr>session_used = [], session_unused = [], sessions = [], us_stdio = \<lparr>st_fs = Map.empty, st_open = Map.empty, st_next = 0\<rparr>\<rparr>,
     dm_seq_number = 0, dm_cam = cs\<rparr>"

fun is_serve :: "turn \<Rightarrow> bool" where
  "is_serve (Serve env dport p) = True"
| "is_serve (Photos dir) = True"
| "is_serve t = False"

fun server_run :: "turn list \<Rightarrow> cam_state \<Rightarrow> (cam_state \<times> event list) res" where
  "server_run [] cs = Inr (cs, [])"
| "server_run (t # ts) cs =
     (case daemon_step t (cam_daemon cs) of
        Inl flt \<Rightarrow> Inl flt
      | Inr (d, evs) \<Rightarrow>
        (case server_run ts (dm_cam d) of
           Inl flt \<Rightarrow> Inl flt
         | Inr (cs', evs') \<Rightarrow> Inr (cs', evs @ evs')))"

lemma serve_cam_only:
  assumes "daemon_step (Serve env dport p) d = Inr (d', evs)"
  shows "\<exists>d''. daemon_step (Serve env dport p) (cam_daemon (dm_cam d)) = Inr (d'', evs) \<and> dm_cam d'' = dm_cam d'"
  using assms by (auto simp: dispatch_packet_def cam_daemon_def Let_def split: sum.splits if_splits prod.splits)

lemma server_runs_alone:
  "daemon_run ts d = Inr (d', tr) \<Longrightarrow>
    server_run (filter is_serve ts) (dm_cam d) = Inr (dm_cam d', events_of Server tr)"
proof (induction ts arbitrary: d tr)
  case (Cons t ts)
  from Cons.prems obtain d1 evs tr1 where
    s: "daemon_step t d = Inr (d1, evs)" and r: "daemon_run ts d1 = Inr (d', tr1)"
    and tr: "tr = (who t d, evs) # tr1"
    by (auto split: sum.splits)
  note IH = Cons.IH [OF r]
  show ?case
  proof (cases t)
    case (Serve env dport p)
    from serve_cam_only [OF s [unfolded Serve]] obtain d'' where
      "daemon_step t (cam_daemon (dm_cam d)) = Inr (d'', evs)" "dm_cam d'' = dm_cam d1"
      by (auto simp: Serve)
    with IH show ?thesis by (simp add: tr Serve del: daemon_step.simps)
  next
    case (File_turn env)
    with IH file_turn_frame [OF s [unfolded File_turn]] show ?thesis by (auto simp: tr)
  next
    case (Shell_turn env)
    with IH shell_turn_frame [OF s [unfolded Shell_turn]] show ?thesis by (auto simp: tr)
  next
    case (Photos dir)
    with IH s show ?thesis by (auto simp: tr cam_daemon_def)
  qed
qed simp

section \<open>Schedules that hand out the same work\<close>

text \<open>Two schedules hand out the same work when the server sees the same packets and the same
  photo directories, and each worker gets the same jobs and is left with the same queue.\<close>

definition same_work :: "daemon \<Rightarrow> turn list \<Rightarrow> turn list \<Rightarrow> bool" where
  "same_work d ts us \<longleftrightarrow>
     filter is_serve ts = filter is_serve us
     \<and> file_jobs ts (dm_file_queue d) = file_jobs us (dm_file_queue d)
     \<and> shell_jobs ts (dm_shell_queue d) = shell_jobs us (dm_shell_queue d)"

text \<open>Such schedules run into a fault both or neither, and end in the same state; each thread makes the
  same calls in the same order.\<close>

lemma same_work_same_run:
  assumes "same_work d ts us"
  shows "case (daemon_run ts d, daemon_run us d) of
      (Inr (d1, tr1), Inr (d2, tr2)) \<Rightarrow>
        d1 = d2 \<and> (\<forall>a \<in> {Server, File_worker, Shell_worker}. events_of a tr1 = events_of a tr2)
    | (Inl _, Inl _) \<Rightarrow> True
    | _ \<Rightarrow> False"
proof -
  note same = assms [unfolded same_work_def]
  have "d1 = d2 \<and> (\<forall>a \<in> {Server, File_worker, Shell_worker}. events_of a tr1 = events_of a tr2)"
    if r: "daemon_run ts d = Inr (d1, tr1)" "daemon_run us d = Inr (d2, tr2)" for d1 tr1 d2 tr2
  proof -
    have "dm_cam d1 = dm_cam d2 \<and> events_of Server tr1 = events_of Server tr2"
      using server_runs_alone [OF r(1)] server_runs_alone [OF r(2)] same by simp
    moreover have "dm_upload d1 = dm_upload d2 \<and> dm_file_queue d1 = dm_file_queue d2
        \<and> events_of File_worker tr1 = events_of File_worker tr2"
      using file_view.runs_its_jobs [OF r(1)] file_view.runs_its_jobs [OF r(2)] same by simp
    moreover have "dm_seq_number d1 = dm_seq_number d2 \<and> dm_shell_queue d1 = dm_shell_queue d2
        \<and> events_of Shell_worker tr1 = events_of Shell_worker tr2"
      using shell_view.runs_its_jobs [OF r(1)] shell_view.runs_its_jobs [OF r(2)] same by simp
    ultimately show ?thesis by (cases d1; cases d2) simp
  qed
  note agree = this
  have safe: "safe (daemon_run ts d) \<longleftrightarrow> safe (daemon_run us d)"
    using same by (simp add: daemon_run_safe)
  show ?thesis
  proof (cases "daemon_run ts d")
    case (Inl flt)
    with safe show ?thesis by (cases "daemon_run us d") simp_all
  next
    case (Inr x)
    with safe obtain y where y: "daemon_run us d = Inr y" by (cases "daemon_run us d") simp_all
    obtain d1 tr1 d2 tr2 where "x = (d1, tr1)" "y = (d2, tr2)" by fastforce
    with Inr y agree [of d1 tr1 d2 tr2] show ?thesis by simp
  qed
qed

text \<open>Eager and lazy workers: each request worked on at once, or all of them at the end.\<close>

definition sched_eager :: "turn list" where
  "sched_eager = [Serve srv_ok PORT_FILE p_open, File_turn env_ok, Serve srv_ok PORT_SHELL p_ls, Shell_turn (sh_ok [97]),
     Serve srv_ok PORT_FILE p_data, File_turn env_ok]"

definition sched_lazy :: "turn list" where
  "sched_lazy = [Shell_turn (sh_ok []), Serve srv_ok PORT_FILE p_open, Serve srv_ok PORT_SHELL p_ls, Serve srv_ok PORT_FILE p_data,
     File_turn env_ok, File_turn env_ok, Shell_turn (sh_ok [97])]"

text \<open>The turns that concern the file service.\<close>

fun touches_files :: "turn \<Rightarrow> bool" where
  "touches_files (Serve env dport p) \<longleftrightarrow> dport = PORT_FILE"
| "touches_files (File_turn env) = True"
| "touches_files (Shell_turn env) = False"
| "touches_files (Photos dir) = False"

lemma sched_eager_runs: "\<exists>d' tr. daemon_run sched_eager d_start = Inr (d', tr)"
proof -
  have "safe (run_work file_work [(env_ok, p_open), (env_ok, p_data)] us_start)"
    using file_work_drains [OF us_start_inv, of "[(env_ok, p_open), (env_ok, p_data)]"]
    by (auto simp: safe_def wf_examples fits_examples)
  moreover from p_ls_safe [of "[97]" 0] have "safe (run_work shell_work [(sh_ok [97], p_ls)] 0)"
    by (auto simp: safe_def)
  moreover have "fst (file_jobs sched_eager []) = [(env_ok, p_open), (env_ok, p_data)]"
    "fst (shell_jobs sched_eager []) = [(sh_ok [97], p_ls)]"
    by (simp_all add: sched_eager_def)
  ultimately have "safe (daemon_run sched_eager d_start)"
    by (simp add: daemon_run_safe d_start_def)
  then show ?thesis by (auto simp: safe_def)
qed

text \<open>Take everything out of a schedule but these turns, and the file service does the same.\<close>

lemma file_turns_suffice:
  assumes "daemon_run ts d = Inr (d', tr)"
  shows "\<exists>d'' tr''. daemon_run (filter touches_files ts) d = Inr (d'', tr'')
    \<and> dm_upload d'' = dm_upload d' \<and> dm_file_queue d'' = dm_file_queue d'
    \<and> events_of File_worker tr'' = events_of File_worker tr"
proof -
  let ?fs = "filter touches_files ts"
  have jobs: "file_jobs ?fs q = file_jobs ts q" for q
    by (rule jobs_filter) (auto elim!: arrival_onE file_takerE split: if_splits)
  have none: "fst (shell_jobs ?fs q) = []" for q
  proof (induction ts arbitrary: q)
    case (Cons t ts)
    then show ?case by (cases t) (auto split: option.split)
  qed simp
  note w = file_view.runs_its_jobs [OF assms]
  have "safe (daemon_run ?fs d)" unfolding daemon_run_safe jobs none using w by simp
  then obtain d'' tr'' where r: "daemon_run ?fs d = Inr (d'', tr'')" by (auto simp: safe_def)
  from file_view.runs_its_jobs [OF r] w have
    "dm_upload d'' = dm_upload d' \<and> dm_file_queue d'' = dm_file_queue d'
     \<and> events_of File_worker tr'' = events_of File_worker tr"
    unfolding jobs by simp
  with r show ?thesis by blast
qed

end
