(* ===== verification/SharedDisk.thy ===== *)
theory SharedDisk
  imports Interleave
begin

text \<open>
  One file system under the daemon. The transfers open, write and close files by path, and the
  camera service removes the frames of the photo directory: the model of the threads
  (\<open>Daemon\<close>, \<open>Schedule\<close>) keeps the two apart, as the entries of the directory and a map from
  paths. Here they are one disk: a removed entry takes the file of that path with it, a file that a
  transfer creates in the photo directory becomes an entry, and a file that the camera programs
  write can be opened. A file that is removed while a transfer has it open lives on without a
  name. The main result is when this makes no difference to the model of the threads; from it
  follow the properties of the interleavings, on the one disk.
\<close>

section \<open>Paths of the photo directory\<close>

definition photo_prefix :: bytes where
  "photo_prefix = str_bytes (CAM_FRAME_PATH @ ''/'')"

text \<open>The entry of the photo directory that a path names. Paths are compared as they are written: the
  links and the \<open>..\<close> of a path are not followed.\<close>

definition entry_of :: "bytes \<Rightarrow> string option" where
  "entry_of path =
     (let name = map (\<lambda>b. char_of (unat b)) (drop (length photo_prefix) path) in
      if take (length photo_prefix) path = photo_prefix \<and> CHR ''/'' \<notin> set name \<and> name \<notin> {[], ''.'', ''..''}
      then Some name else None)"

abbreviation in_photo :: "bytes \<Rightarrow> bool" where
  "in_photo path \<equiv> entry_of path \<noteq> None"

abbreviation photo_path :: "string \<Rightarrow> bytes" where
  "photo_path name \<equiv> str_bytes (entry_path name)"

lemma char_of_str_bytes [simp]: "map (\<lambda>b. char_of (unat b)) (str_bytes s) = s"
proof -
  have "char_of (unat (of_char c :: u8)) = c" for c
  proof -
    have "unat (of_char c :: u8) = unat (of_nat (of_char c) :: u8)" by (simp only: of_nat_of_char)
    also have "\<dots> = of_char c" by (simp only: unat_of_nat) simp
    finally show ?thesis by simp
  qed
  then show ?thesis by (simp add: str_bytes_def comp_def)
qed

lemma entry_of_photo_path:
  "name \<notin> {[], ''.'', ''..''} \<Longrightarrow> CHR ''/'' \<notin> set name \<Longrightarrow> entry_of (photo_path name) = Some name"
proof -
  assume name: "name \<notin> {[], ''.'', ''..''}" "CHR ''/'' \<notin> set name"
  have "photo_path name = photo_prefix @ str_bytes name" by (simp add: photo_prefix_def str_bytes_def)
  with name show ?thesis by (simp add: entry_of_def)
qed

section \<open>Removing and adding entries\<close>

text \<open>\<open>orphan k path\<close> is where the file of \<open>path\<close> is kept that was removed while it was open, in the
  turn \<open>k\<close>: a path that no C string can be.\<close>

definition orphan :: "nat \<Rightarrow> bytes \<Rightarrow> bytes" where
  "orphan k path = replicate (Suc k) 0 @ path"

definition orphan_of :: "nat \<Rightarrow> bytes \<Rightarrow> bytes option" where
  "orphan_of k path = (if take (Suc k) path = replicate (Suc k) 0 then Some (drop (Suc k) path) else None)"

definition is_open :: "bytes \<Rightarrow> stdio \<Rightarrow> bool" where
  "is_open path st \<longleftrightarrow>
     list_ex (\<lambda>h. case st_open st h of None \<Rightarrow> False | Some f \<Rightarrow> f_path f = path) [0..<st_next st]"

definition goes :: "string list \<Rightarrow> bytes \<Rightarrow> bool" where
  "goes gone path \<longleftrightarrow> (case entry_of path of None \<Rightarrow> False | Some name \<Rightarrow> name \<in> set gone)"

text \<open>The files after the entries \<open>gone\<close> have gone and the entries \<open>new\<close> have come, whose contents
  \<open>img\<close> gives.\<close>

definition photos_after ::
    "(string \<Rightarrow> bytes) \<Rightarrow> string list \<Rightarrow> string list \<Rightarrow> (bytes \<rightharpoonup> bytes) \<Rightarrow> (bytes \<rightharpoonup> bytes)" where
  "photos_after img gone new fs = (\<lambda>path.
     case entry_of path of
       None \<Rightarrow> fs path
     | Some name \<Rightarrow> if name \<in> set gone then None else if name \<in> set new then Some (img name) else fs path)"

definition relink :: "nat \<Rightarrow> (string \<Rightarrow> bytes) \<Rightarrow> string list \<Rightarrow> string list \<Rightarrow> stdio \<Rightarrow> stdio" where
  "relink k img gone new st =
     st\<lparr>st_fs := (\<lambda>path.
          case orphan_of k path of
            None \<Rightarrow> photos_after img gone new (st_fs st) path
          | Some old \<Rightarrow> if goes gone old \<and> is_open old st then st_fs st old else st_fs st path),
        st_open := (\<lambda>h. map_option (\<lambda>f. if goes gone (f_path f) then f\<lparr>f_path := orphan k (f_path f)\<rparr> else f)
                           (st_open st h))\<rparr>"

section \<open>The turns on the one disk\<close>

abbreviation entries :: "cam_state \<Rightarrow> string list" where
  "entries cs \<equiv> (case cam_dir cs of None \<Rightarrow> [] | Some d \<Rightarrow> d)"

abbreviation lacking :: "string list \<Rightarrow> string list \<Rightarrow> string list" where
  "lacking xs ys \<equiv> filter (\<lambda>x. x \<notin> set ys) xs"

definition on_disk :: "(stdio \<Rightarrow> stdio) \<Rightarrow> daemon \<Rightarrow> daemon" where
  "on_disk f d = d\<lparr>dm_upload := (dm_upload d)\<lparr>us_stdio := f (us_stdio (dm_upload d))\<rparr>\<rparr>"

text \<open>The entries of the photo directory that the transfers have open.\<close>

definition open_entries :: "upload_state \<Rightarrow> string list" where
  "open_entries us = List.map_filter (\<lambda>i.
     case se_file (sessions us ! i) of
       None \<Rightarrow> None
     | Some h \<Rightarrow> (case st_open (us_stdio us) h of None \<Rightarrow> None | Some f \<Rightarrow> entry_of (f_path f))) (session_used us)"

definition list_entries :: "string list \<Rightarrow> daemon \<Rightarrow> daemon" where
  "list_entries names d = d\<lparr>dm_cam := (dm_cam d)\<lparr>cam_dir := map_option (\<lambda>l. l @ lacking names l) (cam_dir (dm_cam d))\<rparr>\<rparr>"

text \<open>What a turn does to the other view of the disk. A turn of the server can only remove entries (those
  of a directory it makes are no files); in a turn of other programs, new entries are new files.\<close>

fun follow :: "(string \<Rightarrow> bytes) \<Rightarrow> nat \<Rightarrow> turn \<Rightarrow> cam_state \<Rightarrow> daemon \<Rightarrow> daemon" where
  "follow img k (Serve env dport p) cs d = on_disk (relink k img (lacking (entries cs) (entries (dm_cam d))) []) d"
| "follow img k (Photos dir) cs d =
     on_disk (relink k img (lacking (entries cs) (entries (dm_cam d))) (lacking (entries (dm_cam d)) (entries cs))) d"
| "follow img k (File_turn env) cs d = list_entries (open_entries (dm_upload d)) d"
| "follow img k (Shell_turn env) cs d = d"

fun shared_run :: "(string \<Rightarrow> bytes) \<Rightarrow> nat \<Rightarrow> turn list \<Rightarrow> daemon \<Rightarrow> (daemon \<times> sched_trace) res" where
  "shared_run img k [] d = Inr (d, [])"
| "shared_run img k (t # ts) d =
     (case daemon_step t d of
        Inl flt \<Rightarrow> Inl flt
      | Inr (d1, evs) \<Rightarrow>
        (case shared_run img (Suc k) ts (follow img k t (dm_cam d) d1) of
           Inl flt \<Rightarrow> Inl flt
         | Inr (d2, tr) \<Rightarrow> Inr (d2, (who t d, evs) # tr)))"

section \<open>Transfers outside the photo directory\<close>

text \<open>\<open>with_photos F st\<close>: the files of \<open>st\<close>, with \<open>F\<close> in the photo directory. The upload operations on
  files elsewhere do the same whatever there is in the photo directory.\<close>

definition with_photos :: "(bytes \<rightharpoonup> bytes) \<Rightarrow> stdio \<Rightarrow> stdio" where
  "with_photos F st = st\<lparr>st_fs := (\<lambda>path. if in_photo path then F path else st_fs st path)\<rparr>"

definition clear :: "stdio \<Rightarrow> bool" where
  "clear st \<longleftrightarrow> (\<forall>h f. st_open st h = Some f \<longrightarrow> \<not> in_photo (f_path f))"

lemma with_photos_simps [simp]:
  "st_open (with_photos F st) = st_open st" "st_next (with_photos F st) = st_next st"
  "clear (with_photos F st) = clear st" "with_photos G (with_photos F st) = with_photos G st"
  "with_photos (st_fs st) st = st"
  by (auto simp: with_photos_def clear_def fun_eq_iff)

lemma clearD: "clear st \<Longrightarrow> st_open st h = Some f \<Longrightarrow> entry_of (f_path f) = None"
  by (auto simp: clear_def)

lemma fopen_with_photos:
  assumes "clear st" "\<not> in_photo path"
  shows "fopen g path m (with_photos F st) = apsnd (with_photos F) (fopen g path m st)"
    "clear (snd (fopen g path m st))"
  using assms
  by (auto simp: fopen_def fresh_file_def with_photos_def clear_def fun_eq_iff split: fmode.split)

lemma fseek_with_photos:
  "fseek ok h n (with_photos F st) = map_sum id (apsnd (with_photos F)) (fseek ok h n st)"
  "clear st \<Longrightarrow> fseek ok h n st = Inr (r, st') \<Longrightarrow> clear st'"
  by (cases st; auto simp: fseek_def with_photos_def clear_def split: option.split_asm if_split_asm option.split)+

lemma fwrite_with_photos:
  assumes "clear st"
  shows "fwrite a h d (with_photos F st) = map_sum id (apsnd (with_photos F)) (fwrite a h d st)"
    "fwrite a h d st = Inr (r, st') \<Longrightarrow> clear st'"
  using clearD [OF assms] assms
  by (auto simp: fwrite_def contents_def with_photos_def clear_def Let_def fun_eq_iff split: option.split option.split_asm if_split_asm)

lemma fclose_with_photos:
  "fclose ok h (with_photos F st) = map_sum id (apsnd (with_photos F)) (fclose ok h st)"
  "clear st \<Longrightarrow> fclose ok h st = Inr (r, st') \<Longrightarrow> clear st'"
  by (cases st; auto simp: fclose_def with_photos_def clear_def split: option.split_asm if_split_asm option.split)+

text \<open>The same for the functions of the upload service.\<close>

abbreviation us_with_photos :: "(bytes \<rightharpoonup> bytes) \<Rightarrow> upload_state \<Rightarrow> upload_state" where
  "us_with_photos F us \<equiv> us\<lparr>us_stdio := with_photos F (us_stdio us)\<rparr>"

lemma write_upload_file_with_photos:
  assumes "clear st"
  shows "write_upload_file env s ofs d (with_photos F st) = map_sum id (apsnd (with_photos F)) (write_upload_file env s ofs d st)"
    "write_upload_file env s ofs d st = Inr (r, st') \<Longrightarrow> clear st'"
proof -
  note seek = fseek_with_photos and wr = fwrite_with_photos
  show "write_upload_file env s ofs d (with_photos F st) = map_sum id (apsnd (with_photos F)) (write_upload_file env s ofs d st)"
    using seek(2) [OF assms] wr(1)
    by (auto simp: write_upload_file_def seek(1) split: option.split sum.split)
  show "write_upload_file env s ofs d st = Inr (r, st') \<Longrightarrow> clear st'"
    using seek(2) [OF assms] wr(2)
    by (fastforce simp: write_upload_file_def split: option.split_asm sum.split_asm if_split_asm)
qed

lemma open_upload_file_with_photos:
  assumes "clear (us_stdio us)" "\<not> in_photo fname"
  shows "open_upload_file env sid fname (us_with_photos F us) = apsnd (us_with_photos F) (open_upload_file env sid fname us)"
    "clear (us_stdio (snd (open_upload_file env sid fname us)))"
proof -
  note op = fopen_with_photos [OF _ assms(2)]
  obtain f1 st1 where 1: "fopen (e_fopen_r env) fname R_plus_b (us_stdio us) = (f1, st1)" by fastforce
  obtain f2 st2 where 2: "fopen (e_fopen_w env) fname W_plus_b st1 = (f2, st2)" by fastforce
  have c1: "clear st1" using op(2) [OF assms(1), of "e_fopen_r env" R_plus_b] 1 by simp
  have c2: "clear st2" using op(2) [OF c1, of "e_fopen_w env" W_plus_b] 2 by simp
  have w: "fopen (e_fopen_r env) fname R_plus_b (with_photos F (us_stdio us)) = (f1, with_photos F st1)"
    "fopen (e_fopen_w env) fname W_plus_b (with_photos F st1) = (f2, with_photos F st2)"
    using op(1) [OF assms(1)] op(1) [OF c1] 1 2 by simp_all
  show "open_upload_file env sid fname (us_with_photos F us) = apsnd (us_with_photos F) (open_upload_file env sid fname us)"
    using 1 2 w
    by (auto simp: open_upload_file_def search_used_session_def get_unused_session_def set_session_def release_session_def
        Let_def split: option.split list.split)
  show "clear (us_stdio (snd (open_upload_file env sid fname us)))"
    using 1 2 c1 c2 assms(1)
    by (auto simp: open_upload_file_def get_unused_session_def set_session_def release_session_def
        Let_def split: option.split list.split)
qed

lemma close_upload_file_with_photos:
  "close_upload_file env sid (us_with_photos F us) = map_sum id (apsnd (us_with_photos F)) (close_upload_file env sid us)"
  "clear (us_stdio us) \<Longrightarrow> close_upload_file env sid us = Inr (r, us') \<Longrightarrow> clear (us_stdio us')"
proof -
  show "close_upload_file env sid (us_with_photos F us) = map_sum id (apsnd (us_with_photos F)) (close_upload_file env sid us)"
    by (auto simp: close_upload_file_def search_used_session_def fclose_with_photos(1) release_session_def
        split: option.split sum.split)
  show "clear (us_stdio us) \<Longrightarrow> close_upload_file env sid us = Inr (r, us') \<Longrightarrow> clear (us_stdio us')"
    using fclose_with_photos(2) [of "us_stdio us"]
    by (fastforce simp: close_upload_file_def release_session_def split: option.split_asm sum.split_asm)
qed

text \<open>A request that opens a file in the photo directory.\<close>

definition names_photo :: "csp_packet \<Rightarrow> bool" where
  "names_photo p \<longleftrightarrow> cmd_id p = FILE_UPLOAD_OPEN_CMD \<and>
     (case req_name p of None \<Rightarrow> False | Some fname \<Rightarrow> in_photo fname)"

lemma open_cmd_with_photos:
  assumes "clear (us_stdio us)" "\<forall>fname. req_name p = Some fname \<longrightarrow> \<not> in_photo fname"
  shows "file_upload_open_cmd env cid p (us_with_photos F us) =
      map_sum id (apsnd (apfst (us_with_photos F))) (file_upload_open_cmd env cid p us)"
    "file_upload_open_cmd env cid p us = Inr (ret, us', evs) \<Longrightarrow> clear (us_stdio us')"
proof -
  have name: "\<not> in_photo fname"
    if "strcpy FILE_NAME_MAX_LEN (drop UPLOAD_FNAME_OFFSET (pk_data p)) = Inr fname" for fname
    using that assms(2) by (auto simp: strcpy_def req_name_def split: option.splits if_splits)
  show "file_upload_open_cmd env cid p (us_with_photos F us) =
      map_sum id (apsnd (apfst (us_with_photos F))) (file_upload_open_cmd env cid p us)"
    using open_upload_file_with_photos(1) [OF assms(1) name]
    by (auto simp: file_upload_open_cmd_def Let_def split: sum.split prod.split)
  show "file_upload_open_cmd env cid p us = Inr (ret, us', evs) \<Longrightarrow> clear (us_stdio us')"
    using open_upload_file_with_photos(2) [OF assms(1) name] assms(1)
    by (auto simp: file_upload_open_cmd_def Let_def split: sum.split_asm prod.split_asm if_split_asm)
      (metis snd_conv)
qed

lemma data_cmd_with_photos:
  assumes "clear (us_stdio us)"
  shows "file_upload_data_cmd env cid p (us_with_photos F us) =
      map_sum id (apsnd (apfst (us_with_photos F))) (file_upload_data_cmd env cid p us)"
    "file_upload_data_cmd env cid p us = Inr (ret, us', evs) \<Longrightarrow> clear (us_stdio us')"
proof -
  note w = write_upload_file_with_photos [OF assms]
  show "file_upload_data_cmd env cid p (us_with_photos F us) =
      map_sum id (apsnd (apfst (us_with_photos F))) (file_upload_data_cmd env cid p us)"
    by (auto simp: data_cmd_unfold w(1) search_used_session_def set_session_def case_prod_beta
        split: option.split sum.split)
  show "file_upload_data_cmd env cid p us = Inr (ret, us', evs) \<Longrightarrow> clear (us_stdio us')"
    using w(2) assms
    by (auto simp: data_cmd_unfold set_session_def case_prod_beta
        split: option.split_asm sum.split_asm if_split_asm)
qed

lemma close_cmd_with_photos:
  shows "file_upload_close_cmd env cid p (us_with_photos F us) =
      map_sum id (apsnd (apfst (us_with_photos F))) (file_upload_close_cmd env cid p us)"
    "clear (us_stdio us) \<Longrightarrow> file_upload_close_cmd env cid p us = Inr (ret, us', evs) \<Longrightarrow> clear (us_stdio us')"
proof -
  show "file_upload_close_cmd env cid p (us_with_photos F us) =
      map_sum id (apsnd (apfst (us_with_photos F))) (file_upload_close_cmd env cid p us)"
    by (auto simp: file_upload_close_cmd_def close_upload_file_with_photos(1) Let_def split: sum.split)
  show "clear (us_stdio us) \<Longrightarrow> file_upload_close_cmd env cid p us = Inr (ret, us', evs) \<Longrightarrow> clear (us_stdio us')"
    using close_upload_file_with_photos(2) [of us]
    by (auto simp: file_upload_close_cmd_def Let_def split: sum.split_asm if_split_asm)
qed

lemma drop_ret_with_photos:
  "drop_ret (map_sum id (apsnd (apfst g)) r) = map_sum id (apfst g) (drop_ret r)"
  by (cases r) (auto simp: drop_ret_def)

lemma file_work_with_photos:
  assumes "clear (us_stdio us)" "\<not> names_photo p"
  shows "file_work env p (us_with_photos F us) = map_sum id (apfst (us_with_photos F)) (file_work env p us)"
    "file_work env p us = Inr (us', evs) \<Longrightarrow> clear (us_stdio us')"
proof -
  have name: "\<forall>fname. req_name p = Some fname \<longrightarrow> \<not> in_photo fname" if "cmd_id p = FILE_UPLOAD_OPEN_CMD"
    using assms(2) that by (auto simp: names_photo_def)
  note w = open_cmd_with_photos(1) [OF assms(1) name] data_cmd_with_photos(1) [OF assms(1)] close_cmd_with_photos(1)
  show "file_work env p (us_with_photos F us) = map_sum id (apfst (us_with_photos F)) (file_work env p us)"
    by (auto simp: csp_file_work_def Let_def w drop_ret_with_photos)
  note c = open_cmd_with_photos(2) [OF assms(1) name] data_cmd_with_photos(2) [OF assms(1)] close_cmd_with_photos(2) [OF assms(1)]
  show "file_work env p us = Inr (us', evs) \<Longrightarrow> clear (us_stdio us')"
    by (cases rule: file_work_cases [of p env us]) (use c assms(1) in \<open>auto simp: drop_ret_Inr\<close>)
qed

section \<open>The two models agree\<close>

abbreviation dm_with_photos :: "(bytes \<rightharpoonup> bytes) \<Rightarrow> daemon \<Rightarrow> daemon" where
  "dm_with_photos F d \<equiv> on_disk (with_photos F) d"

abbreviation clear_disk :: "daemon \<Rightarrow> bool" where
  "clear_disk d \<equiv> clear (us_stdio (dm_upload d))"

lemma on_disk_simps [simp]:
  "dm_file_queue (on_disk f d) = dm_file_queue d" "dm_shell_queue (on_disk f d) = dm_shell_queue d"
  "dm_seq_number (on_disk f d) = dm_seq_number d" "dm_cam (on_disk f d) = dm_cam d"
  "dm_upload (on_disk f d) = (dm_upload d)\<lparr>us_stdio := f (us_stdio (dm_upload d))\<rparr>"
  "on_disk f (on_disk g d) = on_disk (f \<circ> g) d"
  by (simp_all add: on_disk_def)

lemma dm_with_own_photos [simp]: "dm_with_photos (st_fs (us_stdio (dm_upload d))) d = d"
  by (simp add: on_disk_def)

text \<open>What the turns of the server and of other programs make of the files in the photo directory.\<close>

fun photos_step :: "(string \<Rightarrow> bytes) \<Rightarrow> turn \<Rightarrow> cam_state \<Rightarrow> cam_state \<Rightarrow> (bytes \<rightharpoonup> bytes) \<Rightarrow> (bytes \<rightharpoonup> bytes)" where
  "photos_step img (Photos dir) cs cs' F = photos_after img (lacking (entries cs) (entries cs')) (lacking (entries cs') (entries cs)) F"
| "photos_step img t cs cs' F = photos_after img (lacking (entries cs) (entries cs')) [] F"

fun photos_run :: "(string \<Rightarrow> bytes) \<Rightarrow> turn list \<Rightarrow> cam_state \<Rightarrow> (bytes \<rightharpoonup> bytes) \<Rightarrow> (bytes \<rightharpoonup> bytes)" where
  "photos_run img [] cs F = F"
| "photos_run img (t # ts) cs F =
     (case daemon_step t (cam_daemon cs) of
        Inl flt \<Rightarrow> F
      | Inr (d, evs) \<Rightarrow> photos_run img ts (dm_cam d) (photos_step img t cs (dm_cam d) F))"

lemma entry_of_NUL: "entry_of (0 # path) = None"
proof -
  obtain rest where r: "photo_prefix = 47 # rest" by (simp add: photo_prefix_def CAM_FRAME_PATH_def str_bytes_def)
  have "take (length photo_prefix) (0 # path) \<noteq> photo_prefix" unfolding r by simp
  then show ?thesis by (simp add: entry_of_def Let_def)
qed

lemma goes_in_photo: "goes gone path \<Longrightarrow> in_photo path"
  by (auto simp: goes_def split: option.splits)

lemma is_open_clear: "clear st \<Longrightarrow> in_photo path \<Longrightarrow> \<not> is_open path st"
  by (fastforce simp: is_open_def clear_def list_ex_iff split: option.splits)

text \<open>Where no file of the photo directory is open, files just go and come.\<close>

lemma relink_clear:
  assumes "clear st"
  shows "relink k img gone new (with_photos F st) = with_photos (photos_after img gone new F) st"
proof -
  have no: "\<not> (goes gone old \<and> is_open old (with_photos F st))" for old
    using goes_in_photo is_open_clear [of "with_photos F st" old] assms by auto
  have orphans: "orphan_of k path = Some old \<Longrightarrow> entry_of path = None" for path old
    by (cases path) (auto simp: orphan_of_def entry_of_NUL split: if_splits)
  have fs: "st_fs (relink k img gone new (with_photos F st)) = st_fs (with_photos (photos_after img gone new F) st)"
    using no by (auto simp: relink_def with_photos_def photos_after_def fun_eq_iff orphans split: option.split)
  have "st_open (relink k img gone new (with_photos F st)) h = st_open st h" for h
    using clearD [OF assms, of h] by (cases "st_open st h") (auto simp: relink_def goes_def)
  with fs show ?thesis
    by (intro stdio.equality) (simp_all add: fun_eq_iff relink_def)
qed

lemma open_entries_clear: "clear (us_stdio us) \<Longrightarrow> open_entries us = []"
proof -
  assume c: "clear (us_stdio us)"
  have "(\<lambda>i. case se_file (sessions us ! i) of None \<Rightarrow> None
      | Some h \<Rightarrow> (case st_open (us_stdio us) h of None \<Rightarrow> None | Some f \<Rightarrow> entry_of (f_path f))) = (\<lambda>i. None)"
    using clearD [OF c] by (auto simp: fun_eq_iff split: option.split)
  then show ?thesis by (simp add: open_entries_def List.map_filter_def)
qed

lemma dispatch_with_photos:
  "dispatch_packet env dport p (dm_with_photos F d) = map_sum id (apfst (dm_with_photos F)) (dispatch_packet env dport p d)"
  by (auto simp: dispatch_packet_def on_disk_def case_prod_beta split: sum.split)

text \<open>One turn: the disk with the photo directory \<open>F\<close> follows the model of the threads.\<close>

lemma shared_step_agrees:
  assumes "clear_disk d" "\<forall>p \<in> set (dm_file_queue d). \<not> names_photo p" "daemon_step t d = Inr (d1, evs)"
  shows "daemon_step t (dm_with_photos F d) = Inr (dm_with_photos F d1, evs)"
    and "follow img k t (dm_cam d) (dm_with_photos F d1) =
      dm_with_photos (if is_serve t then photos_step img t (dm_cam d) (dm_cam d1) F else F) d1"
    and "clear_disk d1"
proof -
  show "daemon_step t (dm_with_photos F d) = Inr (dm_with_photos F d1, evs)"
  proof (cases t)
    case (File_turn env)
    with assms file_work_with_photos(1) [of "dm_upload d" _ env F] show ?thesis
      by (auto simp: worker_turns on_disk_def split: list.splits sum.splits)
  next
    case (Serve env dport p)
    with assms(3) show ?thesis by (auto simp: dispatch_with_photos split: sum.splits)
  next
    case (Shell_turn env)
    with assms(3) show ?thesis by (auto simp: on_disk_def split: sum.splits)
  next
    case (Photos dir)
    with assms(3) show ?thesis by (auto simp: on_disk_def)
  qed
  show c: "clear_disk d1"
  proof (cases t)
    case (File_turn env)
    with assms file_work_with_photos(2) [of "dm_upload d" _ env] show ?thesis
      by (auto simp: worker_turns split: list.splits sum.splits)
  next
    case (Serve env dport p)
    with assms(1,3) serve_turn [of env dport p d d1 evs] show ?thesis by simp
  next
    case (Shell_turn env)
    with assms(1,3) shell_turn_frame [of env d d1 evs] show ?thesis by simp
  qed (use assms in auto)
  show "follow img k t (dm_cam d) (dm_with_photos F d1) =
      dm_with_photos (if is_serve t then photos_step img t (dm_cam d) (dm_cam d1) F else F) d1"
    by (cases t) (simp_all add: relink_clear [OF c] on_disk_def list_entries_def open_entries_clear [of "us_with_photos F (dm_upload d1)"] c
        option.map_ident)
qed

text \<open>A schedule keeps off the photo directory when none of its transfers is for a file in it.\<close>

definition keeps_off_photos :: "turn list \<Rightarrow> daemon \<Rightarrow> bool" where
  "keeps_off_photos ts d \<longleftrightarrow> clear_disk d
     \<and> (\<forall>p \<in> set (dm_file_queue d @ List.map_filter (arrival_on PORT_FILE) ts). \<not> names_photo p)"

lemma keeps_off_step:
  assumes "keeps_off_photos (t # ts) d" "daemon_step t d = Inr (d1, evs)"
  shows "keeps_off_photos ts d1"
proof -
  have off: "clear_disk d" "\<forall>p \<in> set (dm_file_queue d). \<not> names_photo p"
    "\<forall>p \<in> set (List.map_filter (arrival_on PORT_FILE) (t # ts)). \<not> names_photo p"
    using assms(1) by (auto simp: keeps_off_photos_def)
  have "set (dm_file_queue d1) \<subseteq> set (dm_file_queue d) \<union> set (List.map_filter (arrival_on PORT_FILE) [t])"
  proof (cases "file_taker t")
    case None
    with file_view.other_turn [OF None assms(2)] show ?thesis by (auto simp: List.map_filter_simps split: option.splits)
  next
    case (Some e)
    with file_view.idle_turn [OF Some _ assms(2)] file_view.work_turn [OF Some _ assms(2)] show ?thesis
      by (cases "dm_file_queue d") auto
  qed
  with off shared_step_agrees(3) [OF off(1,2) assms(2)] show ?thesis
    by (auto simp: keeps_off_photos_def List.map_filter_simps split: option.splits)
qed

lemma photos_run_step:
  assumes "daemon_step t d = Inr (d1, evs)"
  shows "photos_run img (filter is_serve (t # ts)) (dm_cam d) F =
    photos_run img (filter is_serve ts) (dm_cam d1) (if is_serve t then photos_step img t (dm_cam d) (dm_cam d1) F else F)"
proof (cases t)
  case (Serve env dport p)
  from serve_cam_only [OF assms [unfolded Serve]] obtain d'' where
    "daemon_step t (cam_daemon (dm_cam d)) = Inr (d'', evs)" "dm_cam d'' = dm_cam d1" by (auto simp: Serve)
  then show ?thesis by (simp add: Serve del: daemon_step.simps)
next
  case (File_turn env)
  with assms file_turn_frame [of env d d1 evs] show ?thesis by simp
next
  case (Shell_turn env)
  with assms shell_turn_frame [of env d d1 evs] show ?thesis by simp
next
  case (Photos dir)
  with assms show ?thesis by (auto simp: cam_daemon_def)
qed

lemma who_with_photos [simp]: "who t (dm_with_photos F d) = who t d"
  by (cases t) simp_all

text \<open>A run on the one disk is a run of the threads whose transfers have their own disk, and what the
  server and the other programs make of the photo directory.\<close>

lemma shared_run_agrees:
  assumes "keeps_off_photos ts d"
  shows "shared_run img k ts (dm_with_photos F d) =
    (case daemon_run ts d of
       Inl flt \<Rightarrow> Inl flt
     | Inr (d', tr) \<Rightarrow> Inr (dm_with_photos (photos_run img (filter is_serve ts) (dm_cam d) F) d', tr))"
  using assms
proof (induction ts arbitrary: d k F)
  case (Cons t ts)
  from Cons.prems have off: "clear_disk d" "\<forall>p \<in> set (dm_file_queue d). \<not> names_photo p"
    by (auto simp: keeps_off_photos_def)
  show ?case
  proof (cases "daemon_step t d")
    case (Inl flt)
    moreover have "daemon_step t (dm_with_photos F d) = Inl flt"
    proof (cases t)
      case (File_turn env)
      with Inl off file_work_with_photos(1) [of "dm_upload d" _ env F] show ?thesis
        by (auto simp: worker_turns split: list.splits sum.splits)
    next
      case (Serve env dport p)
      with Inl show ?thesis by (auto simp: dispatch_with_photos split: sum.splits)
    next
      case (Shell_turn env)
      with Inl show ?thesis by (auto split: sum.splits)
    qed (use Inl in simp)
    ultimately show ?thesis by simp
  next
    case (Inr x)
    obtain d1 evs where s: "daemon_step t d = Inr (d1, evs)" using Inr by (cases x) simp
    note agree = shared_step_agrees [OF off s]
    note IH = Cons.IH [OF keeps_off_step [OF Cons.prems s]]
    show ?thesis
      by (simp only: shared_run.simps daemon_run.simps agree s sum.case prod.case IH on_disk_simps(4) who_with_photos
          photos_run_step [OF s]) (auto split: sum.split)
  qed
qed simp

section \<open>The turns of each thread\<close>









section \<open>INIT and the transfers\<close>

text \<open>Where the transfers do use the photo directory, INIT removes the files they put there: a frame is
  gone from the disk as from the directory, and a transfer that has it open writes on into a
  file that has no name any more.\<close>

lemma init_removes_uploaded_frames:
  assumes "pk_length p \<noteq> 0" "cmd_id p = HWTEST_INIT_PHOTO_DIR_CMD"
    and "ce_opendir (he_cam (sv_hw env))" "\<forall>path. ce_remove (he_cam (sv_hw env)) path"
    and "cam_dir (dm_cam d) = Some l" "\<forall>name \<in> set l. length name \<le> NAME_MAX"
    and "name \<in> set l" "is_frame name" "CHR ''/'' \<notin> set name"
    and "shared_run img k [Serve env PORT_HWTEST p] d = Inr (d', tr)"
  shows "name \<notin> set (entries (dm_cam d')) \<and> st_fs (us_stdio (dm_upload d')) (photo_path name) = None
    \<and> session_used (dm_upload d') = session_used (dm_upload d)
    \<and> st_open (us_stdio (dm_upload d')) = (\<lambda>h. map_option
         (\<lambda>f. if goes (filter is_frame l) (f_path f) then f\<lparr>f_path := orphan k (f_path f)\<rparr> else f)
         (st_open (us_stdio (dm_upload d)) h))"
proof -
  obtain cs evs where h: "hwtest_handler (sv_hw env) (Some p) (dm_cam d) = (cs, evs)" by fastforce
  from init_photo_dir_opened [OF assms(3,5,6)] assms(4) obtain es where
    i: "init_photo_dir (he_cam (sv_hw env)) (dm_cam d) = (0, (dm_cam d)\<lparr>cam_dir := Some (filter (\<lambda>n. \<not> is_frame n) l)\<rparr>, es)"
    by auto
  have cs: "cs = (dm_cam d)\<lparr>cam_dir := Some (filter (\<lambda>n. \<not> is_frame n) l)\<rparr>"
    using h assms(1,2) i
    by (cases rule: hwtest_handler_cases [of p "sv_hw env" "dm_cam d"]) (auto simp: init_photo_dir_service_def)
  have gone: "lacking l (filter (\<lambda>n. \<not> is_frame n) l) = filter is_frame l" by (rule filter_cong) auto
  have d': "d' = on_disk (relink k img (filter is_frame l) []) (d\<lparr>dm_cam := cs\<rparr>)"
    using assms(10) h gone by (simp add: dispatch_packet_def cs assms(5))
  have "name \<notin> {[], ''.'', ''..''}" using assms(8) by (auto simp: is_frame_def CAM_FRAME_PREFIX_def)
  from entry_of_photo_path [OF this assms(9)] have entry: "entry_of (photo_path name) = Some name" .
  then have "orphan_of k (photo_path name) = None"
    by (auto simp: orphan_of_def str_bytes_def CAM_FRAME_PATH_def)
  with entry assms(7,8) have "st_fs (us_stdio (dm_upload d')) (photo_path name) = None"
    by (simp add: d' relink_def photos_after_def)
  then show ?thesis using assms(8) by (simp add: d' cs relink_def)
qed

text \<open>The files that a transfer has open in the photo directory are entries of it.\<close>

lemma open_entries_listed:
  assumes "upload_inv us" "sp_sess (upload_abs us) sid = Some (photo_path name)"
    and "entry_of (photo_path name) = Some name"
  shows "name \<in> set (open_entries us)"
proof -
  from assms(2) obtain i where i: "search_used_session sid us = Some i" "se_fname (sessions us ! i) = photo_path name"
    by (auto simp: upload_abs_sess)
  then have "i \<in> set (session_used us)" using search_used_Some by blast
  moreover from upload_inv_file [OF assms(1) this] obtain h pos where
    "se_file (sessions us ! i) = Some h" "st_open (us_stdio us) h = Some \<lparr>f_path = photo_path name, f_pos = pos\<rparr>"
    unfolding i(2) .
  ultimately show ?thesis using assms(3) by (force simp: open_entries_def List.map_filter_def)
qed

text \<open>So the order does matter there: an INIT after the OPEN for a frame removes its file and leaves the
  transfer open; what it still writes is lost.\<close>

lemma init_loses_open_transfer:
  assumes inv: "upload_inv (dm_upload d)" "sp_sess (upload_abs (dm_upload d)) sid = None" "session_unused (dm_upload d) \<noteq> []"
    and po: "carries po (open_payload sid (photo_path name))" "good_env fenv" "dm_file_queue d = po # q"
    and name: "is_frame name" "CHR ''/'' \<notin> set name" "0 \<notin> set (photo_path name)" "length (photo_path name) < FILE_NAME_MAX_LEN"
    and dir: "cam_dir (dm_cam d) = Some l" "\<forall>name \<in> set (l @ open_entries us). length name \<le> NAME_MAX"
    and step: "file_work fenv po (dm_upload d) = Inr (us, evs)"
    and init: "pk_length p \<noteq> 0" "cmd_id p = HWTEST_INIT_PHOTO_DIR_CMD"
      "ce_opendir (he_cam (sv_hw env))" "\<forall>path. ce_remove (he_cam (sv_hw env)) path"
    and run: "shared_run img k [File_turn fenv, Serve env PORT_HWTEST p] d = Inr (d', tr)"
  shows "st_fs (us_stdio us) (photo_path name) \<noteq> None
    \<and> st_fs (us_stdio (dm_upload d')) (photo_path name) = None
    \<and> sp_sess (upload_abs (dm_upload d')) sid = Some (photo_path name)"
proof -
  have entry: "entry_of (photo_path name) = Some name"
    using name(1,2) by (intro entry_of_photo_path) (auto simp: is_frame_def CAM_FRAME_PREFIX_def)
  from step_open [OF inv(1) po(1) name(3,4) po(2) inv(2,3)] obtain us1 evs1 where
    "file_work fenv po (dm_upload d) = Inr (us1, evs1)" and us1: "upload_inv us1"
    "upload_abs us1 = \<lparr>sp_sess = (sp_sess (upload_abs (dm_upload d)))(sid \<mapsto> photo_path name),
       sp_fs = (sp_fs (upload_abs (dm_upload d)))(photo_path name \<mapsto> sp_contents (upload_abs (dm_upload d)) (photo_path name))\<rparr>" .
  with step have "us = us1" by simp
  with us1 have us: "upload_inv us" "sp_sess (upload_abs us) sid = Some (photo_path name)"
    "sp_fs (upload_abs us) (photo_path name) \<noteq> None" by simp_all
  let ?d = "d\<lparr>dm_file_queue := q, dm_upload := us\<rparr>"
  let ?d1 = "list_entries (open_entries us) ?d"
  have "daemon_step (File_turn fenv) d = Inr (?d, evs)" using po(3) step by (simp add: worker_turns)
  with run obtain tr1 where r: "shared_run img (Suc k) [Serve env PORT_HWTEST p] ?d1 = Inr (d', tr1)"
    by (auto simp del: daemon_step.simps split: sum.splits)
  have listed: "cam_dir (dm_cam ?d1) = Some (l @ lacking (open_entries us) l)" using dir(1) by (simp add: list_entries_def)
  have "name \<in> set (l @ lacking (open_entries us) l)" using open_entries_listed [OF us(1,2) entry] by auto
  from init_removes_uploaded_frames [OF init listed _ this name(1,2) r] dir(2) have
    "st_fs (us_stdio (dm_upload d')) (photo_path name) = None" by auto
  moreover have "session_used (dm_upload d') = session_used us \<and> sessions (dm_upload d') = sessions us"
    using r by (auto simp: dispatch_packet_def list_entries_def Let_def split: prod.splits)
  then have "sp_sess (upload_abs (dm_upload d')) sid = Some (photo_path name)"
    using us(2) by (simp add: upload_abs_sess search_used_session_def)
  ultimately show ?thesis using us(3) by (simp add: upload_abs_fs)
qed

section \<open>Properties\<close>


text \<open>An upload, and an INIT that removes a frame of the camera, with an eager and a lazy worker.\<close>

definition photos_at_start :: turn where
  "photos_at_start = Photos (Some [''.'', ''..'', ''frame-001.bin''])"

definition p_init :: csp_packet where
  "p_init = mk_packet 4 [1]"

definition sched_now :: "turn list" where
  "sched_now = [photos_at_start, Serve srv_ok PORT_FILE p_open, File_turn env_ok, Serve srv_ok PORT_HWTEST p_init,
     Serve srv_ok PORT_FILE p_data, File_turn env_ok]"



lemma sched_now_keeps_off: "keeps_off_photos sched_now d_start"
proof -
  have "clear_disk d_start" by (simp add: clear_def d_start_def us_start_eq upload_statics_def)
  moreover have "\<not> names_photo p_open" "\<not> names_photo p_data" by code_simp+
  ultimately show ?thesis
    by (simp add: keeps_off_photos_def sched_now_def photos_at_start_def d_start_def List.map_filter_simps)
qed

lemma sched_now_runs: "\<exists>d' tr. shared_run img k sched_now d_start = Inr (d', tr)"
proof -
  have "safe (run_work file_work [(env_ok, p_open), (env_ok, p_data)] us_start)"
    using file_work_drains [OF us_start_inv, of "[(env_ok, p_open), (env_ok, p_data)]"]
    by (auto simp: safe_def wf_examples fits_examples)
  moreover have "fst (file_jobs sched_now []) = [(env_ok, p_open), (env_ok, p_data)]" "fst (shell_jobs sched_now []) = []"
    by (simp_all add: sched_now_def photos_at_start_def)
  ultimately have "safe (daemon_run sched_now d_start)" by (simp add: daemon_run_safe d_start_def)
  then obtain d' tr where "daemon_run sched_now d_start = Inr (d', tr)" by (auto simp: safe_def)
  with shared_run_agrees [OF sched_now_keeps_off, of img k "st_fs (us_stdio (dm_upload d_start))"] show ?thesis by simp
qed


text \<open>C7: The file service is isolated, on the one disk: as long as no transfer is for a file in the photo
  directory, take everything out of a schedule but the packets for the file port and the turns
  of the file worker, the INIT commands and the camera programs as well, and the transfers, the
  queue, and the files outside the photo directory end up the same, and the worker makes the
  same calls. (What a command that the shell worker starts does to the files is not the daemon's
  doing.)\<close>

theorem file_service_isolated:
  assumes "keeps_off_photos ts d" "shared_run img k ts d = Inr (d', tr)"
  shows "\<exists>d'' tr''. shared_run img k' (filter touches_files ts) d = Inr (d'', tr'')
    \<and> us_with_photos Map.empty (dm_upload d'') = us_with_photos Map.empty (dm_upload d')
    \<and> dm_file_queue d'' = dm_file_queue d'
    \<and> events_of File_worker tr'' = events_of File_worker tr"
proof -
  let ?fs = "filter touches_files ts"
  note agree = shared_run_agrees [where F = "st_fs (us_stdio (dm_upload d))" and d = d, unfolded dm_with_own_photos]
  have "List.map_filter (arrival_on PORT_FILE) ?fs = List.map_filter (arrival_on PORT_FILE) ts"
  proof (induction ts)
    case (Cons t ts)
    then show ?case by (cases t) (simp_all add: List.map_filter_simps)
  qed simp
  then have off: "keeps_off_photos ?fs d" using assms(1) by (simp add: keeps_off_photos_def)
  from assms(2) agree [OF assms(1), of img k] obtain e where
    e: "daemon_run ts d = Inr (e, tr)" and d': "us_with_photos Map.empty (dm_upload d') = us_with_photos Map.empty (dm_upload e)"
      "dm_file_queue d' = dm_file_queue e"
    by (auto split: sum.splits)
  from file_turns_suffice [OF e] obtain e' tr'' where
    e': "daemon_run ?fs d = Inr (e', tr'')" "dm_upload e' = dm_upload e" "dm_file_queue e' = dm_file_queue e"
      "events_of File_worker tr'' = events_of File_worker tr" by blast
  with agree [OF off, of img k'] d' show ?thesis by simp
qed

lemma file_service_isolated_witness:
  "\<exists>d' tr d'' tr''. shared_run (\<lambda>_. [1]) 0 sched_now d_start = Inr (d', tr)
    \<and> shared_run (\<lambda>_. [1]) 0 (filter touches_files sched_now) d_start = Inr (d'', tr'')
    \<and> us_with_photos Map.empty (dm_upload d'') = us_with_photos Map.empty (dm_upload d')
    \<and> events_of File_worker tr'' = events_of File_worker tr"
proof -
  obtain d' tr where r: "shared_run (\<lambda>_. [1]) 0 sched_now d_start = Inr (d', tr)" using sched_now_runs by blast
  from file_service_isolated [OF sched_now_keeps_off r, of 0] r show ?thesis by blast
qed

end
