(* ===== verification/Replies.thy ===== *)
theory Replies
  imports Schedule
begin

text \<open>
  A type for what the daemon transmits: one constructor per packed struct of the headers. Which
  of them may answer a request depends on its port and its command: \<open>answers port p t\<close>. A packet
  answers a request when its payload is exactly the image of such a telemetry, with the length of
  the struct; the frame count, whose length field the code does not set, is the data of the
  request with the image written over its first three bytes, and has the length of the request.
\<close>

section \<open>Telemetry\<close>

datatype telemetry =
    Open_tlm upload_open_reply_telemetry
  | Data_tlm upload_data_reply_telemetry
  | Close_tlm upload_close_reply_telemetry
  | File_err_tlm file_err_reply_telemetry
  | Shell_err_tlm shell_err_reply_telemetry
  | Shell_cmd_tlm shell_cmd_reply_telemetry
  | System_err_tlm system_err_telemetry
  | Version_tlm system_version_telemetry
  | Frame_count_tlm hwtest_cam_telemetry
  | Temp_tlm hwtest_temp_telemetry

text \<open>The memory image, the size of the struct, and the lengths of the arrays in it.\<close>

fun tlm_image :: "telemetry \<Rightarrow> bytes" where
  "tlm_image (Open_tlm t) = open_reply_image t"
| "tlm_image (Data_tlm t) = data_reply_image t"
| "tlm_image (Close_tlm t) = close_reply_image t"
| "tlm_image (File_err_tlm t) = file_err_image t"
| "tlm_image (Shell_err_tlm t) = shell_err_image t"
| "tlm_image (Shell_cmd_tlm t) = shell_cmd_image t"
| "tlm_image (System_err_tlm t) = system_err_image t"
| "tlm_image (Version_tlm t) = system_version_image t"
| "tlm_image (Frame_count_tlm t) = cam_image t"
| "tlm_image (Temp_tlm t) = temp_image t"

fun tlm_size :: "telemetry \<Rightarrow> nat" where
  "tlm_size (Open_tlm t) = 71"
| "tlm_size (Data_tlm t) = 243"
| "tlm_size (Close_tlm t) = 7"
| "tlm_size (File_err_tlm t) = 5"
| "tlm_size (Shell_err_tlm t) = 5"
| "tlm_size (Shell_cmd_tlm t) = 249"
| "tlm_size (System_err_tlm t) = 5"
| "tlm_size (Version_tlm t) = 21"
| "tlm_size (Frame_count_tlm t) = 3"
| "tlm_size (Temp_tlm t) = 3"

fun tlm_ok :: "telemetry \<Rightarrow> bool" where
  "tlm_ok (Open_tlm t) \<longleftrightarrow> length (uo_file_name t) = FILE_NAME_MAX_LEN"
| "tlm_ok (Data_tlm t) \<longleftrightarrow> length (ud_entry t) = UPLOAD_DATA_REPLY_ENTRY"
| "tlm_ok (Shell_cmd_tlm t) \<longleftrightarrow> length (hr_result t) = SHELL_RESULT_BUF_SIZE"
| "tlm_ok (Version_tlm t) \<longleftrightarrow> length (sv_version t) = SYSTEM_VERSION_STR_SIZE"
| "tlm_ok t \<longleftrightarrow> True"

lemma length_tlm_image: "tlm_ok t \<Longrightarrow> length (tlm_image t) = tlm_size t"
  by (cases t)
    (simp_all add: open_reply.len_image data_reply.len_image close_reply.len_image file_err.len_image
      shell_err.len_image shell_cmd.len_image system_err.len_image system_version.len_image
      cam.len_image temp.len_image)

lemma tlm_size_fits: "tlm_size t \<le> CSP_BUFFER_SIZE"
  by (cases t) simp_all

text \<open>The telemetry that answers a request \<open>p\<close> on a port: the struct of its command, with the command
  as its telemetry id, or the error struct with the id 255 where there is no such command.\<close>

fun answers :: "nat \<Rightarrow> csp_packet \<Rightarrow> telemetry \<Rightarrow> bool" where
  "answers port p (Open_tlm t) \<longleftrightarrow> port = PORT_FILE \<and> pk_length p \<noteq> 0 \<and> cmd_id p = FILE_UPLOAD_OPEN_CMD
     \<and> uo_telemetry_id t = FILE_UPLOAD_OPEN_CMD"
| "answers port p (Data_tlm t) \<longleftrightarrow> port = PORT_FILE \<and> pk_length p \<noteq> 0 \<and> cmd_id p = FILE_UPLOAD_DATA_CMD
     \<and> ud_telemetry_id t = FILE_UPLOAD_DATA_CMD"
| "answers port p (Close_tlm t) \<longleftrightarrow> port = PORT_FILE \<and> pk_length p \<noteq> 0 \<and> cmd_id p = FILE_UPLOAD_CLOSE_CMD
     \<and> uc_telemetry_id t = FILE_UPLOAD_CLOSE_CMD"
| "answers port p (File_err_tlm t) \<longleftrightarrow> port = PORT_FILE
     \<and> (pk_length p = 0 \<or> cmd_id p \<notin> {FILE_UPLOAD_OPEN_CMD, FILE_UPLOAD_DATA_CMD, FILE_UPLOAD_CLOSE_CMD})
     \<and> fe_telemetry_id t = CSP_UNKNOWN_COMMAND_ID"
| "answers port p (Shell_err_tlm t) \<longleftrightarrow> port = PORT_SHELL \<and> \<not> is_shell_cmd p
     \<and> he_telemetry_id t = CSP_UNKNOWN_COMMAND_ID"
| "answers port p (Shell_cmd_tlm t) \<longleftrightarrow> port = PORT_SHELL \<and> is_shell_cmd p \<and> hr_telemetry_id t = SHELL_CMD"
| "answers port p (System_err_tlm t) \<longleftrightarrow> port = PORT_SYSTEM \<and> \<not> is_version_cmd p
     \<and> se_telemetry_id t = CSP_UNKNOWN_COMMAND_ID"
| "answers port p (Version_tlm t) \<longleftrightarrow> port = PORT_SYSTEM \<and> is_version_cmd p
     \<and> sv_telemetry_id t = SYSTEM_GET_VER_CMD"
| "answers port p (Frame_count_tlm t) \<longleftrightarrow> port = PORT_HWTEST \<and> pk_length p \<noteq> 0
     \<and> cmd_id p = HWTEST_GET_FRAME_COUNT_CMD \<and> hc_telemetry_id t = HWTEST_GET_FRAME_COUNT_CMD"
| "answers port p (Temp_tlm t) \<longleftrightarrow> port = PORT_HWTEST \<and> pk_length p \<noteq> 0
     \<and> cmd_id p = HWTEST_GET_TEMP_CMD \<and> ht_telemetry_id t = HWTEST_GET_TEMP_CMD"

text \<open>The packet \<open>q\<close> that transmits the telemetry.\<close>

fun transmits :: "csp_packet \<Rightarrow> telemetry \<Rightarrow> csp_packet \<Rightarrow> bool" where
  "transmits p (Frame_count_tlm t) q \<longleftrightarrow>
     pk_length q = pk_length p \<and> pk_data q = cam_image t @ drop 3 (pk_data p)"
| "transmits p t q \<longleftrightarrow> pk_length q = of_nat (tlm_size t) \<and> payload q = tlm_image t"

definition reply_to :: "nat \<Rightarrow> csp_packet \<Rightarrow> csp_packet \<Rightarrow> bool" where
  "reply_to port p q \<longleftrightarrow> wf_packet q \<and> (\<exists>t. answers port p t \<and> tlm_ok t \<and> transmits p t q)"

text \<open>Every send of a reply is one of these two.\<close>

lemma replies_payload:
  assumes "wf_packet p'" "tlm_ok t" "answers port p t" "\<forall>c. t \<noteq> Frame_count_tlm c"
  shows "reply_to port p (put_payload p' (tlm_image t))"
proof -
  note l = length_tlm_image [OF assms(2)] tlm_size_fits [of t]
  have "wf_packet (put_payload p' (tlm_image t))" using assms(1) l by (simp add: wf_put_payload)
  moreover have "payload (put_payload p' (tlm_image t)) = tlm_image t" using l by (simp add: payload_put_payload)
  then have "transmits p t (put_payload p' (tlm_image t))"
    using assms(4) l(1) by (cases t) simp_all
  ultimately show ?thesis using assms(2,3) unfolding reply_to_def by blast
qed

lemma replies_count:
  assumes "wf_packet p" "answers port p (Frame_count_tlm t)"
  shows "reply_to port p (put_data p (cam_image t))"
proof -
  have "length (cam_image t) = 3" by (rule cam.len_image) simp
  with assms(1) have "transmits p (Frame_count_tlm t) (put_data p (cam_image t))" "wf_packet (put_data p (cam_image t))"
    by (simp_all add: wf_packet_def)
  with assms(2) show ?thesis unfolding reply_to_def by (intro conjI exI [of _ "Frame_count_tlm t"]) simp_all
qed

lemmas typed_replies =
  replies_payload [of _ "Open_tlm t" for t, simplified] replies_payload [of _ "Data_tlm t" for t, simplified]
  replies_payload [of _ "Close_tlm t" for t, simplified] replies_payload [of _ "File_err_tlm t" for t, simplified]
  replies_payload [of _ "Shell_err_tlm t" for t, simplified] replies_payload [of _ "Shell_cmd_tlm t" for t, simplified]
  replies_payload [of _ "System_err_tlm t" for t, simplified] replies_payload [of _ "Version_tlm t" for t, simplified]
  replies_payload [of _ "Temp_tlm t" for t, simplified] replies_count [simplified]

definition sends_typed :: "nat \<Rightarrow> csp_packet \<Rightarrow> event list \<Rightarrow> bool" where
  "sends_typed port p evs \<longleftrightarrow> (\<forall>q \<in> set (sent evs). reply_to port p q)"

lemma sends_typed_append [simp]: "sends_typed port p (xs @ ys) \<longleftrightarrow> sends_typed port p xs \<and> sends_typed port p ys"
  by (auto simp: sends_typed_def)

lemma sends_typed_simps [simp]:
  "sends_typed port p []" "sends_typed port p (Ev_reply q # es) \<longleftrightarrow> reply_to port p q \<and> sends_typed port p es"
  "sends_typed port p (Ev_free a # es) \<longleftrightarrow> sends_typed port p es" "sends_typed port p (Ev_service q # es) \<longleftrightarrow> sends_typed port p es"
  "sends_typed port p (Ev_read a # es) \<longleftrightarrow> sends_typed port p es" "sends_typed port p (Ev_clone a b # es) \<longleftrightarrow> sends_typed port p es"
  "sends_typed port p (Ev_sleep n # es) \<longleftrightarrow> sends_typed port p es" "sends_typed port p (Ev_usleep n # es) \<longleftrightarrow> sends_typed port p es"
  "sends_typed port p (Ev_popen c # es) \<longleftrightarrow> sends_typed port p es" "sends_typed port p (Ev_pclose # es) \<longleftrightarrow> sends_typed port p es"
  "sends_typed port p (Ev_open a # es) \<longleftrightarrow> sends_typed port p es" "sends_typed port p (Ev_close a # es) \<longleftrightarrow> sends_typed port p es"
  "sends_typed port p (Ev_opendir d # es) \<longleftrightarrow> sends_typed port p es" "sends_typed port p (Ev_closedir # es) \<longleftrightarrow> sends_typed port p es"
  "sends_typed port p (Ev_mkdir d n # es) \<longleftrightarrow> sends_typed port p es" "sends_typed port p (Ev_remove f # es) \<longleftrightarrow> sends_typed port p es"
  "sends_typed port p (Ev_system cmd # es) \<longleftrightarrow> sends_typed port p es"
  by (simp_all add: sends_typed_def)

section \<open>The components\<close>

lemma upload_replies_typed:
  assumes "wf_packet p" "pk_length p \<noteq> 0"
  shows "cmd_id p = FILE_UPLOAD_OPEN_CMD \<Longrightarrow>
      sends_typed PORT_FILE p (send_upload_open_reply p FILE_UPLOAD_OPEN_CMD ret sid fname)"
    "cmd_id p = FILE_UPLOAD_CLOSE_CMD \<Longrightarrow>
      sends_typed PORT_FILE p (send_upload_close_reply p FILE_UPLOAD_CLOSE_CMD ret sid)"
    "cmd_id p = FILE_UPLOAD_DATA_CMD \<Longrightarrow>
      sends_typed PORT_FILE p (send_upload_data_err_reply junk p FILE_UPLOAD_DATA_CMD ret sid ofs sz)"
    "cmd_id p = FILE_UPLOAD_DATA_CMD \<Longrightarrow> length es \<le> UPLOAD_DATA_REPLY_ENTRY \<Longrightarrow>
      sends_typed PORT_FILE p (data_acks p FILE_UPLOAD_DATA_CMD sid es fl)"
  using assms
  by (auto simp: send_open_reply_eq send_close_reply_eq send_err_reply_eq data_acks_def
      open_reply_def close_reply_def data_reply_def pad_entries_def intro!: typed_replies)

lemma file_err_typed:
  assumes "wf_packet p"
    and "pk_length p = 0 \<or> cmd_id p \<notin> {FILE_UPLOAD_OPEN_CMD, FILE_UPLOAD_DATA_CMD, FILE_UPLOAD_CLOSE_CMD}"
  shows "sends_typed PORT_FILE p (send_err_reply p CSP_UNKNOWN_COMMAND_ID err)"
  using assms by (auto simp: send_err_reply_def intro!: typed_replies)

lemma file_work_typed:
  assumes "upload_inv us" "wf_packet p" "file_work env p us = Inr (us', evs)"
  shows "sends_typed PORT_FILE p evs"
proof (cases rule: file_work_cases [of p env us])
  case open_cmd
  with assms(3) obtain ret where r:
    "file_upload_open_cmd env FILE_UPLOAD_OPEN_CMD p us = Inr (ret, us', evs)"
    by (auto simp: drop_ret_Inr)
  from open_cmd(1) have "pk_length p \<noteq> 0" by auto
  note typed = upload_replies_typed(1) [OF assms(2) this open_cmd(2)]
  show ?thesis
    by (cases rule: open_cmd_cases [of p env FILE_UPLOAD_OPEN_CMD us]) (use r typed in auto)
next
  case data_cmd
  with assms(3) obtain ret where r:
    "file_upload_data_cmd env FILE_UPLOAD_DATA_CMD p us = Inr (ret, us', evs)"
    by (auto simp: drop_ret_Inr)
  from data_cmd(1) have "pk_length p \<noteq> 0" by auto
  note typed = upload_replies_typed(3,4) [OF assms(2) this data_cmd(2)]
  show ?thesis
    using assms(1,2)
  proof (cases rule: data_cmd_cases [of us p env FILE_UPLOAD_DATA_CMD])
    case (accepted i s st ret' es)
    have "batch_wf (sessions us ! i)"
      using accepted(4) upload_inv_used [OF assms(1)] upload_inv_batch [OF assms(1)] by auto
    then have "length es \<le> UPLOAD_DATA_REPLY_ENTRY"
      using accepted(6) by (simp add: length_pending batch_wf_def)
    with accepted r typed show ?thesis by auto
  qed (use r typed in auto)
next
  case close_cmd
  with assms(3) obtain ret where r:
    "file_upload_close_cmd env FILE_UPLOAD_CLOSE_CMD p us = Inr (ret, us', evs)"
    by (auto simp: drop_ret_Inr)
  from close_cmd(1) have "pk_length p \<noteq> 0" by auto
  note typed = upload_replies_typed(2) [OF assms(2) this close_cmd(2)]
  show ?thesis
    using assms(1)
    by (cases rule: close_cmd_cases [of us p env FILE_UPLOAD_CLOSE_CMD]) (use r typed in auto)
next
  case other
  with assms(3) file_err_typed [OF assms(2) other(1)] show ?thesis by auto
qed

lemma send_cmd_reply_typed:
  assumes "send_cmd_reply clone p SHELL_CMD err sq r = Inr evs" "wf_packet p" "is_shell_cmd p"
    "\<And>x. r = Some x \<Longrightarrow> length x = SHELL_RESULT_BUF_SIZE"
  shows "sends_typed PORT_SHELL p evs"
proof -
  have "wf_packet (p\<lparr>pk_ptr := a\<rparr>)" for a using assms(2) by (simp add: wf_packet_def)
  with assms(1,3,4) show ?thesis
    by (auto simp: send_cmd_reply_def split: option.splits intro!: typed_replies)
qed

lemma reply_run_typed:
  assumes "reply_run env p SHELL_CMD sq k xs = Inr evs" "wf_packet p" "is_shell_cmd p" "\<forall>x \<in> set xs. length x \<le> SHELL_RESULT_BUF_SIZE"
  shows "sends_typed PORT_SHELL p evs"
  using assms(1,4)
proof (induction xs arbitrary: k evs)
  case (Cons x xs)
  from Cons.prems(1) obtain evs1 evs2 where
    s: "send_cmd_reply (sh_clone env k) p SHELL_CMD 0 sq (Some (pad240 x)) = Inr evs1"
    and r: "reply_run env p SHELL_CMD sq (Suc k) xs = Inr evs2"
    and evs: "evs = evs1 @ [Ev_sleep SHELL_CMD_REPLY_INTERVAL_SEC] @ evs2"
    by (auto simp: seq_Inr)
  have "length (pad240 x) = SHELL_RESULT_BUF_SIZE" using Cons.prems(2) by simp
  with send_cmd_reply_typed [OF s assms(2,3)] have "sends_typed PORT_SHELL p evs1" by blast
  moreover have "sends_typed PORT_SHELL p evs2" using Cons.IH [OF r] Cons.prems(2) by simp
  ultimately show ?case by (simp add: evs)
qed simp

lemma shell_cmd_loop_typed:
  assumes "shell_cmd_loop env p SHELL_CMD sq 0 (replicate SHELL_RESULT_BUF_SIZE 0) out = Inr evs" "wf_packet p" "is_shell_cmd p"
  shows "sends_typed PORT_SHELL p evs"
proof (cases "out = []")
  case True
  have "length (pad240 (str_bytes ''No output'')) = SHELL_RESULT_BUF_SIZE" by simp
  with send_cmd_reply_typed [OF assms(1) [unfolded True shell_cmd_loop_empty] assms(2,3)]
  show ?thesis by blast
next
  case False
  have "x \<in> set (take k (pieces SHELL_RESULT_BUF_SIZE out)) \<Longrightarrow> length x \<le> SHELL_RESULT_BUF_SIZE" for x k
    by (auto dest!: in_set_takeD pieces_lengths)
  with False assms show ?thesis by (subst (asm) shell_cmd_loop_run) (auto elim!: reply_run_typed)
qed

lemma shell_cmd_end_typed:
  assumes "shell_cmd_end env p SHELL_CMD sq ret pre = Inr (sq', evs)" "wf_packet p" "is_shell_cmd p" "sends_typed PORT_SHELL p pre"
  shows "sends_typed PORT_SHELL p evs"
proof (cases "ret < 0")
  case True
  with assms(1) obtain err where "send_cmd_reply (sh_clone env 0) p SHELL_CMD ret sq None = Inr err"
    "evs = pre @ err @ [Ev_free (pk_ptr p)]" by (auto simp: shell_cmd_end_def seq_Inr)
  with send_cmd_reply_typed [OF this(1) assms(2,3)] assms(4) show ?thesis by simp
next
  case False
  with assms show ?thesis by (auto simp: shell_cmd_end_def)
qed

lemma shell_work_typed:
  assumes "shell_work env p sq = Inr (sq', evs)" "wf_packet p"
  shows "sends_typed PORT_SHELL p evs"
proof (cases "is_shell_cmd p")
  case True
  with assms(1) have c: "shell_cmd env SHELL_CMD p sq = Inr (sq', evs)" by (simp add: shell_work_cmd)
  show ?thesis
  proof (cases rule: shell_cmd_cases [of p env SHELL_CMD sq])
    case overrun
    with c show ?thesis by simp
  next
    case (failed err)
    have "sends_typed PORT_SHELL p (promised_pipe env p)" by (simp add: promised_pipe_def)
    moreover have "shell_cmd_end env p SHELL_CMD sq err (promised_pipe env p) = Inr (sq', evs)"
      using failed(4) c by simp
    ultimately show ?thesis using shell_cmd_end_typed [OF _ assms(2) True] by blast
  next
    case (ran cmd)
    with c obtain es where
      "shell_cmd_loop env p SHELL_CMD sq 0 (replicate SHELL_RESULT_BUF_SIZE 0) (sh_output env) = Inr es"
      "evs = [Ev_popen cmd] @ es @ [Ev_pclose, Ev_free (pk_ptr p)]"
      by (auto simp only: seq_Inr Inr_inject prod.inject)
    with shell_cmd_loop_typed [OF this(1) assms(2) True] show ?thesis by simp
  qed
next
  case False
  with assms show ?thesis
    by (auto simp: shell_work_other send_shell_err_reply_def intro!: typed_replies)
qed

lemma system_handler_typed:
  "system_handler stack (Some p) = Inr evs \<Longrightarrow> wf_packet p \<Longrightarrow> sends_typed PORT_SYSTEM p evs"
  by (auto simp: system_handler_cases send_system_err_reply_def intro!: typed_replies split: if_splits)

lemma remove_frames_typed: "remove_frames env names d = (d', evs) \<Longrightarrow> sends_typed port p evs"
  by (induction names arbitrary: d evs) (auto simp: Let_def split: if_splits prod.splits)

lemma init_photo_dir_typed: "init_photo_dir env cs = (ret, cs', evs) \<Longrightarrow> sends_typed port p evs"
  using remove_frames_typed
  by (fastforce simp: init_photo_dir_def split: option.splits if_splits prod.splits)

lemma hwtest_handler_typed:
  assumes "hwtest_handler env (Some p) cs = (cs', evs)" "wf_packet p"
  shows "sends_typed PORT_HWTEST p evs"
proof (cases rule: hwtest_handler_cases [of p env cs])
  case temp
  with assms show ?thesis
    by (auto simp: get_temp_service_def get_tmp175_temp_cases intro!: typed_replies split: if_splits)
next
  case init
  obtain ret cs1 e where i: "init_photo_dir (he_cam env) cs = (ret, cs1, e)" by (metis prod_cases3)
  with init assms init_photo_dir_typed [OF i] show ?thesis by (simp add: init_photo_dir_service_def)
next
  case capture
  with assms show ?thesis by (auto simp: capture_frame_service_def capture_frame_eq)
next
  case count
  with assms show ?thesis
    by (auto simp: get_frame_count_service_def get_frame_file_count_def intro!: typed_replies
        split: option.splits if_splits)
next
  case other
  with assms show ?thesis by auto
qed

lemma dispatch_typed:
  assumes "dispatch_packet env dport p d = Inr (d', evs)" "wf_packet p"
  shows "sends_typed dport p evs"
proof (cases rule: dispatch_cases [of dport env p d])
  case (to_hwtest cs evs')
  with assms hwtest_handler_typed show ?thesis by auto
next
  case (to_system q)
  then have "system_handler (sv_stack env) (Some p) = Inr evs"
    using assms(1) by (auto simp: dispatch_packet_def split: sum.splits)
  with system_handler_typed assms(2) to_system(1) show ?thesis by blast
qed (use assms in auto)

section \<open>The daemon\<close>

text \<open>The request that a turn works on, with the port it has come in on.\<close>

fun request_of :: "turn \<Rightarrow> daemon \<Rightarrow> (nat \<times> csp_packet) option" where
  "request_of (Serve env dport p) d = Some (dport, p)"
| "request_of (File_turn env) d = (case dm_file_queue d of [] \<Rightarrow> None | p # q \<Rightarrow> Some (PORT_FILE, p))"
| "request_of (Shell_turn env) d = (case dm_shell_queue d of [] \<Rightarrow> None | p # q \<Rightarrow> Some (PORT_SHELL, p))"
| "request_of (Photos dir) d = None"

fun reads_packet :: "turn \<Rightarrow> bool" where
  "reads_packet (Serve env dport p) \<longleftrightarrow> wf_packet p"
| "reads_packet t \<longleftrightarrow> True"

definition well_typed :: "daemon \<Rightarrow> bool" where
  "well_typed d \<longleftrightarrow> upload_inv (dm_upload d) \<and> (\<forall>p \<in> set (queued d). wf_packet p)"

text \<open>The state of a run is well-typed: the sessions are, and the queued packets.\<close>

lemma well_typed_server:
  assumes "well_typed d" "wf_packet p" "dispatch_packet env dport p d = Inr (d', evs)"
  shows "well_typed d'"
proof -
  note eff = dispatch_effect [OF assms(3)]
  then have "set (queued d') \<subseteq> insert p (set (queued d))"
    by (metis (full_types) Un_commute empty_iff insert_is_Un set_mset_add_mset_insert set_mset_empty set_mset_mset
        set_mset_union subsetI sup_bot.right_neutral subset_insertI)
  with eff assms(1,2) show ?thesis by (auto simp: well_typed_def)
qed

lemma well_typed_file:
  assumes "well_typed d" "file_work_thread [env] (dm_file_queue d) (dm_upload d) = Inr (q, us, evs)"
  shows "well_typed (d\<lparr>dm_file_queue := q, dm_upload := us\<rparr>)"
  using assms(2)
proof (cases rule: file_turn_cases)
  case idle
  with assms(1) show ?thesis by (simp add: well_typed_def queued_def)
next
  case (work p)
  with assms(1) have p: "upload_inv (dm_upload d)" "wf_packet p" by (auto simp: well_typed_def queued_def)
  from file_work_inv [OF p work(2)] work(1) assms(1) show ?thesis by (auto simp: well_typed_def queued_def)
qed

lemma well_typed_shell:
  assumes "well_typed d" "shell_work_thread [env] (dm_shell_queue d) (dm_seq_number d) = Inr (q, sq, evs)"
  shows "well_typed (d\<lparr>dm_shell_queue := q, dm_seq_number := sq\<rparr>)"
  using assms(2)
  by (cases rule: shell_turn_cases) (use assms(1) in \<open>auto simp: well_typed_def queued_def\<close>)

lemma reach_well_typed:
  assumes "daemon_reach seeks st photo d tr k" "stdio_inv st" "st_open st = Map.empty"
  shows "well_typed d"
  using assms(1)
proof (induction rule: daemon_reach.induct)
  case (boot env r)
  from daemon_main_Inr [OF boot] upload_inv_init [OF assms(2,3)] show ?case by (simp add: well_typed_def)
next
  case (server d tr k p env dport d' evs)
  from well_typed_server [OF server.IH server.hyps(2,4)] show ?case .
next
  case (file_turn d tr k fenv q us evs)
  from well_typed_file [OF file_turn.IH file_turn.hyps(3)] show ?case .
next
  case (shell_turn d tr k senv q sq evs)
  from well_typed_shell [OF shell_turn.IH shell_turn.hyps(3)] show ?case .
next
  case (photos d tr k dir)
  then show ?case by (simp add: well_typed_def queued_def)
qed

lemma turn_typed:
  assumes "well_typed d" "reads_packet t" "daemon_step t d = Inr (d', evs)"
  shows "case request_of t d of None \<Rightarrow> sent evs = [] | Some (port, p) \<Rightarrow> sends_typed port p evs"
proof (cases t)
  case (Serve env dport p)
  with assms(3) obtain evs1 where "dispatch_packet env dport p d = Inr (d', evs1)" "evs = Ev_read (pk_ptr p) # evs1"
    by (auto split: sum.splits)
  with dispatch_typed [OF this(1)] assms(2) show ?thesis by (simp add: Serve)
next
  case (File_turn env)
  with assms(3) obtain q us where "file_work_thread [env] (dm_file_queue d) (dm_upload d) = Inr (q, us, evs)"
    by (auto split: sum.splits)
  then show ?thesis
  proof (cases rule: file_turn_cases)
    case (work p)
    with assms(1) file_work_typed [OF _ _ work(2)] show ?thesis
      by (auto simp: File_turn well_typed_def queued_def)
  qed (simp add: File_turn)
next
  case (Shell_turn env)
  with assms(3) obtain q sq where "shell_work_thread [env] (dm_shell_queue d) (dm_seq_number d) = Inr (q, sq, evs)"
    by (auto split: sum.splits)
  then show ?thesis
  proof (cases rule: shell_turn_cases)
    case (work p)
    with assms(1) shell_work_typed [OF work(2)] show ?thesis
      by (auto simp: Shell_turn well_typed_def queued_def)
  qed (simp add: Shell_turn)
qed (use assms(3) in simp)

section \<open>Property\<close>

text \<open>C6: Every packet the daemon transmits answers the request that the turn works on, in the type of
  its command: from any state that any run reaches, in any turn of any thread, whatever the
  request and the failures of the system calls, a transmitted packet is well-formed and its
  payload is exactly the image of the telemetry structure of the request's port and command,
  with that structure's length and the command (or 255 for an unknown one) as its telemetry id.
  The reply to GET_FRAME_COUNT is the one exception: its three bytes stand at the front of the
  data of the request, whose other bytes and whose length it keeps, so that what is transmitted
  is cut to, or filled up from, the request.\<close>

theorem daemon_replies_typed:
  assumes "stdio_inv st" "st_open st = Map.empty" "daemon_reach seeks st photo d tr k"
    and "reads_packet t" "daemon_step t d = Inr (d', evs)" "q \<in> set (sent evs)"
  shows "\<exists>port p. request_of t d = Some (port, p) \<and> reply_to port p q"
  using turn_typed [OF reach_well_typed [OF assms(3,1,2)] assms(4,5)] assms(6)
  by (auto simp: sends_typed_def split: option.splits)

text \<open>The version request to a daemon that has just started.\<close>

lemma daemon_replies_typed_witness:
  "\<exists>d tr k d' evs q. daemon_reach True st_empty None d tr k
    \<and> daemon_step (Serve srv_ok PORT_SYSTEM (mk_packet 9 [0])) d = Inr (d', evs)
    \<and> sent evs = [q] \<and> reply_to PORT_SYSTEM (mk_packet 9 [0]) q"
proof -
  have st: "stdio_inv st_empty" "st_open st_empty = Map.empty" by simp_all
  let ?p = "mk_packet 9 [0]"
  obtain r where r: "daemon_main boot_ok (upload_statics st_empty) (cam_statics None) = Inr r"
    using daemon_main_starts [of boot_ok "upload_statics st_empty" "cam_statics None"]
    by (auto simp: boot_ok_def)
  obtain q where "system_handler (sv_stack srv_ok) (Some ?p) = Inr [Ev_reply q]"
    using system_handler_one by blast
  then have s: "daemon_step (Serve srv_ok PORT_SYSTEM ?p) (rn_daemon r) = Inr (rn_daemon r, [Ev_read 9, Ev_reply q])"
    by (simp add: dispatch_packet_def)
  have "reads_packet (Serve srv_ok PORT_SYSTEM ?p)" by (simp add: wf_mk_packet)
  from daemon_replies_typed [OF st daemon_reach.boot [OF r] this s, of q] daemon_reach.boot [OF r] s
  show ?thesis by fastforce
qed

end
