(* ===== verification/Progress.thy ===== *)
theory Progress
  imports Interleave
begin

text \<open>
  What the schedule of the threads has to grant the workers for the requests to be served: the
  condition under which a queue is empty at the end, the longest wait of a request, and the
  session of shell commands in any interleaving.
\<close>

section \<open>Supply and demand\<close>

text \<open>The requests that arrive in a schedule, and the number of turns of a worker.\<close>

definition arrivals :: "(turn \<Rightarrow> csp_packet option) \<Rightarrow> turn list \<Rightarrow> csp_packet list" where
  "arrivals arrival ts = List.map_filter arrival ts"

definition takes :: "(turn \<Rightarrow> 'e option) \<Rightarrow> turn list \<Rightarrow> nat" where
  "takes taker ts = length (List.map_filter taker ts)"

lemma arrivals_simps [simp]:
  "arrivals arrival [] = []"
  "arrivals arrival (t # ts) = (case arrival t of None \<Rightarrow> [] | Some p \<Rightarrow> [p]) @ arrivals arrival ts"
  by (simp_all add: arrivals_def List.map_filter_simps split: option.split)

lemma takes_simps [simp]:
  "takes taker [] = 0"
  "takes taker (t # ts) = (if taker t = None then 0 else 1) + takes taker ts"
  by (auto simp: takes_def List.map_filter_simps split: option.split)

lemma arrivals_append: "arrivals arrival (ts @ us) = arrivals arrival ts @ arrivals arrival us"
  by (induction ts) simp_all

text \<open>A worker keeps up with a schedule when from no point on more requests arrive than it has
  turns.\<close>

fun keeps_up :: "(turn \<Rightarrow> csp_packet option) \<Rightarrow> (turn \<Rightarrow> 'e option) \<Rightarrow> turn list \<Rightarrow> bool" where
  "keeps_up arrival taker [] = True"
| "keeps_up arrival taker (t # ts) \<longleftrightarrow>
     length (arrivals arrival (t # ts)) \<le> takes taker (t # ts) \<and> keeps_up arrival taker ts"

lemma keeps_up_bound:
  "keeps_up arrival taker ts \<Longrightarrow> length (arrivals arrival ts) \<le> takes taker ts"
  by (cases ts) simp_all

lemma jobs_caught_up:
  assumes "\<forall>t \<in> set ts. taker t = None \<or> arrival t = None"
  shows "snd (jobs arrival taker ts q) = [] \<longleftrightarrow>
    length q + length (arrivals arrival ts) \<le> takes taker ts \<and> keeps_up arrival taker ts"
  using assms
proof (induction ts arbitrary: q)
  case (Cons t ts)
  show ?case
  proof (cases "taker t")
    case None
    with Cons show ?thesis
      by (cases "arrival t") (auto dest: keeps_up_bound)
  next
    case (Some e)
    with Cons show ?thesis
      by (cases q) (auto simp: case_prod_beta Let_def dest: keeps_up_bound)
  qed
qed simp

text \<open>A request waits for the requests in front of it and for nothing else.\<close>

lemma jobs_wait:
  "k < length q \<Longrightarrow> k < takes taker ts \<Longrightarrow> \<forall>t \<in> set ts. taker t = None \<or> arrival t = None \<Longrightarrow>
    k < length (fst (jobs arrival taker ts q)) \<and> snd (fst (jobs arrival taker ts q) ! k) = q ! k"
proof (induction ts arbitrary: q k)
  case (Cons t ts)
  show ?case
  proof (cases "taker t")
    case None
    then have "k < takes taker ts" using Cons.prems(2) by simp
    with None Cons.IH [of k "case arrival t of None \<Rightarrow> q | Some p \<Rightarrow> q @ [p]"] Cons.prems show ?thesis
      by (cases "arrival t") (auto simp: nth_append)
  next
    case (Some e)
    from Cons.prems(1) obtain p q' where q: "q = p # q'" by (cases q) auto
    show ?thesis
    proof (cases k)
      case 0
      with Some q show ?thesis by (simp add: case_prod_beta Let_def)
    next
      case (Suc j)
      with Cons.prems Some q have "j < length q'" "j < takes taker ts" by simp_all
      with Cons.IH [of j q'] Cons.prems(3) Some q Suc show ?thesis
        by (simp add: case_prod_beta Let_def)
    qed
  qed
qed simp

lemma jobs_append:
  "jobs arrival taker (ts @ us) q =
     (let (js1, q1) = jobs arrival taker ts q; (js2, q2) = jobs arrival taker us q1 in (js1 @ js2, q2))"
  by (induction ts arbitrary: q) (auto simp: case_prod_beta Let_def split: option.split list.split)

text \<open>Without turns of the worker the queue only grows.\<close>

lemma jobs_none:
  "\<forall>t \<in> set ts. taker t = None \<Longrightarrow> jobs arrival taker ts q = ([], q @ arrivals arrival ts)"
  by (induction ts arbitrary: q) (auto split: option.split)

text \<open>In an endless schedule that gives the worker turns again and again every request gets to the
  head of the queue at a turn of the worker.\<close>

lemma upt_extend: "n \<le> m \<Longrightarrow> map s [0..<m] = map s [0..<n] @ map s [n..<m]"
  by (metis le_add_diff_inverse map_append upt_add_eq_append zero_le)

lemma next_turn:
  assumes "\<forall>n. \<exists>m \<ge> n. taker (sched m) \<noteq> None"
  obtains m as where "n \<le> m" "taker (sched m) \<noteq> None"
    "snd (jobs arrival taker (map sched [n..<m]) q) = q @ as"
proof -
  define m where "m = (LEAST m. n \<le> m \<and> taker (sched m) \<noteq> None)"
  have m: "n \<le> m" "taker (sched m) \<noteq> None"
    using LeastI_ex [OF assms [rule_format, of n]] by (simp_all add: m_def)
  have "taker (sched i) = None" if "n \<le> i" "i < m" for i
    using not_less_Least [of i "\<lambda>m. n \<le> m \<and> taker (sched m) \<noteq> None"] that by (auto simp: m_def)
  then have "snd (jobs arrival taker (map sched [n..<m]) q) = q @ arrivals arrival (map sched [n..<m])"
    by (subst jobs_none) auto
  with m that show thesis by blast
qed

lemma reaches_head:
  assumes "\<forall>n. \<exists>m \<ge> n. taker (sched m) \<noteq> None" "k < length q"
  shows "\<exists>m \<ge> n. taker (sched m) \<noteq> None
    \<and> (\<exists>q'. snd (jobs arrival taker (map sched [n..<m]) q) = q ! k # q')"
  using assms(2)
proof (induction k arbitrary: n q)
  case (0 n q)
  from next_turn [OF assms(1), of n arrival q] obtain m as where
    "n \<le> m" "taker (sched m) \<noteq> None" "snd (jobs arrival taker (map sched [n..<m]) q) = q @ as" .
  with 0 show ?case by (cases q) auto
next
  case (Suc k n q)
  from next_turn [OF assms(1), of n arrival q] obtain m as where
    m: "n \<le> m" "taker (sched m) \<noteq> None" "snd (jobs arrival taker (map sched [n..<m]) q) = q @ as" .
  from Suc.prems obtain p q1 where q: "q = p # q1" "k < length q1" by (cases q) auto
  then have "k < length (q1 @ as)" by simp
  from Suc.IH [OF this, of "Suc m"] obtain m' q' where
    m': "Suc m \<le> m'" "taker (sched m') \<noteq> None"
      "snd (jobs arrival taker (map sched [Suc m..<m']) (q1 @ as)) = q ! Suc k # q'"
    by (auto simp: q nth_append)
  have "[n..<m'] = [n..<m] @ m # [Suc m..<m']"
    using m(1) m'(1) upt_add_eq_append [of n m "m' - m"] by (simp add: upt_conv_Cons)
  then have "snd (jobs arrival taker (map sched [n..<m']) q) = q ! Suc k # q'"
    using m(2,3) m'(3) q by (auto simp: jobs_append case_prod_beta Let_def)
  with m(1) m'(1,2) show ?case by (intro exI [of _ m']) auto
qed

lemma taker_arrival:
  "\<forall>t \<in> set ts. file_taker t = None \<or> arrival_on port t = None"
  "\<forall>t \<in> set ts. shell_taker t = None \<or> arrival_on port t = None"
  by (auto elim!: arrival_onE file_takerE shell_takerE)

lemmas file_progress =
  jobs_in_order [OF taker_arrival(1), folded arrivals_def]
  jobs_caught_up [OF taker_arrival(1)] jobs_wait [OF _ _ taker_arrival(1)]

lemmas shell_progress =
  jobs_in_order [OF taker_arrival(2), folded arrivals_def]
  jobs_caught_up [OF taker_arrival(2)] jobs_wait [OF _ _ taker_arrival(2)]

section \<open>Any interleaving\<close>

lemma requests_run:
  assumes "upload_inv (dm_upload d)"
    and "\<forall>p \<in> set (dm_file_queue d @ arrivals (arrival_on PORT_FILE) ts). wf_packet p \<and> fits p"
    and "safe (run_work shell_work (fst (shell_jobs ts (dm_shell_queue d))) (dm_seq_number d))"
  obtains d' tr where "daemon_run ts d = Inr (d', tr)" "upload_inv (dm_upload d')"
proof -
  let ?js = "fst (file_jobs ts (dm_file_queue d))"
  note order = file_progress(1) [where ts = ts and port = PORT_FILE and q = "dm_file_queue d"]
  have "snd ` set ?js \<subseteq> set (dm_file_queue d @ arrivals (arrival_on PORT_FILE) ts)"
    unfolding order [symmetric] by auto
  then have "\<forall>(env, p) \<in> set ?js. wf_packet p \<and> fits p"
    using assms(2) by (force simp: image_subset_iff)
  from file_work_drains [OF assms(1) this] obtain us evs where
    w: "run_work file_work ?js (dm_upload d) = Inr (us, evs)" "upload_inv us" by blast
  with assms(3) obtain d' tr where run: "daemon_run ts d = Inr (d', tr)"
    using daemon_run_safe [of ts d] by (auto simp: safe_def)
  with file_view.runs_its_jobs [OF run] w that show thesis by simp
qed

text \<open>C15: Whatever the interleaving of the threads, the requests on the file port are worked on in
  the order of their arrival and none is lost or worked on twice: what the worker has done and
  what is left in its queue is the old queue and the arrivals. A request in the queue is worked
  on when the worker has had one turn for each request in front of it and one more. The queue is
  empty at the end exactly when, counted from any point on, the worker has had at least as many
  turns as requests arrived, the old queue included. The run returns when the requests fit the
  arrays and no shell job faults.\<close>

theorem requests_served_in_any_interleaving:
  assumes "upload_inv (dm_upload d)"
    and "\<forall>p \<in> set (dm_file_queue d @ arrivals (arrival_on PORT_FILE) ts). wf_packet p \<and> fits p"
    and "safe (run_work shell_work (fst (shell_jobs ts (dm_shell_queue d))) (dm_seq_number d))"
  shows "\<exists>d' tr js. daemon_run ts d = Inr (d', tr)
    \<and> run_work (\<lambda>env p. csp_file_work env (Some p)) js (dm_upload d) = Inr (dm_upload d', events_of File_worker tr)
    \<and> map snd js @ dm_file_queue d' = dm_file_queue d @ arrivals (arrival_on PORT_FILE) ts
    \<and> min (length (dm_file_queue d)) (takes file_taker ts) \<le> length js
    \<and> (dm_file_queue d' = [] \<longleftrightarrow>
         length (dm_file_queue d) + length (arrivals (arrival_on PORT_FILE) ts) \<le> takes file_taker ts
         \<and> keeps_up (arrival_on PORT_FILE) file_taker ts)"
proof -
  let ?js = "fst (file_jobs ts (dm_file_queue d))"
  note order = file_progress(1) [where ts = ts and port = PORT_FILE and q = "dm_file_queue d"]
  from requests_run [OF assms] obtain d' tr where run: "daemon_run ts d = Inr (d', tr)" .
  note w = file_view.runs_its_jobs [OF run]
  let ?k = "min (length (dm_file_queue d)) (takes file_taker ts)"
  have "?k \<le> length ?js"
  proof (cases ?k)
    case (Suc k)
    with file_progress(3) [where k = k and ts = ts and port = PORT_FILE and q = "dm_file_queue d"] show ?thesis by linarith
  qed simp
  with w order run file_progress(2) [where ts = ts and port = PORT_FILE and q = "dm_file_queue d"] show ?thesis
    by (intro exI [of _ d'] exI [of _ tr] exI [of _ ?js]) simp
qed

lemma requests_served_in_any_interleaving_witness:
  "\<exists>d' tr js. daemon_run sched_lazy d_start = Inr (d', tr)
    \<and> run_work (\<lambda>env p. csp_file_work env (Some p)) js us_start = Inr (dm_upload d', events_of File_worker tr)
    \<and> map snd js = [p_open, p_data] \<and> dm_file_queue d' = []"
proof -
  have arr: "arrivals (arrival_on PORT_FILE) sched_lazy = [p_open, p_data]" "takes file_taker sched_lazy = 2"
    "keeps_up (arrival_on PORT_FILE) file_taker sched_lazy"
    by (simp_all add: sched_lazy_def)
  have "fst (shell_jobs sched_lazy (dm_shell_queue d_start)) = [(sh_ok [97], p_ls)]"
    by (simp add: sched_lazy_def d_start_def)
  then have "safe (run_work shell_work (fst (shell_jobs sched_lazy (dm_shell_queue d_start))) (dm_seq_number d_start))"
    using p_ls_safe [of "[97]" "dm_seq_number d_start"] by (auto simp: safe_def)
  from requests_served_in_any_interleaving [OF _ _ this]
  obtain d' tr js where "daemon_run sched_lazy d_start = Inr (d', tr)"
    "run_work (\<lambda>env p. csp_file_work env (Some p)) js us_start = Inr (dm_upload d', events_of File_worker tr)"
    "map snd js @ dm_file_queue d' = [p_open, p_data]" "dm_file_queue d' = []"
    by (fastforce simp: arr d_start_def us_start_inv wf_examples fits_examples)
  then show ?thesis by (intro exI [of _ d'] exI [of _ tr] exI [of _ js]) simp
qed

text \<open>C10: In any interleaving of the threads the shell worker answers each of its commands as
  specified, in the order of arrival, and numbers them consecutively: the replies of the
  \<open>i\<close>-th command carry the starting number plus \<open>i\<close>. What is left in the queue is
  what it has not had a turn for.\<close>

theorem shell_session_in_any_interleaving:
  assumes "\<forall>(env, p) \<in> set (fst (shell_jobs ts (dm_shell_queue d))). is_shell_cmd p \<and> shell_fits p \<and> clones_suffice env p"
    and "safe (run_work file_work (fst (file_jobs ts (dm_file_queue d))) (dm_upload d))"
  shows "\<exists>d' tr js. daemon_run ts d = Inr (d', tr) \<and> js = fst (shell_jobs ts (dm_shell_queue d))
    \<and> sh_replies (events_of Shell_worker tr) = session_replies js (dm_seq_number d)
    \<and> dm_seq_number d' = dm_seq_number d + of_nat (length js)
    \<and> map snd js @ dm_shell_queue d' = dm_shell_queue d @ arrivals (arrival_on PORT_SHELL) ts
    \<and> (dm_shell_queue d' = [] \<longleftrightarrow>
         length (dm_shell_queue d) + length (arrivals (arrival_on PORT_SHELL) ts) \<le> takes shell_taker ts
         \<and> keeps_up (arrival_on PORT_SHELL) shell_taker ts)"
proof -
  let ?js = "fst (shell_jobs ts (dm_shell_queue d))"
  from run_session [OF assms(1)] obtain evs where
    s: "run_work shell_work ?js (dm_seq_number d) = Inr (dm_seq_number d + of_nat (length ?js), evs)"
      "sh_replies evs = session_replies ?js (dm_seq_number d)" by blast
  with assms(2) obtain d' tr where run: "daemon_run ts d = Inr (d', tr)"
    using daemon_run_safe [of ts d] by (auto simp: safe_def)
  from shell_view.runs_its_jobs [OF run] s run shell_progress(1,2) [where ts = ts and port = PORT_SHELL and q = "dm_shell_queue d"]
  show ?thesis by (intro exI [of _ d'] exI [of _ tr] exI [of _ ?js]) simp
qed

lemma shell_session_in_any_interleaving_witness:
  "\<exists>d' tr. daemon_run sched_lazy d_start = Inr (d', tr)
    \<and> sh_replies (events_of Shell_worker tr) = promised SHELL_CMD 0 (Output [97])
    \<and> dm_seq_number d' = 1 \<and> dm_shell_queue d' = []"
proof -
  have js: "fst (shell_jobs sched_lazy (dm_shell_queue d_start)) = [(sh_ok [97], p_ls)]"
    "fst (file_jobs sched_lazy (dm_file_queue d_start)) = [(env_ok, p_open), (env_ok, p_data)]"
    by (simp_all add: sched_lazy_def d_start_def)
  have arr: "arrivals (arrival_on PORT_SHELL) sched_lazy = [p_ls]" "takes shell_taker sched_lazy = 2"
    "keeps_up (arrival_on PORT_SHELL) shell_taker sched_lazy"
    by (simp_all add: sched_lazy_def)
  have "safe (run_work file_work [(env_ok, p_open), (env_ok, p_data)] us_start)"
    using file_work_drains [OF us_start_inv, of "[(env_ok, p_open), (env_ok, p_data)]"]
    by (auto simp: safe_def wf_examples fits_examples)
  then have "safe (run_work file_work (fst (file_jobs sched_lazy (dm_file_queue d_start))) (dm_upload d_start))"
    unfolding js by (simp add: d_start_def)
  from shell_session_in_any_interleaving [OF _ this] show ?thesis
    unfolding js arr by (force simp: p_ls_facts sh_ok_clones p_ls_outcome d_start_def)
qed

text \<open>The requests that turn up in an endless schedule.\<close>

lemma arrivals_sched:
  "p \<in> set (arrivals arrival (map sched [0..<m])) \<longleftrightarrow> (\<exists>i < m. arrival (sched i) = Some p)"
  by (induction m) (auto simp: arrivals_append less_Suc_eq split: option.splits)

text \<open>C16: No request starves: in an endless schedule that gives the file worker turns again and
  again, a request that is in its queue at some time, at whatever place, comes to a later turn of the
  worker at which it is the first in the queue, and the worker works on it and returns. This
  holds whatever else happens, as long as the requests fit the arrays and no shell job faults.\<close>

theorem no_file_request_starves:
  assumes "\<forall>n. \<exists>m \<ge> n. file_taker (sched m) \<noteq> None"
    and "upload_inv (dm_upload d)" "\<forall>p \<in> set (dm_file_queue d). wf_packet p \<and> fits p"
    and "\<forall>i p. arrival_on PORT_FILE (sched i) = Some p \<longrightarrow> wf_packet p \<and> fits p"
    and "\<forall>m. safe (run_work shell_work (fst (shell_jobs (map sched [0..<m]) (dm_shell_queue d))) (dm_seq_number d))"
    and "daemon_run (map sched [0..<n]) d = Inr (dn, trn)" "k < length (dm_file_queue dn)"
  shows "\<exists>m env dm tr q us evs. n \<le> m \<and> sched m = File_turn env
    \<and> daemon_run (map sched [0..<m]) d = Inr (dm, tr) \<and> dm_file_queue dm = dm_file_queue dn ! k # q
    \<and> csp_file_work env (Some (dm_file_queue dn ! k)) (dm_upload dm) = Inr (us, evs)"
proof -
  let ?p = "dm_file_queue dn ! k"
  have fit: "wf_packet p \<and> fits p"
    if "p \<in> set (dm_file_queue d @ arrivals (arrival_on PORT_FILE) (map sched [0..<m]))" for p m
    using that assms(3,4) by (auto simp: arrivals_sched)
  from reaches_head [OF assms(1,7), of n "arrival_on PORT_FILE"] obtain m q where
    m: "n \<le> m" "file_taker (sched m) \<noteq> None"
      "snd (file_jobs (map sched [n..<m]) (dm_file_queue dn)) = ?p # q" by blast
  from m(2) obtain env where env: "sched m = File_turn env" by (auto elim!: file_takerE)
  from requests_run [OF assms(2) _ assms(5) [rule_format, of m]] fit obtain dm tr where
    r: "daemon_run (map sched [0..<m]) d = Inr (dm, tr)" and inv: "upload_inv (dm_upload dm)" by blast
  have q: "dm_file_queue dm = ?p # q"
    using file_view.runs_its_jobs [OF r] file_view.runs_its_jobs [OF assms(6)] m(3)
    by (simp add: upt_extend [OF m(1)] jobs_append case_prod_beta Let_def)
  have "?p \<in> set (map snd (fst (file_jobs (map sched [0..<m]) (dm_file_queue d))) @ dm_file_queue dm)"
    by (simp add: q)
  then have "wf_packet ?p \<and> fits ?p"
    using fit [of ?p m] file_view.runs_its_jobs [OF r]
      file_progress(1) [where ts = "map sched [0..<m]" and port = PORT_FILE and q = "dm_file_queue d"]
    by metis
  then obtain us evs where "file_work env ?p (dm_upload dm) = Inr (us, evs)"
    using file_work_safe_iff [OF inv, of ?p env] by (auto simp: safe_def)
  with m(1) env r q show ?thesis by blast
qed

text \<open>A schedule in which the server takes one request and then only the file worker has turns.\<close>

definition sched_patient :: "nat \<Rightarrow> turn" where
  "sched_patient m = (if m = 0 then Serve srv_ok PORT_FILE p_open else File_turn env_ok)"

lemma no_file_request_starves_witness:
  "\<exists>m env dm tr q us evs. 1 \<le> m \<and> sched_patient m = File_turn env
    \<and> daemon_run (map sched_patient [0..<m]) d_start = Inr (dm, tr) \<and> dm_file_queue dm = p_open # q
    \<and> csp_file_work env (Some p_open) (dm_upload dm) = Inr (us, evs)"
proof -
  have "safe (daemon_run [sched_patient 0] d_start)"
    unfolding daemon_run_safe by (simp add: sched_patient_def d_start_def)
  then obtain d1 tr1 where r: "daemon_run (map sched_patient [0..<1]) d_start = Inr (d1, tr1)"
    by (auto simp: safe_def)
  then have q: "dm_file_queue d1 = [p_open]"
    using file_view.runs_its_jobs [OF r] by (simp add: sched_patient_def d_start_def)
  have fair: "\<forall>n. \<exists>m \<ge> n. file_taker (sched_patient m) \<noteq> None"
    using Suc_n_not_le_n by (metis (no_types) file_taker.simps(1) le_SucI le_refl nat.distinct(1) option.distinct(1) sched_patient_def)
  have "fst (shell_jobs (map sched_patient ns) []) = []" for ns
    by (induction ns) (auto simp: sched_patient_def)
  then have "\<forall>m. safe (run_work shell_work (fst (shell_jobs (map sched_patient [0..<m]) (dm_shell_queue d_start))) (dm_seq_number d_start))"
    by (simp add: d_start_def)
  moreover have "\<forall>i p. arrival_on PORT_FILE (sched_patient i) = Some p \<longrightarrow> wf_packet p \<and> fits p"
    by (simp add: sched_patient_def wf_examples fits_examples)
  moreover have "upload_inv (dm_upload d_start)" "\<forall>p \<in> set (dm_file_queue d_start). wf_packet p \<and> fits p"
    by (simp_all add: d_start_def us_start_inv)
  ultimately show ?thesis
    using no_file_request_starves [OF fair, of d_start 1 d1 tr1 0] r by (simp only: q) simp
qed

end
