(* ===== verification/Transfers.thy ===== *)
theory Transfers
  imports Progress
begin

text \<open>
  Several transfers at a time: what the requests of other transfers leave of a transfer and its
  file, and the delivery of a file among them, in any interleaving of the requests and of the
  threads.
\<close>

section \<open>Shuffled lists\<close>

lemma shuffles_at_first:
  "zs \<in> shuffles (x # xs) ys \<Longrightarrow>
    \<exists>ys1 ys2 zs'. ys = ys1 @ ys2 \<and> zs = ys1 @ x # zs' \<and> zs' \<in> shuffles xs ys2"
proof (induction ys arbitrary: zs)
  case (Cons y ys)
  from Cons.prems consider zs' where "zs = x # zs'" "zs' \<in> shuffles xs (y # ys)"
    | zs' where "zs = y # zs'" "zs' \<in> shuffles (x # xs) ys" by auto
  then show ?case
  proof cases
    case 1
    then show ?thesis by (intro exI [of _ "[]"] exI [of _ "y # ys"] exI [of _ zs']) simp
  next
    case 2
    with Cons.IH [OF 2(2)] show ?thesis by (metis append_Cons)
  qed
qed auto

lemma shuffles_at_last:
  "zs \<in> shuffles (xs @ [x]) ys \<Longrightarrow>
    \<exists>ys1 ys2 zs'. ys = ys1 @ ys2 \<and> zs = zs' @ x # ys2 \<and> zs' \<in> shuffles xs ys1"
proof (induction xs ys arbitrary: zs rule: shuffles.induct)
  case (1 ys)
  from shuffles_at_first [of zs x "[]" ys] 1 show ?case by auto
next
  case (2 xs)
  then show ?case by (intro exI [of _ "[]"] exI [of _ xs]) simp
next
  case (3 x' xs y ys)
  from 3(3) consider zs' where "zs = x' # zs'" "zs' \<in> shuffles (xs @ [x]) (y # ys)"
    | zs' where "zs = y # zs'" "zs' \<in> shuffles ((x' # xs) @ [x]) ys" by auto
  then show ?case
  proof cases
    case 1
    from 3(1) [OF 1(2)] obtain ys1 ys2 zs1 where
      "y # ys = ys1 @ ys2" "zs' = zs1 @ x # ys2" "zs1 \<in> shuffles xs ys1" by blast
    with 1(1) show ?thesis
      by (intro exI [of _ ys1] exI [of _ ys2] exI [of _ "x' # zs1"]) (simp add: Cons_in_shuffles_leftI)
  next
    case 2
    from 3(2) [OF 2(2)] obtain ys1 ys2 zs1 where
      "ys = ys1 @ ys2" "zs' = zs1 @ x # ys2" "zs1 \<in> shuffles (x' # xs) ys1" by blast
    with 2(1) show ?thesis
      by (intro exI [of _ "y # ys1"] exI [of _ ys2] exI [of _ "y # zs1"]) (simp add: Cons_in_shuffles_rightI)
  qed
qed

section \<open>What other requests leave alone\<close>

text \<open>A request that is not for the transfer \<open>sid\<close> and does not open the file \<open>fname\<close>, and
  that fits the arrays.\<close>

definition opens :: "csp_packet \<Rightarrow> bool" where
  "opens p \<longleftrightarrow> pk_length p = UPLOAD_OPEN_CMD_SIZE \<and> cmd_id p = FILE_UPLOAD_OPEN_CMD"

definition foreign :: "u16 \<Rightarrow> bytes \<Rightarrow> upload_env \<times> csp_packet \<Rightarrow> bool" where
  "foreign sid fname ep \<longleftrightarrow> (case ep of (env, p) \<Rightarrow>
     wf_packet p \<and> fits p \<and> req_sid p \<noteq> sid \<and> \<not> (opens p \<and> req_name p = Some fname))"

definition exclusive :: "u16 \<Rightarrow> bytes \<Rightarrow> upload_spec \<Rightarrow> bool" where
  "exclusive sid fname a \<longleftrightarrow> (\<forall>sid'. sid' \<noteq> sid \<longrightarrow> sp_sess a sid' \<noteq> Some fname)"

text \<open>The effect of any request on the abstract service.\<close>

lemma wrong_size_unchanged:
  assumes "upload_inv us" "wf_packet p"
  shows "\<lbrakk>file_upload_open_cmd env cid p us = Inr (ret, us', evs); pk_length p \<noteq> UPLOAD_OPEN_CMD_SIZE\<rbrakk> \<Longrightarrow> us' = us"
    and "\<lbrakk>file_upload_data_cmd env cid p us = Inr (ret, us', evs); pk_length p \<noteq> UPLOAD_DATA_CMD_SIZE\<rbrakk> \<Longrightarrow> us' = us"
    and "\<lbrakk>file_upload_close_cmd env cid p us = Inr (ret, us', evs); pk_length p \<noteq> UPLOAD_CLOSE_CMD_SIZE\<rbrakk> \<Longrightarrow> us' = us"
proof -
  show "us' = us" if "file_upload_open_cmd env cid p us = Inr (ret, us', evs)" "pk_length p \<noteq> UPLOAD_OPEN_CMD_SIZE"
    using that by (cases rule: open_cmd_cases [of p env cid us]) auto
  show "us' = us" if "file_upload_data_cmd env cid p us = Inr (ret, us', evs)" "pk_length p \<noteq> UPLOAD_DATA_CMD_SIZE"
    using that by (cases rule: data_cmd_cases [OF assms, of env cid]) auto
  show "us' = us" if "file_upload_close_cmd env cid p us = Inr (ret, us', evs)" "pk_length p \<noteq> UPLOAD_CLOSE_CMD_SIZE"
    using that by (cases rule: close_cmd_cases [OF assms(1), of p env cid]) auto
qed

lemma file_work_effect:
  assumes "upload_inv us" "wf_packet p" "file_work env p us = Inr (us', evs)"
  obtains (unchanged) "upload_abs us' = upload_abs us"
  | (opened) fname where "opens p" "req_name p = Some fname"
      "upload_abs us' = snd (spec_open env (req_sid p) fname (upload_abs us))"
  | (written) "upload_abs us' = snd (spec_data env (req_sid p) (unat (req_offset p)) (req_data p) (upload_abs us))"
  | (closed) "upload_abs us' = snd (spec_close env (req_sid p) (upload_abs us))"
proof (cases rule: file_work_cases [of p env us])
  case open_cmd
  with assms(3) obtain ret where r: "file_upload_open_cmd env FILE_UPLOAD_OPEN_CMD p us = Inr (ret, us', evs)"
    by (auto simp: drop_ret_Inr)
  show thesis
  proof (cases "pk_length p = UPLOAD_OPEN_CMD_SIZE")
    case True
    from open_cmd_abs [OF assms(1) True r] opened open_cmd True show thesis by (auto simp: opens_def)
  qed (use wrong_size_unchanged(1) [OF assms(1,2) r] unchanged in blast)
next
  case data_cmd
  with assms(3) obtain ret where r: "file_upload_data_cmd env FILE_UPLOAD_DATA_CMD p us = Inr (ret, us', evs)"
    by (auto simp: drop_ret_Inr)
  from data_cmd_abs [OF assms(1,2) _ r] written wrong_size_unchanged(2) [OF assms(1,2) r] unchanged
  show thesis by fastforce
next
  case close_cmd
  with assms(3) obtain ret where r: "file_upload_close_cmd env FILE_UPLOAD_CLOSE_CMD p us = Inr (ret, us', evs)"
    by (auto simp: drop_ret_Inr)
  from close_cmd_abs [OF assms(1) _ r] closed wrong_size_unchanged(3) [OF assms(1,2) r] unchanged
  show thesis by fastforce
next
  case other
  with assms(3) unchanged show thesis by simp
qed

text \<open>How many transfers may be open after a request: one more if it opens one.\<close>

definition transfers :: "upload_state \<Rightarrow> nat" where
  "transfers us = card (dom (sp_sess (upload_abs us)))"

definition undisturbed :: "u16 \<Rightarrow> bytes \<Rightarrow> upload_spec \<Rightarrow> upload_spec \<Rightarrow> bool" where
  "undisturbed sid fname a a' \<longleftrightarrow>
     sp_sess a' sid = sp_sess a sid \<and> sp_fs a' fname = sp_fs a fname \<and> exclusive sid fname a'"

lemma spec_frame:
  assumes "exclusive sid fname a" "sid' \<noteq> sid"
  shows "fname' \<noteq> fname \<Longrightarrow> undisturbed sid fname a (snd (spec_open env sid' fname' a))"
    and "undisturbed sid fname a (snd (spec_data env sid' offset d a))"
    and "undisturbed sid fname a (snd (spec_close env sid' a))"
  using assms
  by (auto simp: undisturbed_def exclusive_def spec_open_def spec_data_def spec_close_def opened_fs_def
      written_fs_def split: option.split)

lemma finite_transfers: "upload_inv us \<Longrightarrow> finite (dom (sp_sess (upload_abs us)))"
proof -
  assume "upload_inv us"
  then have "dom (sp_sess (upload_abs us)) \<subseteq> (\<lambda>i. se_id (sessions us ! i)) ` set (session_used us)"
    using search_used_Some by (fastforce simp: upload_abs_def)
  then show ?thesis by (rule finite_subset) simp
qed

lemma spec_count:
  assumes "finite (dom (sp_sess a))"
  shows "card (dom (sp_sess (snd (spec_open env sid fname a)))) \<le> Suc (card (dom (sp_sess a)))"
    and "card (dom (sp_sess (snd (spec_data env sid offset d a)))) = card (dom (sp_sess a))"
    and "card (dom (sp_sess (snd (spec_close env sid a)))) \<le> card (dom (sp_sess a))"
  using assms card_Diff1_le [of "dom (sp_sess a)" sid]
  by (auto simp: spec_open_def spec_data_def spec_close_def card_insert_if split: option.split)

lemma foreign_step:
  assumes inv: "upload_inv us" and excl: "exclusive sid fname (upload_abs us)"
    and f: "foreign sid fname (env, p)"
  obtains us' evs where "file_work env p us = Inr (us', evs)" "upload_inv us'"
    "undisturbed sid fname (upload_abs us) (upload_abs us')"
    "transfers us' \<le> transfers us + (if opens p then 1 else 0)"
proof -
  from f have p: "wf_packet p" "fits p" "req_sid p \<noteq> sid" "opens p \<longrightarrow> req_name p \<noteq> Some fname"
    by (auto simp: foreign_def)
  from file_work_safe_iff [OF inv p(1), of env] p(2) obtain us' evs where
    w: "file_work env p us = Inr (us', evs)" by (auto simp: safe_def)
  note fin = finite_transfers [OF inv]
  have "undisturbed sid fname (upload_abs us) (upload_abs us')
      \<and> transfers us' \<le> transfers us + (if opens p then 1 else 0)"
    using inv p(1) w
  proof (cases rule: file_work_effect)
    case unchanged
    with excl show ?thesis by (simp add: undisturbed_def transfers_def)
  next
    case (opened fname')
    with spec_frame(1) [OF excl p(3)] spec_count(1) [OF fin] p(4) show ?thesis
      by (auto simp: transfers_def)
  next
    case written
    with spec_frame(2) [OF excl p(3)] spec_count(2) [OF fin] show ?thesis by (simp add: transfers_def)
  next
    case closed
    with spec_frame(3) [OF excl p(3)] spec_count(3) [OF fin] show ?thesis
      by (simp add: transfers_def trans_le_add1)
  qed
  with w file_work_inv [OF inv p(1) w] that show thesis by blast
qed

section \<open>A transfer among others\<close>

definition foreign_opens :: "(upload_env \<times> csp_packet) list \<Rightarrow> nat" where
  "foreign_opens os = length (filter (\<lambda>(env, p). opens p) os)"

lemma foreign_opens_append [simp]: "foreign_opens (os @ os') = foreign_opens os + foreign_opens os'"
  by (simp add: foreign_opens_def)

lemma foreign_run:
  assumes "upload_inv us" "exclusive sid fname (upload_abs us)" "\<forall>ep \<in> set os. foreign sid fname ep"
  shows "\<exists>us' evs. run_work file_work os us = Inr (us', evs) \<and> upload_inv us'
    \<and> undisturbed sid fname (upload_abs us) (upload_abs us')
    \<and> transfers us' \<le> transfers us + foreign_opens os"
  using assms
proof (induction os arbitrary: us)
  case Nil
  then show ?case by (simp add: undisturbed_def)
next
  case (Cons ep os)
  obtain env p where ep: "ep = (env, p)" by fastforce
  with Cons.prems have "foreign sid fname (env, p)" by simp
  from foreign_step [OF Cons.prems(1,2) this] obtain us1 evs1 where 1:
    "file_work env p us = Inr (us1, evs1)" "upload_inv us1"
    "undisturbed sid fname (upload_abs us) (upload_abs us1)"
    "transfers us1 \<le> transfers us + (if opens p then 1 else 0)" .
  then have "exclusive sid fname (upload_abs us1)" by (simp add: undisturbed_def)
  from Cons.IH [OF 1(2) this] Cons.prems(3) obtain us2 evs2 where 2:
    "run_work file_work os us1 = Inr (us2, evs2)" "upload_inv us2"
    "undisturbed sid fname (upload_abs us1) (upload_abs us2)"
    "transfers us2 \<le> transfers us1 + foreign_opens os" by auto
  have "transfers us2 \<le> transfers us + foreign_opens (ep # os)"
    using 1(4) 2(4) by (simp add: foreign_opens_def ep split: if_splits)
  with 1 2 ep show ?case by (simp add: undisturbed_def)
qed

text \<open>The chunks of a transfer among other requests.\<close>

definition receiving :: "u16 \<Rightarrow> bytes \<Rightarrow> bytes \<Rightarrow> bytes \<Rightarrow> (nat \<times> bytes) list \<Rightarrow> upload_state \<Rightarrow> bool" where
  "receiving sid fname bs old cs us \<longleftrightarrow> upload_inv us \<and> exclusive sid fname (upload_abs us)
     \<and> sp_sess (upload_abs us) sid = Some fname
     \<and> (\<exists>c. sp_fs (upload_abs us) fname = Some c \<and> partial_copy bs old cs c)"

lemma receiving_foreign:
  assumes "receiving sid fname bs old cs us" "foreign sid fname (env, p)"
  obtains us' evs where "file_work env p us = Inr (us', evs)" "receiving sid fname bs old cs us'"
proof -
  from assms(1) have "upload_inv us" "exclusive sid fname (upload_abs us)" by (simp_all add: receiving_def)
  from foreign_step [OF this assms(2)] obtain us' evs where
    "file_work env p us = Inr (us', evs)" "upload_inv us'"
    "undisturbed sid fname (upload_abs us) (upload_abs us')" .
  with assms(1) that show thesis by (simp add: receiving_def undisturbed_def)
qed

lemma receiving_chunk:
  assumes "receiving sid fname bs old cs us" "good_env env" "carries p (chunk_payload sid c)"
    and "slice_of bs c" "length bs < 2 ^ 32"
  obtains us' evs where "file_work env p us = Inr (us', evs)" "receiving sid fname bs old (cs @ [c]) us'"
proof -
  from assms(1) obtain cur where r: "upload_inv us" "exclusive sid fname (upload_abs us)"
    "sp_sess (upload_abs us) sid = Some fname" "sp_fs (upload_abs us) fname = Some cur" "partial_copy bs old cs cur"
    by (auto simp: receiving_def)
  then have "partial_copy bs old cs (sp_contents (upload_abs us) fname)" by (simp add: sp_contents_def)
  from step_chunk [OF r(1) assms(2,3) r(3) assms(4,5) this] obtain us' evs d where
    w: "file_work env p us = Inr (us', evs)" "upload_inv us'"
      "upload_abs us' = (upload_abs us)\<lparr>sp_fs := (sp_fs (upload_abs us))(fname \<mapsto> d)\<rparr>"
      "partial_copy bs old (cs @ [c]) d" .
  with r have "receiving sid fname bs old (cs @ [c]) us'" by (simp add: receiving_def exclusive_def)
  with w(1) that show thesis by blast
qed

lemma receiving_run:
  assumes "receiving sid fname bs old [] us" "carry_all ms (map (chunk_payload sid) cs)"
    and "\<forall>c \<in> set cs. slice_of bs c" "length bs < 2 ^ 32"
    and "\<forall>ep \<in> set os. foreign sid fname ep" "ps \<in> shuffles ms os"
  shows "\<exists>us' evs. run_work file_work ps us = Inr (us', evs) \<and> receiving sid fname bs old cs us'"
proof -
  let ?P = "\<lambda>done us (tr :: event list). receiving sid fname bs old (take (length done) cs) us"
  have len: "length ms = length cs" using assms(2) by (auto simp: carry_all_def dest: list_all2_lengthD)
  have "\<exists>us' evs. run_work file_work ps us = Inr (us', evs) \<and> ?P ms us' ([] @ evs)"
  proof (rule run_work_shuffled [OF _ _ assms(6), where P = ?P and ys = os])
    fix "done" e x rest us tr
    assume ms: "ms = done @ (e, x) # rest" and P: "?P done us tr"
    then have n: "length done < length cs" using len by simp
    then have "good_env e" "carries x (chunk_payload sid (cs ! length done))"
      using assms(2) list_all2_nthD [of _ ms _ "length done"] by (force simp: carry_all_def ms)+
    moreover have "slice_of bs (cs ! length done)" using assms(3) n by simp
    ultimately obtain us' evs where "file_work e x us = Inr (us', evs)"
      "receiving sid fname bs old (take (length done) cs @ [cs ! length done]) us'"
      using receiving_chunk [OF P _ _ _ assms(4)] by blast
    then show "\<exists>us' evs. file_work e x us = Inr (us', evs) \<and> ?P (done @ [(e, x)]) us' (tr @ evs)"
      using n by (simp add: take_Suc_conv_app_nth)
  next
    fix "done" e y us tr
    assume "(e, y) \<in> set os" "?P done us tr"
    with receiving_foreign [of sid fname bs old _ us e y] assms(5)
    show "\<exists>us' evs. file_work e y us = Inr (us', evs) \<and> ?P done us' (tr @ evs)" by blast
  qed (use assms(1) in auto)
  then show ?thesis by (simp add: len)
qed

text \<open>Its OPEN, after requests of others that leave it a place, and its CLOSE.\<close>

lemma receiving_begins:
  assumes inv: "upload_inv us" "exclusive sid fname (upload_abs us)" "sp_sess (upload_abs us) sid = None"
    and fname: "0 \<notin> set fname" "length fname < FILE_NAME_MAX_LEN"
    and os: "\<forall>ep \<in> set os. foreign sid fname ep" "transfers us + foreign_opens os < UPLOAD_MAX_SESSION"
    and po: "good_env env" "carries p (open_payload sid fname)"
  shows "\<exists>us' evs. run_work file_work (os @ [(env, p)]) us = Inr (us', evs)
    \<and> receiving sid fname bs (sp_contents (upload_abs us) fname) [] us'"
proof -
  let ?old = "sp_contents (upload_abs us) fname"
  from foreign_run [OF inv(1,2) os(1)] obtain us1 evs1 where
    r1: "run_work file_work os us = Inr (us1, evs1)" "upload_inv us1"
      "sp_sess (upload_abs us1) sid = None" "sp_contents (upload_abs us1) fname = ?old"
      "exclusive sid fname (upload_abs us1)" "transfers us1 \<le> transfers us + foreign_opens os"
    by (auto simp: undisturbed_def inv(3) sp_contents_def)
  then have "session_unused us1 \<noteq> []"
    using pool_full_iff [OF r1(2)] os(2) by (auto simp: transfers_def)
  from step_open [OF r1(2) po(2) fname po(1) r1(3) this] obtain us2 evs2 where
    r2: "file_work env p us1 = Inr (us2, evs2)" "upload_inv us2"
      "upload_abs us2 = \<lparr>sp_sess = (sp_sess (upload_abs us1))(sid \<mapsto> fname),
                         sp_fs = (sp_fs (upload_abs us1))(fname \<mapsto> ?old)\<rparr>"
    unfolding r1(4) .
  then have "receiving sid fname bs ?old [] us2"
    using r1(5) by (simp add: receiving_def exclusive_def)
  with r1(1) r2(1) show ?thesis by (simp add: run_work_append)
qed

lemma receiving_ends:
  assumes "receiving sid fname bs old cs us" "set cs = set (chunks 0 bs)"
    and pc: "good_env env" "carries p (close_payload sid)"
    and os: "\<forall>ep \<in> set os. foreign sid fname ep"
  shows "\<exists>us' evs. run_work file_work ((env, p) # os) us = Inr (us', evs) \<and> upload_inv us'
    \<and> sp_fs (upload_abs us') fname = Some (uploaded bs old) \<and> sp_sess (upload_abs us') sid = None"
proof -
  from assms(1) obtain c where c: "upload_inv us" "exclusive sid fname (upload_abs us)"
    "sp_sess (upload_abs us) sid = Some fname" "sp_fs (upload_abs us) fname = Some c" "partial_copy bs old cs c"
    by (auto simp: receiving_def)
  have "covers cs i" if "i < length bs" for i
    using chunks_cover [of 0 i bs] that assms(2) by (simp add: covers_def)
  with partial_copy_complete [OF c(5)] have bs: "c = uploaded bs old" by simp
  from step_close [OF c(1) pc(2,1) c(3)] obtain us1 evs1 where
    r1: "file_work env p us = Inr (us1, evs1)" "upload_inv us1"
      "upload_abs us1 = (upload_abs us)\<lparr>sp_sess := (sp_sess (upload_abs us))(sid := None)\<rparr>" .
  have "exclusive sid fname (upload_abs us1)" using c(2) r1(3) by (simp add: exclusive_def)
  from foreign_run [OF r1(2) this os] obtain us2 evs2 where
    "run_work file_work os us1 = Inr (us2, evs2)" "upload_inv us2"
    "sp_sess (upload_abs us2) sid = None" "sp_fs (upload_abs us2) fname = Some (uploaded bs old)"
    by (auto simp: undisturbed_def r1(3) c(4) bs)
  with r1(1) show ?thesis by simp
qed

lemma transfer_among_others:
  assumes inv: "upload_inv us" and excl: "exclusive sid fname (upload_abs us)"
    and new: "sp_sess (upload_abs us) sid = None"
    and fname: "0 \<notin> set fname" "length fname < FILE_NAME_MAX_LEN"
    and cs: "set cs = set (chunks 0 bs)" "length bs < 2 ^ 32"
    and ms: "carry_all ms (open_payload sid fname # map (chunk_payload sid) cs @ [close_payload sid])"
    and os: "\<forall>ep \<in> set os. foreign sid fname ep" "transfers us + foreign_opens os < UPLOAD_MAX_SESSION"
    and ps: "ps \<in> shuffles ms os"
  shows "\<exists>us' evs. run_work file_work ps us = Inr (us', evs) \<and> upload_inv us'
    \<and> sp_fs (upload_abs us') fname = Some (uploaded bs (sp_contents (upload_abs us) fname))
    \<and> sp_sess (upload_abs us') sid = None"
proof -
  let ?old = "sp_contents (upload_abs us) fname"
  from transfer_split [OF ms] obtain eo po pd ec pc where split: "ms = (eo, po) # pd @ [(ec, pc)]"
    "good_env eo" "carries po (open_payload sid fname)"
    "carry_all pd (map (chunk_payload sid) cs)" "good_env ec" "carries pc (close_payload sid)" .
  from shuffles_at_first [OF ps [unfolded split(1)]] obtain os1 os' ps' where
    1: "os = os1 @ os'" "ps = os1 @ (eo, po) # ps'" "ps' \<in> shuffles (pd @ [(ec, pc)]) os'" by blast
  from shuffles_at_last [OF 1(3)] obtain os2 os3 ps2 where 2: "os' = os2 @ os3"
    "ps' = ps2 @ (ec, pc) # os3" "ps2 \<in> shuffles pd os2" by blast
  have os123: "\<forall>ep \<in> set os1. foreign sid fname ep" "\<forall>ep \<in> set os2. foreign sid fname ep"
    "\<forall>ep \<in> set os3. foreign sid fname ep" "transfers us + foreign_opens os1 < UPLOAD_MAX_SESSION"
    using os by (auto simp: 1(1) 2(1))
  from receiving_begins [OF inv excl new fname os123(1,4) split(2,3)] obtain us1 evs1 where
    r1: "run_work file_work (os1 @ [(eo, po)]) us = Inr (us1, evs1)" "receiving sid fname bs ?old [] us1" by blast
  have "\<forall>c \<in> set cs. slice_of bs c" using chunks_slices [of _ "[]" bs] cs(1) by simp
  from receiving_run [OF r1(2) split(4) this cs(2) os123(2) 2(3)] obtain us2 evs2 where
    r2: "run_work file_work ps2 us1 = Inr (us2, evs2)" "receiving sid fname bs ?old cs us2" by auto
  from receiving_ends [OF r2(2) cs(1) split(5,6) os123(3)] obtain us3 evs3 where
    "run_work file_work ((ec, pc) # os3) us2 = Inr (us3, evs3)" "upload_inv us3"
    "sp_fs (upload_abs us3) fname = Some (uploaded bs ?old)" "sp_sess (upload_abs us3) sid = None" by blast
  moreover have "ps = (os1 @ [(eo, po)]) @ ps2 @ (ec, pc) # os3" by (simp add: 1(2) 2(2))
  ultimately show ?thesis
    using r1(1) r2(1) by (simp only: run_work_append sum.case prod.case) auto
qed

section \<open>Properties\<close>

text \<open>C3: Concurrent transfers do not disturb each other: when among the jobs of the file worker are,
  in this order, an OPEN for a file, the chunks of its contents in any order and with
  repetitions, and a CLOSE, mixed in any way with requests of other transfers and with anything
  else that fits the arrays and does not open the same file, and no more transfers are opened
  than there are slots, then in every interleaving of the threads the file ends up with exactly
  these contents (and, behind them, what a longer file of that name had there before), and its
  transfer is closed. The system calls for this transfer are assumed to
  succeed; those for the others may fail.\<close>

theorem concurrent_uplinks:
  assumes "upload_inv (dm_upload d)" "exclusive sid fname (upload_abs (dm_upload d))"
    and "sp_sess (upload_abs (dm_upload d)) sid = None"
    and "0 \<notin> set fname" "length fname < FILE_NAME_MAX_LEN"
    and "set cs = set (chunks 0 bs)" "length bs < 2 ^ 32"
    and "carry_all ms (open_payload sid fname # map (chunk_payload sid) cs @ [close_payload sid])"
    and "\<forall>ep \<in> set os. foreign sid fname ep"
    and "card (dom (sp_sess (upload_abs (dm_upload d)))) + foreign_opens os < UPLOAD_MAX_SESSION"
    and "fst (file_jobs ts (dm_file_queue d)) \<in> shuffles ms os"
    and "safe (run_work shell_work (fst (shell_jobs ts (dm_shell_queue d))) (dm_seq_number d))"
  shows "\<exists>d' tr. daemon_run ts d = Inr (d', tr)
    \<and> sp_fs (upload_abs (dm_upload d')) fname
        = Some (uploaded bs (sp_contents (upload_abs (dm_upload d)) fname))
    \<and> sp_sess (upload_abs (dm_upload d')) sid = None"
proof -
  from transfer_among_others [OF assms(1-9) assms(10) [folded transfers_def] assms(11)] obtain us evs where
    r: "run_work file_work (fst (file_jobs ts (dm_file_queue d))) (dm_upload d) = Inr (us, evs)"
      "sp_fs (upload_abs us) fname = Some (uploaded bs (sp_contents (upload_abs (dm_upload d)) fname))"
      "sp_sess (upload_abs us) sid = None" by blast
  with assms(12) obtain d' tr where run: "daemon_run ts d = Inr (d', tr)"
    using daemon_run_safe [of ts d] by (auto simp: safe_def)
  from file_view.runs_its_jobs [OF run] r run show ?thesis by auto
qed

text \<open>Two transfers, request by request.\<close>

definition p_open8 :: csp_packet where
  "p_open8 = mk_packet 4 (open_payload 8 [103])"

definition p_data8 :: csp_packet where
  "p_data8 = mk_packet 5 (data_payload 8 0 [4, 5])"

definition p_close8 :: csp_packet where
  "p_close8 = mk_packet 6 (close_payload 8)"

definition sched_two :: "turn list" where
  "sched_two = concat (map (\<lambda>p. [Serve srv_ok PORT_FILE p, File_turn env_ok])
     [p_open, p_open8, p_data, p_data8, p_close8, p_close])"

lemma two_examples:
  "carries p_open8 (open_payload 8 [103])" "carries p_data8 (data_payload 8 0 [4, 5])"
  "carries p_close8 (close_payload 8)"
  by (simp_all add: p_open8_def p_data8_def p_close8_def carries_mk_packet open_payload_def
      data_payload_def close_payload_def)

lemma two_foreign:
  "foreign 7 [102] (env_ok, p_open8)" "foreign 7 [102] (env_ok, p_data8)" "foreign 7 [102] (env_ok, p_close8)"
  "foreign 8 [103] (env_ok, p_open)" "foreign 8 [103] (env_ok, p_data)" "foreign 8 [103] (env_ok, p_close)"
  using two_examples carries_examples by (auto simp: foreign_def carries_wf; code_simp)+

lemma two_opens: "foreign_opens [(env_ok, p_open8), (env_ok, p_data8), (env_ok, p_close8)] = 1"
  "foreign_opens [(env_ok, p_open), (env_ok, p_data), (env_ok, p_close)] = 1"
  by code_simp+

lemma concurrent_uplinks_witness:
  "\<exists>d' tr. daemon_run sched_two d_start = Inr (d', tr)
    \<and> sp_fs (upload_abs (dm_upload d')) [102] = Some [1, 2, 3]
    \<and> sp_fs (upload_abs (dm_upload d')) [103] = Some [4, 5]"
proof -
  let ?m7 = "[(env_ok, p_open), (env_ok, p_data), (env_ok, p_close)]"
  let ?m8 = "[(env_ok, p_open8), (env_ok, p_data8), (env_ok, p_close8)]"
  have jobs: "fst (file_jobs sched_two (dm_file_queue d_start)) = [(env_ok, p_open), (env_ok, p_open8),
      (env_ok, p_data), (env_ok, p_data8), (env_ok, p_close8), (env_ok, p_close)]"
    "fst (shell_jobs sched_two (dm_shell_queue d_start)) = []"
    by (simp_all add: sched_two_def d_start_def)
  then have mixed: "fst (file_jobs sched_two (dm_file_queue d_start)) \<in> shuffles ?m7 ?m8"
    "fst (file_jobs sched_two (dm_file_queue d_start)) \<in> shuffles ?m8 ?m7"
    by (simp_all add: Cons_in_shuffles_iff)
  have carry: "carry_all ?m7 (open_payload 7 [102] # map (chunk_payload 7) [(0, [1, 2, 3])] @ [close_payload 7])"
    "carry_all ?m8 (open_payload 8 [103] # map (chunk_payload 8) [(0, [4, 5])] @ [close_payload 8])"
    using carries_examples two_examples good_env_ok by (simp_all add: carry_all_def)
  have chunks: "chunks 0 [1, 2, 3] = [(0, [1, 2, 3])]" "chunks 0 [4, 5] = [(0, [4, 5])]"
    by (simp_all add: chunks.simps)
  have start: "upload_inv (dm_upload d_start)" "exclusive sid fname (upload_abs (dm_upload d_start))"
    "sp_sess (upload_abs (dm_upload d_start)) sid = None" "sp_contents (upload_abs (dm_upload d_start)) fname = []"
    "safe (run_work shell_work (fst (shell_jobs sched_two (dm_shell_queue d_start))) (dm_seq_number d_start))" for sid fname
    unfolding jobs by (simp_all add: d_start_def us_start_inv exclusive_def sp_contents_def)
  have "\<exists>d' tr. daemon_run sched_two d_start = Inr (d', tr) \<and> sp_fs (upload_abs (dm_upload d')) [102] = Some [1, 2, 3]"
    using concurrent_uplinks [OF start(1-3) _ _ _ _ carry(1) _ _ mixed(1) start(5), of "[1, 2, 3]"]
    by (auto simp: chunks two_foreign two_opens start(4)) (auto simp: d_start_def)
  moreover have "\<exists>d' tr. daemon_run sched_two d_start = Inr (d', tr) \<and> sp_fs (upload_abs (dm_upload d')) [103] = Some [4, 5]"
    using concurrent_uplinks [OF start(1-3) _ _ _ _ carry(2) _ _ mixed(2) start(5), of "[4, 5]"]
    by (auto simp: chunks two_foreign two_opens start(4)) (auto simp: d_start_def)
  ultimately show ?thesis by auto
qed

end
