(* ===== verification/Acks.thy ===== *)
theory Acks
  imports Transfers
begin

text \<open>
  The acknowledgements of a transfer among the requests of others: no other request touches
  the pending batch of its slot or sends anything in its name, so that the batches the ground
  receives for it are exact in any mixture of requests and any interleaving of the threads.
\<close>

section \<open>Whose replies\<close>

text \<open>How the ground tells the data replies of a transfer from all other packets: by the telemetry
  id and the session id.\<close>

definition answers :: "u16 \<Rightarrow> csp_packet \<Rightarrow> bool" where
  "answers sid q \<longleftrightarrow> (let t = parse_data_reply (payload q) in
     ud_telemetry_id t = FILE_UPLOAD_DATA_CMD \<and> ud_session_id t = sid)"

lemma answers_data:
  "length es = UPLOAD_DATA_REPLY_ENTRY \<Longrightarrow>
    answers sid (put_payload p (data_reply_image (data_reply cid sid' es)))
      \<longleftrightarrow> cid = FILE_UPLOAD_DATA_CMD \<and> sid' = sid"
  using data_reply.reply_parses [of "data_reply cid sid' es" p]
  by (simp add: answers_def Let_def) (simp add: data_reply_def)

lemma answers_head: "payload q = b # bs \<Longrightarrow> answers sid q \<Longrightarrow> b = FILE_UPLOAD_DATA_CMD"
  by (simp add: answers_def parse_data_reply_def Let_def)

lemma not_answers:
  "cid \<noteq> FILE_UPLOAD_DATA_CMD \<Longrightarrow>
    \<not> answers sid (put_payload p (open_reply_image (open_reply cid ret sid' fname)))"
  "cid \<noteq> FILE_UPLOAD_DATA_CMD \<Longrightarrow>
    \<not> answers sid (put_payload p (close_reply_image (close_reply cid ret sid')))"
  "cid \<noteq> FILE_UPLOAD_DATA_CMD \<Longrightarrow>
    \<not> answers sid (put_payload p (file_err_image \<lparr>fe_telemetry_id = cid, fe_error_code = err\<rparr>))"
proof -
  have "length (uo_file_name (open_reply cid ret sid' fname)) = FILE_NAME_MAX_LEN" by (simp add: open_reply_def)
  from answers_head [OF open_reply.reply_payload [OF this, unfolded open_reply_image_def append_Cons append_Nil]]
  show "cid \<noteq> FILE_UPLOAD_DATA_CMD \<Longrightarrow>
    \<not> answers sid (put_payload p (open_reply_image (open_reply cid ret sid' fname)))"
    by (auto simp: open_reply_image_def) (auto simp: open_reply_def)
  from answers_head [OF close_reply.reply_payload [OF TrueI, unfolded close_reply_image_def append_Cons append_Nil]]
  show "cid \<noteq> FILE_UPLOAD_DATA_CMD \<Longrightarrow>
    \<not> answers sid (put_payload p (close_reply_image (close_reply cid ret sid')))"
    by (auto simp: close_reply_image_def) (auto simp: close_reply_def)
  from answers_head 
      [OF file_err.reply_payload [OF TrueI, where t = "\<lparr>fe_telemetry_id = cid, fe_error_code = err\<rparr>",
        unfolded file_err_image_def append_Cons append_Nil]]
  show "cid \<noteq> FILE_UPLOAD_DATA_CMD \<Longrightarrow>
    \<not> answers sid (put_payload p (file_err_image \<lparr>fe_telemetry_id = cid, fe_error_code = err\<rparr>))"
    by (auto simp: file_err_image_def)
qed

lemma answers_batch:
  assumes "payload q = batch_payload sid' es" "length es \<le> UPLOAD_DATA_REPLY_ENTRY"
  shows "answers sid q \<longleftrightarrow> sid' = sid"
proof -
  have "length (ud_entry (data_reply FILE_UPLOAD_DATA_CMD sid' (pad_entries es))) = UPLOAD_DATA_REPLY_ENTRY"
    using assms(2) by (simp add: data_reply_def pad_entries_def)
  from data_reply.parse_image [OF this, of "[]"] assms(1) show ?thesis
    by (simp add: answers_def batch_payload_def Let_def) (simp add: data_reply_def)
qed

section \<open>Requests of others\<close>

definition stranger :: "u16 \<Rightarrow> upload_env \<times> csp_packet \<Rightarrow> bool" where
  "stranger sid ep \<longleftrightarrow> (case ep of (env, p) \<Rightarrow> wf_packet p \<and> fits p \<and> req_sid p \<noteq> sid)"

definition same_slot :: "u16 \<Rightarrow> nat \<Rightarrow> upload_state \<Rightarrow> upload_state \<Rightarrow> bool" where
  "same_slot sid i us us' \<longleftrightarrow> search_used_session sid us' = Some i \<and> sessions us' ! i = sessions us ! i"

lemma open_keeps_slot:
  assumes inv: "upload_inv us" and i: "search_used_session sid us = Some i" and ne: "sid' \<noteq> sid"
    and run: "open_upload_file env sid' fname us = (ret, us')"
  shows "same_slot sid i us us'"
proof -
  have used: "i \<in> set (session_used us)" using search_used_Some [OF i] by simp
  show ?thesis
    using inv
  proof (cases rule: open_upload_file_cases [of us sid' env fname])
    case (refused j)
    from refused_others [OF inv refused(2,3)] refused(5) run used i show ?thesis by (auto simp: same_slot_def)
  next
    case (opened j h st)
    from opened_others(1,2) [OF inv opened(2,3) upload_inv_opened [OF inv opened(2,3,1,5-7)]] opened(9) run used i ne
    show ?thesis by (auto simp: same_slot_def)
  qed (use run i in \<open>auto simp: same_slot_def\<close>)
qed

lemma stranger_data:
  assumes inv: "upload_inv us" and i: "search_used_session sid us = Some i" and sid: "sid \<noteq> 0"
    and p: "wf_packet p" "req_sid p \<noteq> sid"
    and r: "file_upload_data_cmd env FILE_UPLOAD_DATA_CMD p us = Inr (ret, us', evs)"
  shows "same_slot sid i us us' \<and> filter (answers sid) (sent evs) = []"
  using inv p(1)
proof (cases rule: data_cmd_cases [of us p env FILE_UPLOAD_DATA_CMD])
  case (accepted j s st ret' es)
  have j: "j \<noteq> i" using search_used_Some [OF i] search_used_Some [OF accepted(3)] p(2) by auto
  have "length es \<le> UPLOAD_DATA_REPLY_ENTRY"
    using upload_inv_batch [OF inv, of j] upload_inv_used [OF inv accepted(4)] accepted(6)
    by (simp add: length_pending) (auto simp: batch_wf_def)
  then have "filter (answers sid) (sent (data_acks p FILE_UPLOAD_DATA_CMD (req_sid p) es fl)) = []" for fl
    using p(2) by (simp add: data_acks_def answers_data pad_entries_def)
  moreover have "filter (answers sid) (sent (send_upload_data_err_reply (e_junk env) p FILE_UPLOAD_DATA_CMD ret'
      (req_sid p) (req_offset p) (req_size p))) = []"
    using p(2) by (simp add: send_err_reply_eq answers_data)
  moreover have "same_slot sid i us (set_session j s (us\<lparr>us_stdio := st\<rparr>))"
    using updated_others [OF accepted(7)] upload_inv_used [OF inv accepted(4)] j i
    by (simp add: same_slot_def)
  ultimately show ?thesis using accepted r by auto
qed (use r i sid p(2) in \<open>auto simp: same_slot_def send_err_reply_eq answers_data\<close>)

lemma stranger_step:
  assumes inv: "upload_inv us" and i: "search_used_session sid us = Some i" and sid: "sid \<noteq> 0"
    and s: "stranger sid (env, p)"
  obtains us' evs where "file_work env p us = Inr (us', evs)" "upload_inv us'"
    "same_slot sid i us us'" "filter (answers sid) (sent evs) = []"
proof -
  from s have p: "wf_packet p" "fits p" "req_sid p \<noteq> sid" by (auto simp: stranger_def)
  from file_work_safe_iff [OF inv p(1), of env] p(2) obtain us' evs where
    w: "file_work env p us = Inr (us', evs)" by (auto simp: safe_def)
  have none: "same_slot sid i us us" using i by (simp add: same_slot_def)
  have "same_slot sid i us us' \<and> filter (answers sid) (sent evs) = []"
  proof (cases rule: file_work_cases [of p env us])
    case open_cmd
    with w obtain ret where r: "file_upload_open_cmd env FILE_UPLOAD_OPEN_CMD p us = Inr (ret, us', evs)"
      by (auto simp: drop_ret_Inr)
    show ?thesis
    proof (cases rule: open_cmd_cases [of p env FILE_UPLOAD_OPEN_CMD us])
      case (run fname ret' us'')
      with open_keeps_slot [OF inv i p(3) run(4)] r show ?thesis by (auto simp: send_open_reply_eq not_answers)
    qed (use r none in \<open>auto simp: send_open_reply_eq not_answers\<close>)
  next
    case data_cmd
    with w obtain ret where r: "file_upload_data_cmd env FILE_UPLOAD_DATA_CMD p us = Inr (ret, us', evs)"
      by (auto simp: drop_ret_Inr)
    from stranger_data [OF inv i sid p(1,3) r] show ?thesis .
  next
    case close_cmd
    with w obtain ret where r: "file_upload_close_cmd env FILE_UPLOAD_CLOSE_CMD p us = Inr (ret, us', evs)"
      by (auto simp: drop_ret_Inr)
    from inv show ?thesis
    proof (cases rule: close_cmd_cases [of us p env FILE_UPLOAD_CLOSE_CMD])
      case (closed j h st ret')
      with released_others [OF inv closed(2)] r p(3) i show ?thesis
        by (auto simp: same_slot_def send_close_reply_eq not_answers)
    qed (use r none in \<open>auto simp: send_close_reply_eq not_answers\<close>)
  next
    case other
    with w none show ?thesis by (auto simp: send_err_reply_def not_answers)
  qed
  with w file_work_inv [OF inv p(1) w] that show thesis by blast
qed

section \<open>Batches in any mixture\<close>

definition batches_of :: "u16 \<Rightarrow> event list \<Rightarrow> bytes list" where
  "batches_of sid evs = map payload (filter (answers sid) (sent evs))"

lemma same_slot_pending:
  "search_used_session sid us = Some i \<Longrightarrow> same_slot sid i us us' \<Longrightarrow> pending_of sid us' = pending_of sid us"
  by (simp add: same_slot_def pending_of_def)

lemma batches_append: "batches_of sid (xs @ ys) = batches_of sid xs @ batches_of sid ys"
  by (simp add: batches_of_def)

definition acked :: "u16 \<Rightarrow> nat \<Rightarrow> upload_data_reply_entry list \<Rightarrow>
    (upload_env \<times> csp_packet) list \<Rightarrow> upload_state \<Rightarrow> event list \<Rightarrow> bool" where
  "acked sid i old done us evs \<longleftrightarrow> upload_inv us \<and> search_used_session sid us = Some i
     \<and> (\<exists>batches. batches_of sid evs = map (batch_payload sid) batches
         \<and> concat batches @ pending_of sid us = old @ map ack_of done
         \<and> (\<forall>es \<in> set batches. 0 < length es \<and> length es \<le> UPLOAD_DATA_REPLY_ENTRY))"

lemma acked_data:
  assumes "acked sid i old done us tr" "data_for sid (env, p)"
  obtains us' evs where "file_work env p us = Inr (us', evs)" "acked sid i old (done @ [(env, p)]) us' (tr @ evs)"
proof -
  from assms(1) obtain b0 where a: "upload_inv us" "search_used_session sid us = Some i"
    "batches_of sid tr = map (batch_payload sid) b0" "concat b0 @ pending_of sid us = old @ map ack_of done"
    "\<forall>es \<in> set b0. 0 < length es \<and> length es \<le> UPLOAD_DATA_REPLY_ENTRY"
    by (auto simp: acked_def)
  from ack_step [OF a(1,2) assms(2)] obtain us' evs b where
    s: "file_work env p us = Inr (us', evs)" "upload_inv us'" "search_used_session sid us' = Some i"
      "map payload (sent evs) = map (batch_payload sid) b"
      "concat b @ pending_of sid us' = pending_of sid us @ [ack_of (env, p)]"
      "\<forall>es \<in> set b. 0 < length es \<and> length es \<le> UPLOAD_DATA_REPLY_ENTRY" by blast
  have "answers sid q" if "q \<in> set (sent evs)" for q
  proof -
    from that have "payload q \<in> set (map (batch_payload sid) b)" by (simp flip: s(4))
    with s(6) answers_batch [of q sid _ sid] show ?thesis by auto
  qed
  then have "batches_of sid evs = map (batch_payload sid) b"
    by (simp add: batches_of_def s(4) filter_True)
  moreover have "concat (b0 @ b) @ pending_of sid us' = old @ map ack_of (done @ [(env, p)])"
    using a(4) s(5) by simp
  moreover have "\<forall>es \<in> set (b0 @ b). 0 < length es \<and> length es \<le> UPLOAD_DATA_REPLY_ENTRY"
    using a(5) s(6) by auto
  ultimately have "acked sid i old (done @ [(env, p)]) us' (tr @ evs)"
    unfolding acked_def using a(3) s(2,3)
    by (intro conjI exI [of _ "b0 @ b"]) (simp_all add: batches_append)
  with s(1) that show thesis by blast
qed

lemma acked_stranger:
  assumes "acked sid i old done us tr" "stranger sid (env, p)" "sid \<noteq> 0"
  obtains us' evs where "file_work env p us = Inr (us', evs)" "acked sid i old done us' (tr @ evs)"
proof -
  from assms(1) have a: "upload_inv us" "search_used_session sid us = Some i" by (simp_all add: acked_def)
  from stranger_step [OF a assms(3,2)] obtain us' evs where
    s: "file_work env p us = Inr (us', evs)" "upload_inv us'" "same_slot sid i us us'"
      "filter (answers sid) (sent evs) = []" .
  have "acked sid i old done us' (tr @ evs)"
    using assms(1) s(2-4) same_slot_pending [OF a(2) s(3)]
    by (simp add: acked_def batches_append) (simp add: batches_of_def same_slot_def)
  with s(1) that show thesis by blast
qed

lemma ack_mixed:
  assumes "upload_inv us" "search_used_session sid us = Some i" "sid \<noteq> 0"
    and "\<forall>ep \<in> set ms. data_for sid ep" "\<forall>ep \<in> set os. stranger sid ep" "ps \<in> shuffles ms os"
  shows "\<exists>us' evs. run_work file_work ps us = Inr (us', evs) \<and> acked sid i (pending_of sid us) ms us' evs"
proof -
  let ?P = "acked sid i (pending_of sid us)"
  have "\<exists>us' evs. run_work file_work ps us = Inr (us', evs) \<and> ?P ms us' ([] @ evs)"
  proof (rule run_work_shuffled [OF _ _ assms(6), where P = ?P and ys = os])
    fix "done" e x rest us tr
    assume ms: "ms = done @ (e, x) # rest" and P: "?P done us tr"
    from assms(4) ms have "data_for sid (e, x)" by simp
    from acked_data [OF P this]
    show "\<exists>us' evs. file_work e x us = Inr (us', evs) \<and> ?P (done @ [(e, x)]) us' (tr @ evs)" by metis
  next
    fix "done" e y us tr
    assume os: "(e, y) \<in> set os" and P: "?P done us tr"
    from assms(5) os have "stranger sid (e, y)" by blast
    from acked_stranger [OF P this assms(3)]
    show "\<exists>us' evs. file_work e y us = Inr (us', evs) \<and> ?P done us' (tr @ evs)" by metis
  next
    show "?P [] us []" unfolding acked_def using assms(1,2)
      by (intro conjI exI [of _ "[]"]) (simp_all add: batches_of_def)
  qed simp_all
  then show ?thesis by simp
qed

section \<open>Properties\<close>

text \<open>C8: Acknowledgements are exact among concurrent transfers: over any number of chunks a
  transfer accepts, mixed in any way with requests for other transfers and in any interleaving
  of the threads, the batches the file worker sends in its name (told by their telemetry id and
  session id) and the batch still pending are together the old pending batch followed by one
  acknowledgement per chunk, in order; no batch is empty or longer than 20. The transfer must
  not have the number 0, under which malformed DATA requests are answered.\<close>

theorem acknowledgements_in_any_interleaving:
  assumes "upload_inv (dm_upload d)" "search_used_session sid (dm_upload d) \<noteq> None" "sid \<noteq> 0"
    and "\<forall>ep \<in> set ms. data_for sid ep" "\<forall>ep \<in> set os. stranger sid ep"
    and "fst (file_jobs ts (dm_file_queue d)) \<in> shuffles ms os"
    and "safe (run_work shell_work (fst (shell_jobs ts (dm_shell_queue d))) (dm_seq_number d))"
  shows "\<exists>d' tr batches. daemon_run ts d = Inr (d', tr)
    \<and> map payload (filter (answers sid) (sent (events_of File_worker tr))) = map (batch_payload sid) batches
    \<and> concat batches @ pending_of sid (dm_upload d') = pending_of sid (dm_upload d) @ map ack_of ms
    \<and> (\<forall>es \<in> set batches. 0 < length es \<and> length es \<le> UPLOAD_DATA_REPLY_ENTRY)"
proof -
  from assms(2) obtain i where "search_used_session sid (dm_upload d) = Some i" by blast
  from ack_mixed [OF assms(1) this assms(3-6)] obtain us evs where
    r: "run_work file_work (fst (file_jobs ts (dm_file_queue d))) (dm_upload d) = Inr (us, evs)"
      "acked sid i (pending_of sid (dm_upload d)) ms us evs" by blast
  with assms(7) obtain d' tr where run: "daemon_run ts d = Inr (d', tr)"
    using daemon_run_safe [of ts d] by (auto simp: safe_def)
  from file_view.runs_its_jobs [OF run] r run show ?thesis by (auto simp: acked_def batches_of_def)
qed

text \<open>A full chunk and a short one, and between them one for a transfer that does not exist.\<close>

definition sched_acks :: "turn list" where
  "sched_acks = [Serve srv_ok PORT_FILE p_full, File_turn env_ok, Serve srv_ok PORT_FILE p_data8,
     Serve srv_ok PORT_FILE p_data, File_turn env_ok, Shell_turn (sh_ok []), File_turn env_ok]"

lemma acknowledgements_in_any_interleaving_witness:
  "\<exists>us d' tr batches. daemon_run sched_acks (d_start\<lparr>dm_upload := us\<rparr>) = Inr (d', tr)
    \<and> map payload (filter (answers 7) (sent (events_of File_worker tr))) = map (batch_payload 7) batches
    \<and> concat batches @ pending_of 7 (dm_upload d') = pending_of 7 us @ [ack 200 0 200, ack 3 0 3]"
proof -
  obtain us evs where us: "upload_inv us" "search_used_session 7 us \<noteq> None" by (rule us_opened)
  let ?d = "d_start\<lparr>dm_upload := us\<rparr>" and ?ms = "[(env_ok, p_full), (env_ok, p_data)]"
  note r2 = data_request [OF carries_examples(2)] and r3 = data_request [OF carries_examples(3)]
  have own: "\<forall>ep \<in> set ?ms. data_for 7 ep"
    using r2 r3 wf_examples by (simp add: data_for_def env_ok_def)
  have acks: "map ack_of ?ms = [ack 200 0 200, ack 3 0 3]"
    using r2 r3 by (simp add: ack_of_def write_result_def env_ok_def)
  have theirs: "\<forall>ep \<in> set [(env_ok, p_data8)]. stranger 7 ep"
    using two_foreign(2) by (simp add: stranger_def foreign_def)
  have jobs: "fst (file_jobs sched_acks (dm_file_queue ?d)) = [(env_ok, p_full), (env_ok, p_data8), (env_ok, p_data)]"
    "fst (shell_jobs sched_acks (dm_shell_queue ?d)) = []"
    by (simp_all add: sched_acks_def d_start_def)
  then have mixed: "fst (file_jobs sched_acks (dm_file_queue ?d)) \<in> shuffles ?ms [(env_ok, p_data8)]"
    by (simp add: Cons_in_shuffles_iff)
  have "safe (run_work shell_work (fst (shell_jobs sched_acks (dm_shell_queue ?d))) (dm_seq_number ?d))"
    unfolding jobs by simp
  from acknowledgements_in_any_interleaving [OF _ _ _ own theirs mixed this] us
  show ?thesis unfolding acks by auto
qed

end
