(* ===== verification/PhotoSession.thy ===== *)
theory PhotoSession
  imports HwtestProps "HOL-Library.Multiset"
begin

text \<open>
  Photo sessions: the camera commands of the hardware test together with the camera programs
  they start in the background, which write their frames into the photo directory later, in
  any order, or end without a frame. From the command that clears the directory on, the frame
  count tells how many of the captures have left a frame, those included that were under way
  when the directory was cleared.
\<close>

section \<open>The camera programs\<close>

text \<open>\<open>system\<close> runs \<open>cam\<close> in the background, which writes the file that \<open>--file\<close> names: the entry
  of the photo directory that a capture command asks for.\<close>

definition target :: "string \<Rightarrow> string" where
  "target cmd = takeWhile (\<lambda>c. c \<noteq> CHR '' '')
     (drop (length (''cam -c 1 --capture=1 --file='' @ CAM_FRAME_PATH @ ''/'')) cmd)"

fun started_by :: "cam_env \<Rightarrow> event list \<Rightarrow> string list" where
  "started_by env [] = []"
| "started_by env (Ev_system cmd # es) =
     (if ce_system env cmd = 0 then target cmd # started_by env es else started_by env es)"
| "started_by env (_ # es) = started_by env es"

text \<open>The frames that were asked for, those whose camera programs still run, and those whose programs
  have ended without leaving a frame. A camera program writes its frame in one step, at its end.\<close>

record photo_world =
  pw_cam :: cam_state
  pw_started :: "string list"
  pw_running :: "string list"
  pw_lost :: "string list"

definition write_entry :: "string \<Rightarrow> cam_state \<Rightarrow> cam_state" where
  "write_entry name cs = cs\<lparr>cam_dir :=
     (case cam_dir cs of None \<Rightarrow> None | Some d \<Rightarrow> Some (if name \<in> set d then d else d @ [name]))\<rparr>"

datatype photo_turn =
    Request hw_env csp_packet   \<comment> \<open>the handler gets a packet\<close>
  | Written string              \<comment> \<open>a running camera program has written its frame and ends\<close>
  | Ended string                \<comment> \<open>a running camera program ends and leaves no frame\<close>

fun photo_step :: "photo_turn \<Rightarrow> photo_world \<Rightarrow> photo_world" where
  "photo_step (Request env p) w =
     (let (cs, evs) = hwtest_handler env (Some p) (pw_cam w);
          new = started_by (he_cam env) evs in
      w\<lparr>pw_cam := cs, pw_started := pw_started w @ new, pw_running := pw_running w @ new\<rparr>)"
| "photo_step (Written name) w =
     (if name \<in> set (pw_running w) then
        w\<lparr>pw_cam := write_entry name (pw_cam w), pw_running := remove1 name (pw_running w)\<rparr>
      else w)"
| "photo_step (Ended name) w =
     (if name \<in> set (pw_running w) then
        w\<lparr>pw_running := remove1 name (pw_running w), pw_lost := name # pw_lost w\<rparr>
      else w)"

definition photo_run :: "photo_turn list \<Rightarrow> photo_world \<Rightarrow> photo_world" where
  "photo_run ts w = fold photo_step ts w"

text \<open>The start of a session: \<open>late\<close> are the frames of earlier captures whose programs still run.\<close>

definition session_start :: "string list \<Rightarrow> cam_state \<Rightarrow> photo_world" where
  "session_start late cs = \<lparr>pw_cam = cs, pw_started = late, pw_running = late, pw_lost = []\<rparr>"

section \<open>Names of frames\<close>

lemma frame_entry_no_blank: "CHR '' '' \<notin> set (frame_entry sq)"
  using dec_digits [of "unat sq"] by (auto simp: frame_entry_def fmt03_def)

lemma target_capture: "target (capture_command sq) = frame_entry sq"
proof -
  have "target (capture_command sq) = takeWhile (\<lambda>c. c \<noteq> CHR '' '') (frame_entry sq @ '' &'')"
    by (simp add: target_def capture_command_def CAM_FRAME_PATH_def)
  also have "\<dots> = frame_entry sq" using frame_entry_no_blank [of sq] by (subst takeWhile_append2) auto
  finally show ?thesis .
qed

abbreviation names_from :: "u16 \<Rightarrow> nat \<Rightarrow> string list" where
  "names_from seq n \<equiv> map (\<lambda>i. frame_entry (seq + of_nat i)) [0..<n]"

lemma names_distinct: "n \<le> 65536 \<Longrightarrow> distinct (names_from seq n)"
  using seq_inj_on [of n seq] by (auto simp: distinct_map inj_on_def frame_entry_inj)

text \<open>\<open>late\<close> are different names of the last \<open>k\<close> captures before the number \<open>seq\<close>.\<close>

definition left_over :: "nat \<Rightarrow> u16 \<Rightarrow> string list \<Rightarrow> bool" where
  "left_over k seq late \<longleftrightarrow> distinct late \<and> set late \<subseteq> set (names_from (seq - of_nat k) k)"

lemma names_split: "names_from (seq - of_nat k) (k + n) = names_from (seq - of_nat k) k @ names_from seq n"
proof -
  have "[0..<k + n] = [0..<k] @ map (\<lambda>i. i + k) [0..<n]"
    unfolding map_add_upt by (metis add.commute le0 upt_add_eq_append)
  then show ?thesis by (simp only: map_append map_map comp_def) (simp add: algebra_simps)
qed

lemma left_over_distinct:
  assumes "left_over k seq late" "k + n \<le> 65536"
  shows "distinct (late @ names_from seq n)"
proof -
  have "distinct (names_from (seq - of_nat k) k @ names_from seq n)"
    using names_distinct [OF assms(2), of "seq - of_nat k"] by (simp only: names_split)
  with assms(1) show ?thesis by (auto simp: left_over_def)
qed

lemma left_over_frames: "left_over k seq late \<Longrightarrow> \<forall>name \<in> set late. is_frame name"
  using is_frame_entry by (auto simp: left_over_def)

section \<open>Commands\<close>

fun is_init :: "photo_turn \<Rightarrow> bool" where
  "is_init (Request env p) \<longleftrightarrow> pk_length p \<noteq> 0 \<and> cmd_id p = HWTEST_INIT_PHOTO_DIR_CMD"
| "is_init (Written name) \<longleftrightarrow> False"
| "is_init (Ended name) \<longleftrightarrow> False"

lemma temp_starts_none: "started_by env (get_temp_service i2c c p) = []"
  by (simp add: get_temp_service_def get_tmp175_temp_cases Let_def)

lemma count_starts_none:
  "get_frame_count_service env c p cs = (cs', evs) \<Longrightarrow> cs' = cs \<and> started_by env' evs = []"
  by (auto simp: get_frame_count_service_def get_frame_file_count_def Let_def split: option.splits if_splits)

lemma remove_starts_none: "remove_frames env names d = (d', evs) \<Longrightarrow> started_by env' evs = []"
  by (induction names arbitrary: d evs) (auto simp: Let_def split: if_splits prod.splits)

lemma started_by_append: "started_by env (xs @ ys) = started_by env xs @ started_by env ys"
  by (induction env xs rule: started_by.induct) simp_all

lemma init_starts_none:
  assumes "pk_length p \<noteq> 0" "cmd_id p = HWTEST_INIT_PHOTO_DIR_CMD" "hwtest_handler env (Some p) cs = (cs', evs)"
  shows "started_by (he_cam env) evs = []"
proof (cases rule: hwtest_handler_cases [of p env cs])
  case init
  then have "init_photo_dir_service (he_cam env) HWTEST_INIT_PHOTO_DIR_CMD p cs = (cs', evs)" using assms(3) by simp
  then show ?thesis using remove_starts_none
    by (auto simp: init_photo_dir_service_def init_photo_dir_def started_by_append split: option.splits if_splits prod.splits)
qed (use assms in auto)

text \<open>A request other than INIT leaves the photo directory alone, and starts the camera program for the
  next name if it is a capture that succeeds.\<close>

lemma request_cases:
  assumes "\<not> is_init (Request env p)" "hwtest_handler env (Some p) cs = (cs', evs)"
  obtains (none) "cs' = cs" "started_by (he_cam env) evs = []"
  | (one) "cs' = cs\<lparr>cam_seq := cam_seq cs + 1\<rparr>" "started_by (he_cam env) evs = [frame_entry (cam_seq cs)]"
proof (cases rule: hwtest_handler_cases [of p env cs])
  case temp
  then show thesis using assms(2) by (intro none) (auto simp: temp_starts_none)
next
  case init
  then show thesis using assms(1) by simp
next
  case capture
  then have "(cs', evs) = capture_frame_service (he_cam env) HWTEST_CAPTURE_FRAME_CMD p cs" using assms(2) by simp
  then show thesis
    by (cases "ce_system (he_cam env) (capture_command (cam_seq cs)) = 0")
      (auto simp: capture_frame_service_def capture_frame_eq target_capture intro: none one)
next
  case count
  then have "get_frame_count_service (he_cam env) HWTEST_GET_FRAME_COUNT_CMD p cs = (cs', evs)" using assms(2) by simp
  from count_starts_none [OF this] show thesis by (intro none) simp_all
next
  case other
  then show thesis using assms(2) by (intro none) auto
qed

section \<open>The session\<close>

text \<open>From the start of a session, with the sequence number \<open>seq\<close>, the programs \<open>late\<close> still
  running and the other entries \<open>others\<close>: the new names are those of consecutive numbers, and
  each name is a frame in the directory, still to be written, or lost.\<close>

definition session_inv :: "u16 \<Rightarrow> string list \<Rightarrow> string list \<Rightarrow> nat \<Rightarrow> photo_world \<Rightarrow> bool" where
  "session_inv seq late others n w \<longleftrightarrow>
     pw_started w = late @ names_from seq n
     \<and> cam_seq (pw_cam w) = seq + of_nat n
     \<and> (\<exists>d. cam_dir (pw_cam w) = Some d \<and> filter (\<lambda>n. \<not> is_frame n) d = others
          \<and> mset (filter is_frame d) + mset (pw_running w) + mset (pw_lost w) = mset (pw_started w))"

lemma session_request:
  assumes "session_inv seq late others n w" "\<not> is_init (Request env p)"
  shows "\<exists>n' \<ge> n. session_inv seq late others n' (photo_step (Request env p) w)"
proof -
  obtain cs evs where h: "hwtest_handler env (Some p) (pw_cam w) = (cs, evs)" by fastforce
  from assms(2) h show ?thesis
  proof (cases rule: request_cases)
    case none
    with assms(1) h show ?thesis by (auto simp: session_inv_def intro!: exI [of _ n])
  next
    case one
    then have "photo_step (Request env p) w = w\<lparr>pw_cam := (pw_cam w)\<lparr>cam_seq := cam_seq (pw_cam w) + 1\<rparr>,
        pw_started := pw_started w @ [frame_entry (cam_seq (pw_cam w))],
        pw_running := pw_running w @ [frame_entry (cam_seq (pw_cam w))]\<rparr>"
      by (simp add: h Let_def)
    with assms(1) have "session_inv seq late others (Suc n) (photo_step (Request env p) w)"
      by (auto simp: session_inv_def)
    then show ?thesis by (intro exI [of _ "Suc n"]) simp
  qed
qed

text \<open>A program that writes its frame adds an entry: its name is in the directory no more often than
  it was asked for.\<close>

lemma running_is_new:
  assumes "session_inv seq late others n w" "distinct (pw_started w)" "name \<in> set (pw_running w)"
    and "cam_dir (pw_cam w) = Some d"
  shows "name \<in> set (pw_started w)" "name \<notin> set (filter is_frame d)"
proof -
  from assms(1,4) have m: "mset (filter is_frame d) + mset (pw_running w) + mset (pw_lost w) = mset (pw_started w)"
    by (auto simp: session_inv_def)
  from m assms(3) show "name \<in> set (pw_started w)"
    by (metis set_mset_mset set_mset_union UnI1 UnI2)
  have "count (mset (pw_started w)) name \<le> 1" using assms(2) by (simp add: distinct_count_atmost_1)
  moreover have "1 \<le> count (mset (pw_running w)) name" using assms(3) by (simp add: Suc_le_eq)
  ultimately have "count (mset (filter is_frame d)) name = 0" unfolding m [symmetric] count_union by linarith
  then show "name \<notin> set (filter is_frame d)" by (simp only: count_eq_zero_iff set_mset_mset simp_thms)
qed

lemma session_ended:
  assumes "session_inv seq late others n w"
  shows "session_inv seq late others n (photo_step (Ended name) w)"
proof (cases "name \<in> set (pw_running w)")
  case True
  then have "mset (remove1 name (pw_running w)) + mset (name # pw_lost w) = mset (pw_running w) + mset (pw_lost w)"
    by simp
  with assms True show ?thesis by (fastforce simp: session_inv_def add.assoc)
qed (use assms in simp)

lemma session_written:
  assumes inv: "session_inv seq late others n w" and late: "left_over k seq late" and n: "k + n \<le> 65536"
  shows "session_inv seq late others n (photo_step (Written name) w)"
proof (cases "name \<in> set (pw_running w)")
  case True
  from inv obtain d where
    d: "pw_started w = late @ names_from seq n" "cam_dir (pw_cam w) = Some d" "filter (\<lambda>n. \<not> is_frame n) d = others"
      "mset (filter is_frame d) + mset (pw_running w) + mset (pw_lost w) = mset (pw_started w)"
    by (auto simp: session_inv_def)
  have "distinct (pw_started w)" unfolding d(1) by (rule left_over_distinct [OF late n])
  note new = running_is_new [OF inv this True d(2)]
  with d(1) left_over_frames [OF late] is_frame_entry have frame: "is_frame name" by auto
  then have fresh: "name \<notin> set d" using new(2) by simp
  have "mset (filter is_frame (d @ [name])) + mset (remove1 name (pw_running w)) = mset (filter is_frame d) + mset (pw_running w)"
    using frame True by simp
  with inv d True fresh frame show ?thesis by (simp add: session_inv_def write_entry_def)
qed (use inv in simp)

lemma session_run:
  assumes "session_inv seq late others n w" "left_over k seq late" "\<forall>t \<in> set ts. \<not> is_init t"
    and "k + (length (pw_started (photo_run ts w)) - length late) \<le> 65536"
  shows "\<exists>n' \<ge> n. session_inv seq late others n' (photo_run ts w)"
  using assms(1,3,4) unfolding photo_run_def
proof (induction ts arbitrary: w n)
  case (Cons t ts)
  have ex: "\<exists>n' \<ge> m. length (pw_started (fold photo_step us v)) = length late + n'"
    if "length (pw_started v) = length late + m" for us v m
    using that
  proof (induction us arbitrary: v m)
    case (Cons u us)
    have "\<exists>m' \<ge> m. length (pw_started (photo_step u v)) = length late + m'"
      using Cons.prems by (cases u) (auto simp: Let_def split: prod.split)
    then obtain m' where "m \<le> m'" "length (pw_started (photo_step u v)) = length late + m'" by blast
    with Cons.IH [OF this(2)] show ?case by (auto dest: le_trans)
  qed auto
  have l: "length (pw_started w) = length late + n" using Cons.prems(1) by (simp add: session_inv_def)
  from ex [OF l, of "t # ts"] Cons.prems(3) have n: "k + n \<le> 65536" by auto
  have "\<exists>n' \<ge> n. session_inv seq late others n' (photo_step t w)"
  proof (cases t)
    case (Request env p)
    with session_request [OF Cons.prems(1)] Cons.prems(2) show ?thesis by auto
  next
    case (Written name)
    with session_written [OF Cons.prems(1) assms(2) n] show ?thesis by blast
  next
    case (Ended name)
    with session_ended [OF Cons.prems(1)] show ?thesis by blast
  qed
  then obtain n' where "n \<le> n'" "session_inv seq late others n' (photo_step t w)" by blast
  with Cons.IH [OF this(2)] Cons.prems(2,3) show ?case by (auto dest: le_trans)
qed auto

section \<open>Property\<close>

text \<open>C29: A photo session. From an INIT command on, whatever other requests reach the hardware test, and
  in whatever order the camera programs that the CAPTURE commands start write their frames or
  end without one: the captures that were started have consecutive numbers, which INIT does not
  reset; the frames in the directory are exactly those of the captures that have left a frame,
  each once, and its other entries are as they were; and GET_FRAME_COUNT counts these frames.
  Camera programs of earlier captures that still run at the INIT (\<open>late\<close>) are among them: a
  frame that one of them writes after the INIT is in the directory and is counted. This holds
  for the 65536 captures after which the names repeat, reckoned from the oldest that still runs.
  A camera program is taken to write its frame in one step. (What of the count is transmitted
  depends on the length of the request.)\<close>

theorem photo_session:
  assumes "pk_length p \<noteq> 0" "cmd_id p = HWTEST_INIT_PHOTO_DIR_CMD"
    and "ce_opendir (he_cam env)" "ce_mkdir (he_cam env)" "\<forall>path. ce_remove (he_cam env) path"
    and "\<forall>d. cam_dir cs = Some d \<longrightarrow> (\<forall>name \<in> set d. length name \<le> NAME_MAX)"
    and "\<forall>t \<in> set ts. \<not> is_init t" "left_over k (cam_seq cs) late"
    and "w = photo_run (Request env p # ts) (session_start late cs)"
    and "k + (length (pw_started w) - length late) \<le> 65536"
    and "wf_packet q" "pk_length q \<noteq> 0" "cmd_id q = HWTEST_GET_FRAME_COUNT_CMD" "ce_opendir (he_cam env')"
  shows "pw_started w = late @ names_from (cam_seq cs) (length (pw_started w) - length late) \<and> distinct (pw_started w)
    \<and> (\<exists>d. cam_dir (pw_cam w) = Some d
        \<and> mset (filter is_frame d) = mset (pw_started w) - mset (pw_running w) - mset (pw_lost w)
        \<and> filter (\<lambda>n. \<not> is_frame n) d =
            filter (\<lambda>n. \<not> is_frame n) (case cam_dir cs of None \<Rightarrow> [''.'', ''..''] | Some d0 \<Rightarrow> d0))
    \<and> (\<exists>evs r. hwtest_handler env' (Some q) (pw_cam w) = (pw_cam w, evs @ [Ev_reply r])
        \<and> hc_frame_count (parse_cam (pk_data r)) =
            of_nat (length (pw_started w) - length (pw_running w) - length (pw_lost w)))"
proof -
  let ?others = "filter (\<lambda>n. \<not> is_frame n) (case cam_dir cs of None \<Rightarrow> [''.'', ''..''] | Some d0 \<Rightarrow> d0)"
  obtain cs1 evs1 where h: "hwtest_handler env (Some p) cs = (cs1, evs1)" by fastforce
  note cleared = init_clears_frames [OF assms(1-6) h]
  have none: "started_by (he_cam env) evs1 = []" by (rule init_starts_none [OF assms(1,2) h])
  have "\<not> is_frame ''.''" "\<not> is_frame ''..''" by code_simp+
  with cleared have start: "session_inv (cam_seq cs) late ?others 0 (session_start late cs1)"
    by (auto simp: session_inv_def session_start_def filter_empty_conv split: option.splits)
  have w: "w = photo_run ts (session_start late cs1)"
    using h none by (simp add: assms(9) photo_run_def session_start_def)
  from session_run [OF start assms(8,7)] assms(10) obtain n where
    inv: "session_inv (cam_seq cs) late ?others n w" by (auto simp: w)
  then obtain d where
    d: "pw_started w = late @ names_from (cam_seq cs) n" "cam_dir (pw_cam w) = Some d"
      "filter (\<lambda>n. \<not> is_frame n) d = ?others"
      "mset (filter is_frame d) + mset (pw_running w) + mset (pw_lost w) = mset (pw_started w)"
    by (auto simp: session_inv_def)
  then have n: "n = length (pw_started w) - length late" by simp
  have dist: "distinct (pw_started w)"
    unfolding d(1) by (rule left_over_distinct [OF assms(8)]) (use assms(10) n in simp)
  from arg_cong [OF d(4), of size] have
    len: "length (filter is_frame d) = length (pw_started w) - length (pw_running w) - length (pw_lost w)"
    by (simp flip: mset_filter)
  from count_reply_keeps_request_length [OF assms(11-14) d(2)] obtain evs r where
    "hwtest_handler env' (Some q) (pw_cam w) = (pw_cam w, evs @ [Ev_reply r])"
    "hc_frame_count (parse_cam (pk_data r)) = of_nat (length (filter is_frame d))" by auto
  moreover have "mset (filter is_frame d) = mset (pw_started w) - mset (pw_running w) - mset (pw_lost w)"
    unfolding d(4) [symmetric] by simp
  ultimately show ?thesis using d(1) [unfolded n] d(2,3) dist unfolding len by blast
qed

text \<open>The program of the frame 2 still runs when the directory is cleared. Of two captures after that
  the second is finished first, and then the late one; the count is 2.\<close>

lemma photo_session_witness:
  "\<exists>w d evs r. w = photo_run [Request \<lparr>he_i2c = i2c_ok, he_cam = cam_ok\<rparr> (mk_packet 1 [1]),
       Request \<lparr>he_i2c = i2c_ok, he_cam = cam_ok\<rparr> (mk_packet 2 [2]),
       Request \<lparr>he_i2c = i2c_ok, he_cam = cam_ok\<rparr> (mk_packet 3 [2]), Written ''frame-004.bin'',
       Written ''frame-002.bin''] (session_start [''frame-002.bin''] cs_photos)
    \<and> pw_running w = [''frame-003.bin''] \<and> cam_dir (pw_cam w) = Some d
    \<and> mset (filter is_frame d) = {# ''frame-002.bin'', ''frame-004.bin'' #}
    \<and> filter (\<lambda>n. \<not> is_frame n) d = [''.'', ''..'', ''notes'']
    \<and> hwtest_handler \<lparr>he_i2c = i2c_ok, he_cam = cam_ok\<rparr> (Some p_count) (pw_cam w) = (pw_cam w, evs @ [Ev_reply r])
    \<and> hc_frame_count (parse_cam (pk_data r)) = 2"
proof -
  let ?env = "\<lparr>he_i2c = i2c_ok, he_cam = cam_ok\<rparr>"
  let ?late = "[''frame-002.bin'']"
  let ?ts = "[Request ?env (mk_packet 2 [2]), Request ?env (mk_packet 3 [2]), Written ''frame-004.bin'', Written ''frame-002.bin'']"
  let ?w = "photo_run (Request ?env (mk_packet 1 [1]) # ?ts) (session_start ?late cs_photos)"
  have p: "pk_length (mk_packet 1 [1]) \<noteq> 0" "cmd_id (mk_packet 1 [1]) = HWTEST_INIT_PHOTO_DIR_CMD"
    "\<forall>t \<in> set ?ts. \<not> is_init t" by code_simp+
  have late: "left_over 1 (cam_seq cs_photos) ?late" unfolding left_over_def by code_simp
  have q: "wf_packet p_count" "pk_length p_count \<noteq> 0" "cmd_id p_count = HWTEST_GET_FRAME_COUNT_CMD" by code_simp+
  obtain w where w: "w = ?w" by simp
  have "pw_started ?w = [''frame-002.bin'', ''frame-003.bin'', ''frame-004.bin'']" "pw_running ?w = [''frame-003.bin'']"
    "pw_lost ?w = []" by code_simp+
  then have sr: "pw_started w = [''frame-002.bin'', ''frame-003.bin'', ''frame-004.bin'']" "pw_running w = [''frame-003.bin'']"
    "pw_lost w = []" unfolding w by simp_all
  have names: "\<forall>d. cam_dir cs_photos = Some d \<longrightarrow> (\<forall>name \<in> set d. length name \<le> NAME_MAX)"
    by (simp add: cs_photos_def)
  have others: "filter (\<lambda>n. \<not> is_frame n) (case cam_dir cs_photos of None \<Rightarrow> [''.'', ''..''] | Some d0 \<Rightarrow> d0)
      = [''.'', ''..'', ''notes'']" by code_simp
  have cam: "ce_opendir (he_cam ?env)" "ce_mkdir (he_cam ?env)" "\<forall>path. ce_remove (he_cam ?env) path"
    by (simp_all add: cam_ok_def)
  from photo_session [OF p(1,2) cam names p(3) late w _ q cam(1)] obtain d evs r where
    "cam_dir (pw_cam w) = Some d" "mset (filter is_frame d) = {# ''frame-002.bin'', ''frame-004.bin'' #}"
    "filter (\<lambda>n. \<not> is_frame n) d = [''.'', ''..'', ''notes'']"
    "hwtest_handler ?env (Some p_count) (pw_cam w) = (pw_cam w, evs @ [Ev_reply r])"
    "hc_frame_count (parse_cam (pk_data r)) = 2"
    unfolding sr others by auto
  with w sr(2) show ?thesis by blast
qed

end
