(* ===== verification/Float32.thy ===== *)
theory Float32
  imports Complex_Main "HOL-Library.Log_Nat" Prelude
begin

text \<open>
  C's type \<open>float\<close> on the targets of the repository: IEEE 754 binary32, every operation
  rounded to nearest, ties to even, and no extended precision (\<open>FLT_EVAL_METHOD\<close> is 0).

  A \<open>float\<close> is its 32-bit pattern; \<open>f32_val\<close> is the number a finite pattern stands
  for. An operation of the code is its exact result on the values, rounded by
  \<open>f32_round\<close>. The operations are used on finite operands only, none of which is a
  negative zero.
\<close>

section \<open>Patterns and values\<close>

type_synonym f32 = u32

text \<open>The fields of a pattern: the sign, the biased exponent, the fraction.\<close>

definition f32_neg :: "f32 \<Rightarrow> bool" where
  "f32_neg w \<longleftrightarrow> uint w div 2 ^ 31 = 1"

definition f32_exp :: "f32 \<Rightarrow> int" where
  "f32_exp w = uint w div 2 ^ 23 mod 2 ^ 8"

definition f32_frac :: "f32 \<Rightarrow> int" where
  "f32_frac w = uint w mod 2 ^ 23"

definition f32_finite :: "f32 \<Rightarrow> bool" where
  "f32_finite w \<longleftrightarrow> f32_exp w < 255"

definition f32_mag :: "f32 \<Rightarrow> rat" where
  "f32_mag w =
     (if f32_exp w = 0 then of_int (f32_frac w) * 2 powi (- 149)
      else of_int (2 ^ 23 + f32_frac w) * 2 powi (f32_exp w - 150))"

definition f32_val :: "f32 \<Rightarrow> rat" where
  "f32_val w = (if f32_neg w then - f32_mag w else f32_mag w)"

text \<open>\<open>NAN\<close> of \<open>math.h\<close> as GCC has it: quiet, positive, no further payload.\<close>

definition f32_NAN :: f32 where
  "f32_NAN = 0x7FC00000"

section \<open>Rounding\<close>

text \<open>The nearest integer, the even one of two that are equally near.\<close>

definition round_even :: "rat \<Rightarrow> int" where
  "round_even q =
     (let f = \<lfloor>q\<rfloor>; r = q - of_int f in
      if r < 1 / 2 \<or> (r = 1 / 2 \<and> even f) then f else f + 1)"

text \<open>The exponent of the leading binary digit of a positive number.\<close>

definition log2_floor :: "rat \<Rightarrow> int" where
  "log2_floor q =
     (let (n, d) = quotient_of q; k = bitlen n - bitlen d in
      if 2 powi k \<le> q then k else k - 1)"

text \<open>The exponent of the last of the 24 digits that are kept, bounded by that of the subnormal
  numbers.\<close>

definition ulp_exp :: "rat \<Rightarrow> int" where
  "ulp_exp q = max (log2_floor q - 23) (- 149)"

text \<open>The pattern without sign: a carry out of the significand runs into the exponent, and out of
  the exponent's range it is the pattern of infinity.\<close>

definition round_mag :: "rat \<Rightarrow> int" where
  "round_mag q =
     (if q = 0 then 0
      else let e = ulp_exp q in
        min (255 * 2 ^ 23) ((e + 149) * 2 ^ 23 + round_even (q / 2 powi e)))"

definition f32_round :: "rat \<Rightarrow> f32" where
  "f32_round q = word_of_int (if q < 0 then 2 ^ 31 + round_mag (- q) else round_mag q)"

section \<open>Operations\<close>

text \<open>The conversion of an \<open>int\<close>, division and addition.\<close>

definition f32_of_int :: "int \<Rightarrow> f32" where
  "f32_of_int i = f32_round (of_int i)"

definition f32_div :: "f32 \<Rightarrow> f32 \<Rightarrow> f32" where
  "f32_div x y = f32_round (f32_val x / f32_val y)"

definition f32_add :: "f32 \<Rightarrow> f32 \<Rightarrow> f32" where
  "f32_add x y = f32_round (f32_val x + f32_val y)"

section \<open>Lemmas on rounding\<close>

lemma round_even_close: "\<bar>of_int (round_even q) - q\<bar> \<le> 1 / 2"
proof -
  have "of_int \<lfloor>q\<rfloor> \<le> q" "q < of_int \<lfloor>q\<rfloor> + 1" by linarith+
  then show ?thesis by (auto simp: round_even_def Let_def)
qed

lemma round_even_of_int [simp]: "round_even (of_int i) = i"
  by (simp add: round_even_def)

lemma round_even_le: "q \<le> of_int i \<Longrightarrow> round_even q \<le> i"
proof (rule ccontr)
  assume q: "q \<le> of_int i" and "\<not> round_even q \<le> i"
  then have "of_int (i + 1) \<le> (of_int (round_even q) :: rat)" by simp
  with round_even_close [of q] q have "q = of_int i + 1 / 2 \<or> q > of_int i" by (simp add: abs_le_iff)
  with q show False by simp
qed

lemma round_even_ge: "of_int i \<le> q \<Longrightarrow> i \<le> round_even q"
proof (rule ccontr)
  assume q: "of_int i \<le> q" and "\<not> i \<le> round_even q"
  then have "of_int (round_even q) \<le> (of_int (i - 1) :: rat)" by simp
  with round_even_close [of q] q show False by (simp add: abs_le_iff)
qed

lemma quotient_of_pos:
  assumes "0 < q"
  obtains n d where "quotient_of q = (n, d)" "0 < n" "0 < d" "q = of_int n / of_int d"
proof -
  obtain n d where nd: "quotient_of q = (n, d)" by fastforce
  then have d: "0 < d" and q: "q = of_int n / of_int d"
    by (simp_all add: quotient_of_denom_pos quotient_of_div)
  with assms have "0 < n" by (simp add: zero_less_divide_iff)
  then show thesis using nd d q that by blast
qed

lemma bitlen_powi:
  assumes "0 < n"
  shows "2 powi (bitlen n - 1) \<le> (of_int n :: rat)" "of_int n < (2 powi bitlen n :: rat)"
proof -
  have b: "2 ^ nat (bitlen n - 1) \<le> n" "n < 2 ^ nat (bitlen n)" and p: "0 < bitlen n"
    using bitlen_bounds [OF assms] bitlen_nonneg [of n] assms bitlen_eq_zero_iff [of n] by auto
  from b have "(of_int (2 ^ nat (bitlen n - 1)) :: rat) \<le> of_int n" "of_int n < (of_int (2 ^ nat (bitlen n)) :: rat)"
    by (simp_all only: of_int_le_iff of_int_less_iff)
  with p show "2 powi (bitlen n - 1) \<le> (of_int n :: rat)" "of_int n < (2 powi bitlen n :: rat)"
    by (simp_all add: power_int_nonneg_exp)
qed

lemma log2_floor:
  assumes "0 < q"
  shows "2 powi log2_floor q \<le> q" "q < 2 powi (log2_floor q + 1)"
proof -
  obtain n d where nd: "quotient_of q = (n, d)" "0 < n" "0 < d" "q = of_int n / of_int d"
    using quotient_of_pos [OF assms] .
  let ?k = "bitlen n - bitlen d"
  note n = bitlen_powi [OF nd(2)] and d = bitlen_powi [OF nd(3)]
  have d0: "0 < (of_int d :: rat)" using nd(3) by simp
  have "2 powi (?k - 1) * of_int d \<le> (2 powi (?k - 1) * 2 powi bitlen d :: rat)"
    using d(2) by (intro mult_left_mono) simp_all
  also have "\<dots> = 2 powi (bitlen n - 1)" by (simp add: power_int_add [symmetric])
  finally have lo: "2 powi (?k - 1) \<le> q"
    using n(1) d0 by (simp add: nd(4) pos_le_divide_eq)
  have "(2 powi bitlen n :: rat) = 2 powi (?k + 1) * 2 powi (bitlen d - 1)"
    by (simp add: power_int_add [symmetric])
  also have "\<dots> \<le> 2 powi (?k + 1) * of_int d" using d(1) by (intro mult_left_mono) simp_all
  finally have hi: "q < 2 powi (?k + 1)"
    using n(2) d0 by (simp add: nd(4) pos_divide_less_eq)
  show "2 powi log2_floor q \<le> q" "q < 2 powi (log2_floor q + 1)"
    using lo hi by (auto simp: log2_floor_def nd(1) Let_def)
qed

lemma powi2_less: "(2 powi a :: rat) < 2 powi b \<longleftrightarrow> a < b"
  by (meson linorder_not_le one_less_numeral_iff power_int_increasing power_int_strict_increasing
      semiring_norm(76) one_le_numeral)

lemma powi2_le: "(2 powi a :: rat) \<le> 2 powi b \<longleftrightarrow> a \<le> b"
  using powi2_less [of b a] by linarith

lemma log2_floor_less:
  assumes "0 < q" "q < 2 powi c"
  shows "log2_floor q < c"
  using log2_floor(1) [OF assms(1)] assms(2) powi2_less [of "log2_floor q" c] by linarith

text \<open>The significand: at most 24 digits, all of them used unless the number is subnormal.\<close>

lemma significand:
  assumes "0 < q"
  defines "e \<equiv> ulp_exp q" and "m \<equiv> round_even (q / 2 powi ulp_exp q)"
  shows "- 149 \<le> e" "0 \<le> m" "m \<le> 2 ^ 24" "- 149 < e \<longrightarrow> 2 ^ 23 \<le> m"
proof -
  have p: "0 < (2 powi e :: rat)" by simp
  show "- 149 \<le> e" by (simp add: e_def ulp_exp_def)
  have "of_int 0 \<le> q / 2 powi e" using assms(1) p by simp
  then show "0 \<le> m" unfolding m_def e_def [symmetric] by (rule round_even_ge)
  have "q \<le> 2 powi (log2_floor q + 1)" using log2_floor(2) [OF assms(1)] by simp
  also have "\<dots> \<le> 2 powi (e + 24)" by (simp add: powi2_le e_def ulp_exp_def)
  also have "\<dots> = 2 ^ 24 * 2 powi e" by (simp add: power_int_add)
  finally have "q / 2 powi e \<le> of_int (2 ^ 24)" using p by (simp add: pos_divide_le_eq)
  then show "m \<le> 2 ^ 24" unfolding m_def e_def [symmetric] by (rule round_even_le)
  show "- 149 < e \<longrightarrow> 2 ^ 23 \<le> m"
  proof
    assume "- 149 < e"
    then have "log2_floor q = e + 23" by (simp add: e_def ulp_exp_def)
    with log2_floor(1) [OF assms(1)] have "2 ^ 23 * 2 powi e \<le> q" by (simp add: power_int_add)
    then have "of_int (2 ^ 23) \<le> q / 2 powi e" using p by (simp add: pos_le_divide_eq)
    then show "2 ^ 23 \<le> m" unfolding m_def e_def [symmetric] by (rule round_even_ge)
  qed
qed

section \<open>Lemmas on patterns\<close>

text \<open>Reading the exponent and the fraction off a pattern that is given as a number.\<close>

lemma f32_fields:
  assumes "0 \<le> c" "c < 2 ^ 32"
  shows "f32_neg (word_of_int c) \<longleftrightarrow> c div 2 ^ 31 = 1"
    "f32_exp (word_of_int c) = c div 2 ^ 23 mod 2 ^ 8"
    "f32_frac (word_of_int c) = c mod 2 ^ 23"
proof -
  have "uint (word_of_int c :: u32) = c"
    using assms by (simp add: uint_word_of_int)
  then show "f32_neg (word_of_int c) \<longleftrightarrow> c div 2 ^ 31 = 1"
    "f32_exp (word_of_int c) = c div 2 ^ 23 mod 2 ^ 8"
    "f32_frac (word_of_int c) = c mod 2 ^ 23"
    by (simp_all add: f32_neg_def f32_exp_def f32_frac_def)
qed

definition mag_of :: "int \<Rightarrow> rat" where
  "mag_of b = (if b div 2 ^ 23 = 0 then of_int (b mod 2 ^ 23) * 2 powi (- 149)
     else of_int (2 ^ 23 + b mod 2 ^ 23) * 2 powi (b div 2 ^ 23 - 150))"

lemma f32_val_pattern:
  assumes "0 \<le> b" "b < 2 ^ 31"
  shows "f32_val (word_of_int b) = mag_of b" "f32_val (word_of_int (2 ^ 31 + b)) = - mag_of b"
    "f32_finite (word_of_int b) \<longleftrightarrow> b < 255 * 2 ^ 23"
    "f32_finite (word_of_int (2 ^ 31 + b)) \<longleftrightarrow> b < 255 * 2 ^ 23"
proof -
  have c: "0 \<le> b" "b < 2 ^ 32" "0 \<le> 2 ^ 31 + b" "2 ^ 31 + b < 2 ^ 32" using assms by simp_all
  have b: "0 \<le> b" "b < 2147483648" using assms by simp_all
  have n: "b div 2 ^ 31 \<noteq> 1" "(2 ^ 31 + b) div 2 ^ 31 = 1" using b by simp_all
  have d: "(2 ^ 31 + b) div 2 ^ 23 = 256 + b div 2 ^ 23" by simp
  have "b div 2 ^ 23 < 256" "0 \<le> b div 2 ^ 23" using b by simp_all
  then have e: "b div 2 ^ 23 mod 2 ^ 8 = b div 2 ^ 23" "(2 ^ 31 + b) div 2 ^ 23 mod 2 ^ 8 = b div 2 ^ 23"
    unfolding d by simp_all
  have "2 ^ 31 + b = b + 256 * 2 ^ 23" by simp
  then have f: "(2 ^ 31 + b) mod 2 ^ 23 = b mod 2 ^ 23" by (simp only: mod_mult_self1)
  have t: "b div 2 ^ 23 < 255 \<longleftrightarrow> b < 255 * 2 ^ 23"
    using div_mult_mod_eq [of b "2 ^ 23"] pos_mod_bound [of "2 ^ 23" b] pos_mod_sign [of "2 ^ 23" b] by simp linarith
  note fields = f32_fields [OF c(1,2)] f32_fields [OF c(3,4)]
  show "f32_val (word_of_int b) = mag_of b" "f32_val (word_of_int (2 ^ 31 + b)) = - mag_of b"
    using n by (simp_all only: f32_val_def f32_mag_def mag_of_def fields e f if_True if_False simp_thms)
  show "f32_finite (word_of_int b) \<longleftrightarrow> b < 255 * 2 ^ 23"
    "f32_finite (word_of_int (2 ^ 31 + b)) \<longleftrightarrow> b < 255 * 2 ^ 23"
    by (simp_all only: f32_finite_def fields e t)
qed

text \<open>An exponent and a significand, carried over or not, make the pattern of their product.\<close>

lemma mag_of_parts:
  assumes "- 149 \<le> e" "0 \<le> m" "m \<le> 2 ^ 24" "- 149 < e \<longrightarrow> 2 ^ 23 \<le> m"
  shows "mag_of ((e + 149) * 2 ^ 23 + m) = of_int m * 2 powi e"
proof -
  consider "m < 2 ^ 23" | "2 ^ 23 \<le> m" "m < 2 ^ 24" | "m = 2 ^ 24" using assms(3) by linarith
  then show ?thesis
  proof cases
    case 1
    with assms have "e = - 149" by linarith
    with 1 assms(2) show ?thesis by (simp add: mag_of_def)
  next
    case 2
    let ?b = "(e + 149) * 2 ^ 23 + m"
    have "?b = (m - 2 ^ 23) + (e + 150) * 2 ^ 23" by (simp add: algebra_simps)
    moreover have "(m - 2 ^ 23) div 2 ^ 23 = 0" "(m - 2 ^ 23) mod 2 ^ 23 = m - 2 ^ 23"
      using 2 by (simp_all add: div_pos_pos_trivial mod_pos_pos_trivial del: minus_mod_self2)
    ultimately have "?b div 2 ^ 23 = e + 150" "?b mod 2 ^ 23 = m - 2 ^ 23"
      by (simp_all only: div_mult_self1 mod_mult_self1) simp_all
    with assms(1) show ?thesis by (simp add: mag_of_def)
  next
    case 3
    let ?b = "(e + 149) * 2 ^ 23 + m"
    have "?b = (e + 151) * 2 ^ 23" by (simp add: 3 algebra_simps)
    then have "?b div 2 ^ 23 = e + 151" "?b mod 2 ^ 23 = 0" by simp_all
    with assms(1) show ?thesis by (simp add: mag_of_def 3 power_int_add)
  qed
qed

lemma round_mag:
  assumes "0 < q" "q < 2 powi 127"
  shows "0 \<le> round_mag q" "round_mag q < 255 * 2 ^ 23"
    "mag_of (round_mag q) = of_int (round_even (q / 2 powi ulp_exp q)) * 2 powi ulp_exp q"
proof -
  note s = significand [OF assms(1)]
  have "ulp_exp q \<le> 103" using log2_floor_less [OF assms] by (simp add: ulp_exp_def)
  then have "(ulp_exp q + 149) * 2 ^ 23 \<le> 252 * 2 ^ 23" by (intro mult_right_mono) simp_all
  with s have lt: "(ulp_exp q + 149) * 2 ^ 23 + round_even (q / 2 powi ulp_exp q) < 255 * 2 ^ 23"
    by simp
  with assms(1) have r: "round_mag q = (ulp_exp q + 149) * 2 ^ 23 + round_even (q / 2 powi ulp_exp q)"
    by (simp add: round_mag_def Let_def)
  have "0 \<le> (ulp_exp q + 149) * 2 ^ 23" using s(1) by simp
  with s(2) show "0 \<le> round_mag q" by (simp add: r)
  show "round_mag q < 255 * 2 ^ 23" using lt r by simp
  show "mag_of (round_mag q) = of_int (round_even (q / 2 powi ulp_exp q)) * 2 powi ulp_exp q"
    unfolding r by (rule mag_of_parts [OF s])
qed

section \<open>What rounding guarantees\<close>

text \<open>A rounded number is finite and the value of its pattern is the rounded number.\<close>

lemma f32_round_zero [simp]: "f32_round 0 = 0" "f32_val 0 = 0"
  by (simp_all add: f32_round_def round_mag_def f32_val_def f32_mag_def f32_exp_def f32_frac_def f32_neg_def)

lemma f32_round_pos:
  assumes "0 < q" "q < 2 powi 127"
  shows "f32_finite (f32_round q)"
    "f32_val (f32_round q) = of_int (round_even (q / 2 powi ulp_exp q)) * 2 powi ulp_exp q"
    "f32_finite (f32_round (- q))" "f32_val (f32_round (- q)) = - f32_val (f32_round q)"
proof -
  note r = round_mag [OF assms]
  have b: "0 \<le> round_mag q" "round_mag q < 2 ^ 31" using r by simp_all
  show "f32_finite (f32_round q)" "f32_finite (f32_round (- q))"
    "f32_val (f32_round q) = of_int (round_even (q / 2 powi ulp_exp q)) * 2 powi ulp_exp q"
    "f32_val (f32_round (- q)) = - f32_val (f32_round q)"
    using r(2,3) assms(1) f32_val_pattern [OF b] by (simp_all add: f32_round_def)
qed

lemma f32_round_neg: "q \<noteq> 0 \<Longrightarrow> \<bar>q\<bar> < 2 powi 127 \<Longrightarrow> f32_val (f32_round q) = sgn q * f32_val (f32_round \<bar>q\<bar>)"
  using f32_round_pos(4) [of "- q"] by (cases "q < 0") (auto simp: sgn_if)

lemma f32_round_finite: "\<bar>q\<bar> < 2 powi 127 \<Longrightarrow> f32_finite (f32_round q)"
  using f32_round_pos(1) [of q] f32_round_pos(3) [of "- q"]
  by (cases q "0 :: rat" rule: linorder_cases) (auto simp: f32_finite_def f32_exp_def)

text \<open>Numbers of at most 24 binary digits are kept as they are.\<close>

lemma f32_round_exact:
  assumes "\<bar>q\<bar> = of_int k * 2 powi j" "k < 2 ^ 24" "- 149 \<le> j" "\<bar>q\<bar> < 2 powi 127"
  shows "f32_val (f32_round q) = q"
proof (cases "q = 0")
  case False
  let ?a = "\<bar>q\<bar>" and ?e = "ulp_exp \<bar>q\<bar>"
  from False have a: "0 < ?a" by simp
  have "?e \<le> j"
  proof (rule ccontr)
    assume "\<not> ?e \<le> j"
    then have "log2_floor ?a = ?e + 23" using assms(3) by (auto simp: ulp_exp_def)
    then have "(2 powi (?e + 23) :: rat) \<le> of_int k * 2 powi j" using log2_floor(1) [OF a] assms(1) by simp
    also have "\<dots> < (of_int (2 ^ 24) * 2 powi j :: rat)"
      using assms(2) by (intro mult_strict_right_mono) (simp_all only: of_int_less_iff zero_less_power_int zero_less_numeral)
    also have "\<dots> = 2 powi (j + 24)" by (simp add: power_int_add)
    finally show False using \<open>\<not> ?e \<le> j\<close> by (simp add: powi2_less)
  qed
  then obtain i where i: "j = ?e + int i" by (metis zle_iff_zadd)
  obtain p :: rat where p: "2 powi ?e = p" "0 < p" by simp
  have "(2 powi j :: rat) = p * 2 ^ i" by (simp add: i power_int_add p)
  with assms(1) p(2) have "?a / p = of_int (k * 2 ^ i)" by simp
  then have "?a / 2 powi ?e = of_int (k * 2 ^ i)" by (simp only: p(1))
  then have "of_int (round_even (?a / 2 powi ?e)) * 2 powi ?e = (?a / 2 powi ?e) * 2 powi ?e"
    by (simp only: round_even_of_int)
  then have "f32_val (f32_round ?a) = ?a" using f32_round_pos(2) [OF a assms(4)] by simp
  with f32_round_neg [OF False assms(4)] show ?thesis by (simp add: sgn_if)
qed simp

lemma abs_scaled: "0 < p \<Longrightarrow> \<bar>x * p - a\<bar> = \<bar>x - a / p\<bar> * (p :: rat)"
proof -
  assume p: "0 < p"
  then have "x * p - a = (x - a / p) * p" by (simp add: left_diff_distrib)
  with p show ?thesis by (simp add: abs_mult)
qed

text \<open>Every other number is off by at most half a unit in the last place.\<close>

lemma f32_round_error:
  assumes "\<bar>q\<bar> < 2 powi c" "- 125 \<le> c" "c \<le> 127"
  shows "\<bar>f32_val (f32_round q) - q\<bar> \<le> 2 powi (c - 25)"
proof (cases "q = 0")
  case False
  let ?a = "\<bar>q\<bar>" and ?e = "ulp_exp \<bar>q\<bar>"
  from False have a: "0 < ?a" by simp
  have "?a < 2 powi 127" using assms(1,3) powi2_le [of c 127] by linarith
  have p: "0 < (2 powi ?e :: rat)" by simp
  note v = f32_round_pos(2) [OF a \<open>?a < 2 powi 127\<close>] and n = f32_round_neg [OF False \<open>?a < 2 powi 127\<close>]
  have "\<bar>f32_val (f32_round ?a) - ?a\<bar> = \<bar>of_int (round_even (?a / 2 powi ?e)) - ?a / 2 powi ?e\<bar> * 2 powi ?e"
    unfolding v by (rule abs_scaled [OF p])
  also have "\<dots> \<le> 1 / 2 * 2 powi ?e" by (intro mult_right_mono round_even_close) simp
  also have "\<dots> = 2 powi (?e - 1)" by (simp add: power_int_diff)
  also have "\<dots> \<le> 2 powi (c - 25)"
    using log2_floor_less [OF a assms(1)] assms(2) by (simp add: powi2_le ulp_exp_def)
  finally have le: "\<bar>f32_val (f32_round ?a) - ?a\<bar> \<le> 2 powi (c - 25)" .
  show ?thesis
  proof (cases "q < 0")
    case True
    with n have "f32_val (f32_round q) = - f32_val (f32_round ?a)" by (simp only: sgn_neg mult_minus1)
    with le True show ?thesis by linarith
  next
    case False
    with le show ?thesis by simp
  qed
qed simp

text \<open>Rounding keeps the order.\<close>

lemma round_even_mono:
  assumes "p \<le> q"
  shows "round_even p \<le> round_even q"
proof (rule ccontr)
  assume "\<not> round_even p \<le> round_even q"
  then have "of_int (round_even q + 1) \<le> (of_int (round_even p) :: rat)" by (simp only: of_int_le_iff)
  with round_even_close [of p] round_even_close [of q] assms have "p = q" by (simp add: abs_le_iff)
  with \<open>\<not> round_even p \<le> round_even q\<close> show False by simp
qed

lemma ulp_exp_mono:
  assumes "0 < p" "p \<le> q"
  shows "ulp_exp p \<le> ulp_exp q"
proof -
  have "(2 powi log2_floor p :: rat) < 2 powi (log2_floor q + 1)"
    using log2_floor(1) [of p] log2_floor(2) [of q] assms by linarith
  then have "log2_floor p \<le> log2_floor q" by (simp add: powi2_less)
  then show ?thesis by (simp add: ulp_exp_def)
qed

lemma f32_round_mono_pos:
  assumes "0 < p" "p \<le> q" "q < 2 powi 127"
  shows "f32_val (f32_round p) \<le> f32_val (f32_round q)"
proof -
  let ?e = "ulp_exp p" and ?f = "ulp_exp q"
  have q: "0 < q" and p127: "p < 2 powi 127" using assms by linarith+
  note v = f32_round_pos(2) [OF assms(1) p127] f32_round_pos(2) [OF q assms(3)]
  note sp = significand [OF assms(1)] and sq = significand [OF q]
  consider "?e = ?f" | "?e < ?f" using ulp_exp_mono [OF assms(1,2)] by linarith
  then show ?thesis
  proof cases
    case 1
    from assms(2) have "p / 2 powi ?f \<le> q / 2 powi ?f" by (intro divide_right_mono) simp_all
    then have "of_int (round_even (p / 2 powi ?f)) \<le> (of_int (round_even (q / 2 powi ?f)) :: rat)"
      by (simp only: of_int_le_iff round_even_mono)
    then show ?thesis unfolding v 1 by (intro mult_right_mono) simp_all
  next
    case 2
    let ?m = "round_even (p / 2 powi ?e)" and ?n = "round_even (q / 2 powi ?f)"
    have n: "2 ^ 23 \<le> ?n" using 2 sp(1) sq(4) by linarith
    have "of_int ?m * 2 powi ?e \<le> (of_int (2 ^ 24) * 2 powi ?e :: rat)"
      using sp(3) by (intro mult_right_mono) (simp_all only: of_int_le_iff, simp)
    also have "\<dots> = 2 powi (?e + 24)" by (simp add: power_int_add)
    also have "\<dots> \<le> 2 powi (?f + 23)" using 2 by (simp add: powi2_le)
    also have "\<dots> = of_int (2 ^ 23) * 2 powi ?f" by (simp add: power_int_add)
    also have "\<dots> \<le> of_int ?n * 2 powi ?f"
      using n by (intro mult_right_mono) (simp_all only: of_int_le_iff, simp)
    finally show ?thesis unfolding v .
  qed
qed

lemma f32_round_nonneg: "0 \<le> q \<Longrightarrow> q < 2 powi 127 \<Longrightarrow> 0 \<le> f32_val (f32_round q)"
  using f32_round_pos(2) [of q] significand(2) [of q] by (cases "q = 0") simp_all

lemma f32_round_minus: "\<bar>q\<bar> < 2 powi 127 \<Longrightarrow> f32_val (f32_round (- q)) = - f32_val (f32_round q)"
  using f32_round_pos(4) [of q] f32_round_pos(4) [of "- q"]
  by (cases q "0 :: rat" rule: linorder_cases) simp_all

lemma f32_round_mono:
  assumes "p \<le> q" "\<bar>p\<bar> < 2 powi 127" "\<bar>q\<bar> < 2 powi 127"
  shows "f32_val (f32_round p) \<le> f32_val (f32_round q)"
proof -
  consider "0 < p" | "p \<le> 0" "0 \<le> q" | "q < 0" using assms(1) by linarith
  then show ?thesis
  proof cases
    case 1
    with assms show ?thesis by (intro f32_round_mono_pos) simp_all
  next
    case 2
    with f32_round_nonneg [of q] f32_round_nonneg [of "- p"] f32_round_minus [of p] assms(2,3)
    show ?thesis by simp
  next
    case 3
    with f32_round_mono_pos [of "- q" "- p"] f32_round_minus [of p] f32_round_minus [of q] assms
    show ?thesis by simp
  qed
qed

text \<open>Conversion, division and addition.\<close>

lemma f32_of_int_exact:
  assumes "\<bar>i\<bar> < 2 ^ 24"
  shows "f32_val (f32_of_int i) = of_int i"
proof -
  have "\<bar>of_int i :: rat\<bar> = of_int \<bar>i\<bar> * 2 powi 0" by simp
  moreover have "\<bar>of_int i :: rat\<bar> < 2 powi 127"
  proof -
    have "(of_int \<bar>i\<bar> :: rat) < of_int (2 ^ 127)" using assms by (intro of_int_less_iff [THEN iffD2]) simp
    then show ?thesis by simp
  qed
  ultimately show ?thesis unfolding f32_of_int_def using assms by (intro f32_round_exact [where k = "\<bar>i\<bar>" and j = 0]) simp_all
qed

text \<open>The bytes of a \<open>float\<close> in memory, and reading them back.\<close>

definition f32_bytes :: "f32 \<Rightarrow> bytes" where
  "f32_bytes w = le32 w"

definition f32_of_bytes :: "bytes \<Rightarrow> nat \<Rightarrow> f32" where
  "f32_of_bytes d i = rd32 d i"

lemma length_f32_bytes [simp]: "length (f32_bytes w) = 4"
  by (simp add: f32_bytes_def)

lemma f32_of_bytes [wire_simps]:
  "i = length pre \<Longrightarrow> f32_of_bytes (pre @ f32_bytes w @ post) i = w"
  by (simp add: f32_of_bytes_def f32_bytes_def wire_simps)

end
