(* ===== verification/Zephyr.thy ===== *)
theory Zephyr
  imports Events
begin

text \<open>
  What the programs for the Pico use of Zephyr and of libcsp at their start: threads that are
  defined at build time and started later, and the node that libcsp sets up. A node is what
  the start-up calls leave behind.
\<close>

section \<open>Threads\<close>

text \<open>\<open>K_THREAD_DEFINE\<close>: stack size, priority and, with the delay \<open>K_TICKS_FOREVER\<close>, a
  thread that does not run until \<open>k_thread_start\<close> is called for it.\<close>

datatype thread_id = Router_id | Server_id

record kthread =
  kt_stack :: nat
  kt_prio :: nat
  kt_running :: bool

definition K_THREAD_DEFINE :: "nat \<Rightarrow> nat \<Rightarrow> kthread" where
  "K_THREAD_DEFINE stack prio = \<lparr>kt_stack = stack, kt_prio = prio, kt_running = False\<rparr>"

type_synonym threads = "thread_id \<rightharpoonup> kthread"

definition k_thread_start :: "thread_id \<Rightarrow> threads \<Rightarrow> threads" where
  "k_thread_start i ts =
     (case ts i of None \<Rightarrow> ts | Some t \<Rightarrow> ts(i \<mapsto> t\<lparr>kt_running := True\<rparr>))"

definition runs :: "thread_id \<Rightarrow> threads \<Rightarrow> bool" where
  "runs i ts \<longleftrightarrow> (case ts i of None \<Rightarrow> False | Some t \<Rightarrow> kt_running t)"

lemma runs_start: "runs i (k_thread_start j ts) \<longleftrightarrow> (if i = j then ts i \<noteq> None else runs i ts)"
  by (auto simp: runs_def k_thread_start_def split: option.splits)

lemma dom_k_thread_start [simp]: "dom (k_thread_start i ts) = dom ts"
  by (auto simp: k_thread_start_def split: option.splits)

section \<open>The node\<close>

record usart_conf =
  uc_device :: string
  uc_baudrate :: nat
  uc_databits :: nat
  uc_stopbits :: nat
  uc_paritysetting :: nat

text \<open>The protocol version of \<open>csp_conf\<close>, whether \<open>csp_init\<close> has been called, the threads, the
  KISS interface with its address, and whether it is the default interface.\<close>

record csp_node =
  nd_version :: nat
  nd_init :: bool
  nd_threads :: threads
  nd_kiss :: "(usart_conf \<times> nat) option"
  nd_default :: bool

definition csp_init :: "csp_node \<Rightarrow> csp_node" where
  "csp_init n = n\<lparr>nd_init := True\<rparr>"

definition on_threads :: "(threads \<Rightarrow> threads) \<Rightarrow> csp_node \<Rightarrow> csp_node" where
  "on_threads f n = n\<lparr>nd_threads := f (nd_threads n)\<rparr>"

text \<open>\<open>error\<close> is what libcsp returns: the interface exists when it is \<open>CSP_ERR_NONE\<close>.\<close>

abbreviation (input) CSP_ERR_NONE :: int where "CSP_ERR_NONE \<equiv> 0"
abbreviation (input) CSP_ERR_NOMEM :: int where "CSP_ERR_NOMEM \<equiv> - 1"

definition csp_usart_open_and_add_kiss_interface ::
    "int \<Rightarrow> usart_conf \<Rightarrow> nat \<Rightarrow> csp_node \<Rightarrow> int \<times> csp_node" where
  "csp_usart_open_and_add_kiss_interface error conf addr n =
     (error, if error = CSP_ERR_NONE then n\<lparr>nd_kiss := Some (conf, addr)\<rparr> else n)"

text \<open>A node is on the bus when its only interface is the default one of the initialised
  library.\<close>

definition on_bus :: "usart_conf \<Rightarrow> nat \<Rightarrow> csp_node \<Rightarrow> bool" where
  "on_bus conf addr n \<longleftrightarrow>
     nd_version n = 1 \<and> nd_init n \<and> nd_kiss n = Some (conf, addr) \<and> nd_default n"

lemmas node_defs = csp_init_def on_threads_def csp_usart_open_and_add_kiss_interface_def on_bus_def

end
