(* ===== verification/Pico.thy ===== *)
theory Pico
  imports CspServer Float32 Zephyr
begin

text \<open>
  The firmware of the Pico (\<open>pico/src\<close>): the temperature sensor (\<open>temp.c\<close>), the
  CSP server (\<open>pico_csp.c\<close>) and the start-up (\<open>main.c\<close>).

  Zephyr's device calls are arguments; the conversion of a sensor value to a \<open>float\<close> is
  computed in the arithmetic of theory \<open>Float32\<close>.
\<close>

section \<open>temp.c\<close>

text \<open>\<open>struct sensor_value\<close> of Zephyr: two \<open>int32_t\<close>, the integral part and the
  millionths. \<open>sx_temp\<close> is what the local variable of the caller holds before the
  call.\<close>

record sensor_env =
  se_ready :: bool
  se_fetch :: int
  se_get :: int
  se_val1 :: u32
  se_val2 :: u32
  sx_temp :: f32

text \<open>\<open>(float)(val1 + (float)val2 / 1000000.0f)\<close>: the quotient is a \<open>float\<close>,
  so \<open>val1\<close> is converted as well before the addition.\<close>

definition sensor_float :: "u32 \<Rightarrow> u32 \<Rightarrow> f32" where
  "sensor_float val1 val2 =
     f32_add (f32_of_int (sint val1)) (f32_div (f32_of_int (sint val2)) (f32_of_int 1000000))"

text \<open>The result and what has been stored through the pointer, when the pointer is given.\<close>

definition get_temp :: "sensor_env \<Rightarrow> bool \<Rightarrow> int \<times> f32 option" where
  "get_temp env temp_given =
     (if \<not> se_ready env then (- ENODEV, None)
      else if \<not> temp_given then (- EINVAL, None)
      else if se_fetch env < 0 then (se_fetch env, None)
      else if se_get env < 0 then (se_get env, None)
      else (0, Some (sensor_float (se_val1 env) (se_val2 env))))"

section \<open>pico_csp.c\<close>

abbreviation (input) PICO_CSP_ADDR :: nat where "PICO_CSP_ADDR \<equiv> 26"
abbreviation (input) PORT_T :: nat where "PORT_T \<equiv> 11"

text \<open>One round of the inner loop of \<open>server\<close>: the switch on the destination port. The case
  of \<open>PORT_T\<close> has no \<open>break\<close> and runs on into the default case.\<close>

definition pico_dispatch ::
    "sensor_env \<Rightarrow> nat \<Rightarrow> csp_packet \<Rightarrow> unit \<Rightarrow> (unit \<times> event list) res" where
  "pico_dispatch env dport packet u =
     (if dport = PORT_T then
        let (result, stored) = get_temp env True;
            temp = (if result < 0 then f32_NAN else (case stored of Some t \<Rightarrow> t | None \<Rightarrow> sx_temp env));
            status = (if result < 0 then - 1 else 0 :: u8);
            packet1 = put_payload packet ([status] @ f32_bytes temp) in
        Inr ((), [Ev_send packet1] @ [Ev_service packet1])
      else Inr ((), [Ev_service packet]))"

definition pico_server :: "sensor_env conn list \<Rightarrow> (unit \<times> event list) res" where
  "pico_server conns = serve pico_dispatch conns ()"

text \<open>The two threads, defined at build time and started later.\<close>

abbreviation (input) ROUTER_STACK_SIZE :: nat where "ROUTER_STACK_SIZE \<equiv> 256"
abbreviation (input) SERVER_STACK_SIZE :: nat where "SERVER_STACK_SIZE \<equiv> 1024"
abbreviation (input) ROUTER_PRIO :: nat where "ROUTER_PRIO \<equiv> 0"
abbreviation (input) SERVER_PRIO :: nat where "SERVER_PRIO \<equiv> 0"

definition pico_threads :: threads where
  "pico_threads =
     [Router_id \<mapsto> K_THREAD_DEFINE ROUTER_STACK_SIZE ROUTER_PRIO,
      Server_id \<mapsto> K_THREAD_DEFINE SERVER_STACK_SIZE SERVER_PRIO]"

text \<open>The calls of the first \<open>n\<close> rounds of the router thread.\<close>

fun router_task :: "nat \<Rightarrow> route_call list" where
  "router_task 0 = []"
| "router_task (Suc n) = Csp_route_work # router_task n"

definition server_task :: "sensor_env conn list \<Rightarrow> (unit \<times> event list) res" where
  "server_task conns = pico_server conns"

definition router_start :: "csp_node \<Rightarrow> csp_node" where
  "router_start = on_threads (k_thread_start Router_id)"

definition server_start :: "csp_node \<Rightarrow> csp_node" where
  "server_start = on_threads (k_thread_start Server_id)"

definition PICO_UART0 :: usart_conf where
  "PICO_UART0 = \<lparr>uc_device = ''uart@40034000'', uc_baudrate = 115200, uc_databits = 8,
     uc_stopbits = 1, uc_paritysetting = 0\<rparr>"

text \<open>The start: \<open>error\<close> is what libcsp returns for the interface.\<close>

definition csp_server_start :: "int \<Rightarrow> csp_node \<Rightarrow> int \<times> csp_node" where
  "csp_server_start error n =
     (let n1 = router_start (csp_init (n\<lparr>nd_version := 1\<rparr>));
          (err, n2) = csp_usart_open_and_add_kiss_interface error PICO_UART0 PICO_CSP_ADDR n1 in
      if err \<noteq> CSP_ERR_NONE then (- 1, n2)
      else (0, server_start (n2\<lparr>nd_default := True\<rparr>)))"

section \<open>main.c\<close>

text \<open>The board: the node, the LED (not an output, or off or on) and the seconds slept.\<close>

record pico_board =
  pb_node :: csp_node
  pb_led :: "bool option"
  pb_uptime :: nat

text \<open>\<open>main\<close> up to its endless loop; the flag tells whether the loop is reached.
  \<open>GPIO_OUTPUT_ACTIVE\<close> switches the LED on.\<close>

definition pico_main :: "bool \<Rightarrow> int \<Rightarrow> int \<Rightarrow> pico_board \<Rightarrow> pico_board \<times> bool" where
  "pico_main ready configure error b =
     (if \<not> ready then (b, False)
      else if configure < 0 then (b, False)
      else
        let b1 = b\<lparr>pb_led := Some True\<rparr>;
            (ret, n) = csp_server_start error (pb_node b1) in
        (b1\<lparr>pb_node := n\<rparr>, True))"

text \<open>One round of the loop; \<open>ok\<close> is whether the LED could be toggled, which the code does
  not look at.\<close>

definition pico_main_round :: "bool \<Rightarrow> pico_board \<Rightarrow> pico_board" where
  "pico_main_round ok b =
     b\<lparr>pb_led := (if ok then map_option Not (pb_led b) else pb_led b), pb_uptime := pb_uptime b + 1\<rparr>"

section \<open>Lemmas\<close>

definition sensor_works :: "sensor_env \<Rightarrow> bool" where
  "sensor_works env \<longleftrightarrow> se_ready env \<and> 0 \<le> se_fetch env \<and> 0 \<le> se_get env"

lemma get_temp_cases:
  "get_temp env True =
    (if sensor_works env then (0, Some (sensor_float (se_val1 env) (se_val2 env)))
     else (if se_ready env then if se_fetch env < 0 then se_fetch env else se_get env else - ENODEV, None))"
  by (auto simp: get_temp_def sensor_works_def)

lemma get_temp_fails: "fst (get_temp env True) < 0 \<longleftrightarrow> \<not> sensor_works env"
  by (auto simp: get_temp_def sensor_works_def)

text \<open>What a temperature request is answered with.\<close>

definition temp_answer :: "sensor_env \<Rightarrow> bytes" where
  "temp_answer env =
     (if sensor_works env then 0 # f32_bytes (sensor_float (se_val1 env) (se_val2 env))
      else - 1 # f32_bytes f32_NAN)"

lemma length_temp_answer [simp]: "length (temp_answer env) = 5"
  by (simp add: temp_answer_def)

lemma pico_dispatch_temp:
  "pico_dispatch env PORT_T p u =
    Inr ((), [Ev_send (put_payload p (temp_answer env)), Ev_service (put_payload p (temp_answer env))])"
  using get_temp_fails [of env]
  by (auto simp: pico_dispatch_def temp_answer_def get_temp_cases Let_def split: prod.splits)

lemma pico_dispatch_other:
  "dport \<noteq> PORT_T \<Longrightarrow> pico_dispatch env dport p u = Inr ((), [Ev_service p])"
  by (simp add: pico_dispatch_def)

text \<open>The server on all other ports.\<close>

definition pico_other_ports ::
    "sensor_env \<Rightarrow> nat \<Rightarrow> csp_packet \<Rightarrow> unit \<Rightarrow> (unit \<times> event list) res" where
  "pico_other_ports env dport = pico_dispatch env (if dport = PORT_T then 0 else dport)"

interpretation pico_other: tidy_server pico_other_ports "\<lambda>_. True"
  by unfold_locales (auto simp: pico_other_ports_def pico_dispatch_other own_simps)

section \<open>The accuracy of the conversion\<close>

lemma f32_val_million: "f32_val (f32_of_int 1000000) = 1000000"
  using f32_of_int_exact [of 1000000] by simp

lemma sensor_quotient:
  assumes "\<bar>v\<bar> < 1000000"
  shows "f32_div (f32_of_int v) (f32_of_int 1000000) = f32_round (of_int v / 1000000)"
  using f32_of_int_exact [of v] assms by (simp add: f32_div_def f32_val_million)

lemma close_to_small: "\<bar>a - b\<bar> \<le> d \<Longrightarrow> d \<le> 1 \<Longrightarrow> \<bar>b\<bar> < 1 \<Longrightarrow> \<bar>a\<bar> \<le> (2 :: rat)"
  by linarith

lemma close_trans: "\<bar>a - b\<bar> \<le> d1 \<Longrightarrow> \<bar>c - (i + a)\<bar> \<le> d2 \<Longrightarrow> \<bar>c - (i + b)\<bar> \<le> d1 + (d2 :: rat)"
  by linarith

lemma sensor_float_error:
  assumes "- 128 \<le> sint v1" "sint v1 < 128" "\<bar>sint v2\<bar> < 1000000"
  shows "\<bar>f32_val (sensor_float v1 v2) - (of_int (sint v1) + of_int (sint v2) / 1000000)\<bar> \<le> 1 / 100000"
proof -
  obtain i j where ij: "sint v1 = i" "sint v2 = j" by blast
  let ?x = "f32_val (f32_round (of_int j / 1000000))"
  have "\<bar>of_int j :: rat\<bar> < of_int 1000000" using assms(3) unfolding ij
    by (simp only: of_int_less_iff flip: of_int_abs)
  then have "\<bar>of_int j / 1000000 :: rat\<bar> < 2 powi 0" by (simp add: abs_divide)
  from f32_round_error [OF this] have x: "\<bar>?x - of_int j / 1000000\<bar> \<le> 1 / 2 ^ 25"
    by (simp add: power_int_minus_divide)
  have i: "f32_val (f32_of_int i) = of_int i"
    using assms(1,2) by (intro f32_of_int_exact) (simp add: ij)
  have "\<bar>of_int i :: rat\<bar> \<le> of_int 128" using assms(1,2) unfolding ij
    by (simp only: of_int_le_iff flip: of_int_abs)
  moreover have "\<bar>?x\<bar> \<le> 2"
    using \<open>\<bar>of_int j / 1000000 :: rat\<bar> < 2 powi 0\<close> by (intro close_to_small [OF x]) simp_all
  ultimately have "\<bar>of_int i + ?x\<bar> < 2 powi 8" by simp
  from f32_round_error [OF this]
  have "\<bar>f32_val (f32_round (of_int i + ?x)) - (of_int i + ?x)\<bar> \<le> 1 / 2 ^ 17"
    by (simp add: power_int_minus_divide)
  from close_trans [OF x this]
  have "\<bar>f32_val (f32_round (of_int i + ?x)) - (of_int i + of_int j / 1000000)\<bar> \<le> 1 / 100000"
    by (rule order_trans) simp
  then show ?thesis
    unfolding sensor_float_def ij using assms(3) by (simp add: ij sensor_quotient f32_add_def i)
qed

text \<open>Half degrees, which is the resolution of the LM75, are represented exactly.\<close>

lemma f32_round_half:
  assumes "\<bar>k\<bar> < 2 ^ 24"
  shows "f32_val (f32_round (of_int k / 2)) = of_int k / 2"
proof (rule f32_round_exact [where k = "\<bar>k\<bar>" and j = "- 1"])
  have "(of_int \<bar>k\<bar> :: rat) < of_int (2 ^ 24)" using assms by (simp only: of_int_less_iff)
  then have "\<bar>of_int k / 2 :: rat\<bar> < 2 ^ 23" by (simp add: abs_divide)
  also have "\<dots> < 2 powi 127" by simp
  finally show "\<bar>of_int k / 2 :: rat\<bar> < 2 powi 127" .
qed (use assms in \<open>simp_all add: abs_divide power_int_minus_divide\<close>)

lemma sensor_float_half:
  assumes "- 128 \<le> sint v1" "sint v1 < 128" "sint v2 \<in> {- 500000, 0, 500000}"
  shows "f32_val (sensor_float v1 v2) = of_int (sint v1) + of_int (sint v2) / 1000000"
proof -
  obtain i j where ij: "sint v1 = i" "sint v2 = j" by blast
  obtain h where h: "j = h * 500000" "\<bar>h\<bar> \<le> 1"
    using assms(3) unfolding ij by (cases "j = 0") (auto intro: that [of 0] that [of 1] that [of "- 1"])
  have q: "of_int j / 1000000 = (of_int h / 2 :: rat)" by (simp add: h)
  have d: "f32_val (f32_div (f32_of_int j) (f32_of_int 1000000)) = of_int h / 2"
    using h by (subst sensor_quotient) (simp_all only: q, simp_all add: f32_round_half)
  have i: "f32_val (f32_of_int i) = of_int i"
    using assms(1,2) by (intro f32_of_int_exact) (simp add: ij)
  have "f32_val (f32_round (of_int (2 * i + h) / 2)) = of_int (2 * i + h) / 2"
    using assms(1,2) h(2) by (intro f32_round_half) (simp add: ij)
  moreover have "of_int i + of_int h / 2 = (of_int (2 * i + h) / 2 :: rat)" by simp
  ultimately show ?thesis
    unfolding sensor_float_def f32_add_def ij d i q by metis
qed

text \<open>A reading as the sensor interface of Zephyr gives it: degrees and millionths, of which neither
  contradicts the sign of the other; and the range of the device.\<close>

definition reading :: "u32 \<Rightarrow> u32 \<Rightarrow> rat" where
  "reading v1 v2 = of_int (sint v1) + of_int (sint v2) / 1000000"

definition proper :: "u32 \<Rightarrow> u32 \<Rightarrow> bool" where
  "proper v1 v2 \<longleftrightarrow> - 128 \<le> sint v1 \<and> sint v1 < 128 \<and> \<bar>sint v2\<bar> < 1000000
     \<and> (0 < sint v1 \<longrightarrow> 0 \<le> sint v2) \<and> (sint v1 < 0 \<longrightarrow> sint v2 \<le> 0)"

abbreviation millionths :: "int \<Rightarrow> rat" where
  "millionths j \<equiv> f32_val (f32_round (of_int j / 1000000))"

lemma millionths_mono:
  assumes "j \<le> k" "\<bar>j\<bar> \<le> 1000000" "\<bar>k\<bar> \<le> 1000000"
  shows "millionths j \<le> millionths k"
proof (rule f32_round_mono)
  have "\<bar>of_int i :: rat\<bar> \<le> of_int 1000000" if "\<bar>i\<bar> \<le> 1000000" for i
    using that by (simp only: of_int_le_iff flip: of_int_abs)
  then have "\<bar>of_int i / 1000000 :: rat\<bar> \<le> 1" if "\<bar>i\<bar> \<le> 1000000" for i
    using that by (simp add: abs_divide)
  moreover have "(1 :: rat) < 2 powi 127" by simp
  ultimately have small: "\<bar>of_int i / 1000000 :: rat\<bar> < 2 powi 127" if "\<bar>i\<bar> \<le> 1000000" for i
    using that le_less_trans by blast
  show "\<bar>of_int j / 1000000 :: rat\<bar> < 2 powi 127" "\<bar>of_int k / 1000000 :: rat\<bar> < 2 powi 127"
    using assms(2,3) small by blast+
  show "(of_int j / 1000000 :: rat) \<le> of_int k / 1000000" using assms(1) by (simp add: divide_right_mono)
qed

lemma millionths_bounds:
  assumes "\<bar>j\<bar> < 1000000"
  shows "\<bar>millionths j\<bar> \<le> 1" "0 \<le> j \<Longrightarrow> 0 \<le> millionths j" "j \<le> 0 \<Longrightarrow> millionths j \<le> 0"
proof -
  have "millionths 1000000 = 1" "millionths (- 1000000) = - 1" "millionths 0 = 0"
    using f32_round_half [of 2] f32_round_half [of "- 2"] by simp_all
  with millionths_mono [of j 1000000] millionths_mono [of "- 1000000" j]
    millionths_mono [of 0 j] millionths_mono [of j 0] assms
  show "\<bar>millionths j\<bar> \<le> 1" "0 \<le> j \<Longrightarrow> 0 \<le> millionths j" "j \<le> 0 \<Longrightarrow> millionths j \<le> 0" by (simp_all add: abs_le_iff)
qed

lemma int_step: "i < k \<Longrightarrow> of_int i + 1 \<le> (of_int k :: rat)"
  using of_int_le_iff [of "i + 1" k, where 'a = rat] by simp

text \<open>A warmer reading gives no smaller sum.\<close>

lemma parts_mono:
  fixes i k j l :: int and x y :: rat
  assumes "of_int i + of_int j / 1000000 \<le> of_int k + (of_int l / 1000000 :: rat)"
    and "\<bar>j\<bar> < 1000000" "\<bar>l\<bar> < 1000000"
    and "0 < i \<Longrightarrow> 0 \<le> j" "i < 0 \<Longrightarrow> j \<le> 0" "0 < k \<Longrightarrow> 0 \<le> l" "k < 0 \<Longrightarrow> l \<le> 0"
  shows "of_int i + millionths j \<le> of_int k + millionths l"
proof -
  have "(of_int i + of_int j / 1000000) * 1000000 \<le> (of_int k + of_int l / 1000000) * (1000000 :: rat)"
    using assms(1) by (intro mult_right_mono) simp_all
  then have "(of_int (i * 1000000 + j) :: rat) \<le> of_int (k * 1000000 + l)" by (simp add: distrib_right)
  then have le: "i * 1000000 + j \<le> k * 1000000 + l" by (simp only: of_int_le_iff)
  note bj = millionths_bounds [OF assms(2)] and bl = millionths_bounds [OF assms(3)]
  have "\<not> k < i"
  proof
    assume ki: "k < i"
    show False
    proof (cases "0 < i")
      case True
      with le ki assms(3) assms(4) [OF True] show False by simp
    next
      case False
      with ki have "k < 0" by simp
      with le ki assms(2) assms(7) [OF this] show False by simp
    qed
  qed
  consider "i = k" "j \<le> l" | "i < k" "0 < k" | "i < k" "k \<le> 0"
    using \<open>\<not> k < i\<close> le by linarith
  then show ?thesis
  proof cases
    case 1
    with millionths_mono [of j l] assms(2,3) show ?thesis by simp
  next
    case 2
    have "of_int i + 1 \<le> (of_int k :: rat)" by (rule int_step [OF 2(1)])
    moreover have "0 \<le> millionths l" using 2 assms(6) bl by simp
    ultimately show ?thesis using bj(1) by (simp add: abs_le_iff)
  next
    case 3
    have "of_int i + 1 \<le> (of_int k :: rat)" by (rule int_step [OF 3(1)])
    moreover have "millionths j \<le> 0" using 3 assms(5) bj by simp
    ultimately show ?thesis using bl(1) by (simp add: abs_le_iff)
  qed
qed

lemma sensor_float_mono:
  assumes "proper v1 v2" "proper w1 w2" "reading v1 v2 \<le> reading w1 w2"
  shows "f32_val (sensor_float v1 v2) \<le> f32_val (sensor_float w1 w2)"
proof -
  have sum: "f32_val (sensor_float a b) = f32_val (f32_round (of_int (sint a) + millionths (sint b)))"
    "\<bar>of_int (sint a) + millionths (sint b)\<bar> < 2 powi 127" if "proper a b" for a b
  proof -
    from that have "f32_val (f32_of_int (sint a)) = of_int (sint a)"
      by (intro f32_of_int_exact) (auto simp: proper_def abs_if)
    with that show "f32_val (sensor_float a b) = f32_val (f32_round (of_int (sint a) + millionths (sint b)))"
      by (simp add: sensor_float_def sensor_quotient f32_add_def proper_def)
    have "\<bar>of_int (sint a) :: rat\<bar> \<le> of_int 128" using that
      by (simp only: of_int_le_iff flip: of_int_abs) (auto simp: proper_def abs_if)
    moreover have "\<bar>millionths (sint b)\<bar> \<le> 1" using that by (intro millionths_bounds(1)) (simp add: proper_def)
    ultimately have "\<bar>of_int (sint a) + millionths (sint b)\<bar> \<le> 129" by linarith
    then show "\<bar>of_int (sint a) + millionths (sint b)\<bar> < 2 powi 127" by (rule le_less_trans) simp
  qed
  have "of_int (sint v1) + millionths (sint v2) \<le> of_int (sint w1) + millionths (sint w2)"
    using assms by (intro parts_mono) (auto simp: proper_def reading_def)
  then show ?thesis unfolding sum(1) [OF assms(1)] sum(1) [OF assms(2)]
    by (rule f32_round_mono) (rule sum(2) [OF assms(1)], rule sum(2) [OF assms(2)])
qed

section \<open>Properties\<close>

text \<open>C33: A temperature request is answered with a status byte, 0 or -1, and the four bytes of
  the temperature or of NAN; but after the packet has been sent the handler runs on into the
  default case and hands the same packet to the service handler: every temperature request
  uses a buffer that has been given away.\<close>

theorem temp_request_uses_sent_packet:
  "\<exists>q. pico_dispatch env PORT_T p u = Inr ((), [Ev_send q, Ev_service q])
    \<and> payload q = (if sensor_works env then 0 # f32_bytes (sensor_float (se_val1 env) (se_val2 env))
                   else 255 # f32_bytes f32_NAN)
    \<and> misuses (pk_ptr p) [Ev_send q, Ev_service q]"
proof -
  have "payload (put_payload p (temp_answer env)) = temp_answer env"
    by (rule payload_put_payload) simp
  moreover have "(- 1 :: u8) = 255" by simp
  ultimately show ?thesis
    by (simp add: pico_dispatch_temp misuses_def temp_answer_def)
qed

definition sensor_ok :: sensor_env where
  "sensor_ok = \<lparr>se_ready = True, se_fetch = 0, se_get = 0, se_val1 = 23, se_val2 = 500000, sx_temp = 0\<rparr>"

lemma temp_request_example:
  "case pico_dispatch sensor_ok PORT_T (mk_packet 1 []) () of
     Inl _ \<Rightarrow> False | Inr (_, evs) \<Rightarrow> map payload (sent evs) = [[0, 0, 0, 188, 65]]"
  by code_simp

text \<open>What the receiver of a temperature answer reads: the status and the \<open>float\<close>.\<close>

definition temp_of_answer :: "csp_packet \<Rightarrow> u8 \<times> rat" where
  "temp_of_answer q = (payload q ! 0, f32_val (f32_of_bytes (payload q) 1))"

lemma temp_of_answer:
  assumes "sensor_works env"
  shows "temp_of_answer (put_payload p (temp_answer env))
    = (0, f32_val (sensor_float (se_val1 env) (se_val2 env)))"
proof -
  have "payload (put_payload p (temp_answer env)) = temp_answer env"
    by (rule payload_put_payload) simp
  moreover have "f32_of_bytes ([0] @ f32_bytes w @ []) 1 = w" for w by (rule f32_of_bytes) simp
  ultimately show ?thesis using assms by (simp add: temp_of_answer_def temp_answer_def)
qed

text \<open>C23: The temperature the Pico sends in answer to a request is within 10 microdegrees of the
  reading of the sensor, for every reading in the range of the device: three roundings are
  made on the way.\<close>

theorem pico_temp_accurate:
  assumes "sensor_works env"
    "- 128 \<le> sint (se_val1 env)" "sint (se_val1 env) < 128" "\<bar>sint (se_val2 env)\<bar> < 1000000"
  shows "\<exists>q. pico_dispatch env PORT_T p u = Inr ((), [Ev_send q, Ev_service q])
    \<and> fst (temp_of_answer q) = 0
    \<and> \<bar>snd (temp_of_answer q) - (of_int (sint (se_val1 env)) + of_int (sint (se_val2 env)) / 1000000)\<bar>
        \<le> 1 / 100000"
  using sensor_float_error [OF assms(2-4)] by (simp add: pico_dispatch_temp temp_of_answer [OF assms(1)])

lemma pico_temp_accurate_witness:
  "\<exists>q. pico_dispatch (sensor_ok\<lparr>se_val2 := 123456\<rparr>) PORT_T (mk_packet 1 []) () = Inr ((), [Ev_send q, Ev_service q])
    \<and> fst (temp_of_answer q) = 0 \<and> \<bar>snd (temp_of_answer q) - 23123456 / 1000000\<bar> \<le> 1 / 100000"
proof -
  have "sensor_works (sensor_ok\<lparr>se_val2 := 123456\<rparr>)" by code_simp
  moreover have "sint (se_val1 (sensor_ok\<lparr>se_val2 := 123456\<rparr>)) = 23"
    "sint (se_val2 (sensor_ok\<lparr>se_val2 := 123456\<rparr>)) = 123456" by code_simp+
  ultimately show ?thesis
    using pico_temp_accurate [of "sensor_ok\<lparr>se_val2 := 123456\<rparr>" "mk_packet 1 []" "()"] by simp
qed

text \<open>C24: A reading in half degrees, the resolution of the LM75, reads back from the answer
  exactly.\<close>

theorem pico_half_degrees_exact:
  assumes "sensor_works env"
    "- 128 \<le> sint (se_val1 env)" "sint (se_val1 env) < 128" "sint (se_val2 env) \<in> {- 500000, 0, 500000}"
  shows "\<exists>q. pico_dispatch env PORT_T p u = Inr ((), [Ev_send q, Ev_service q])
    \<and> temp_of_answer q = (0, of_int (sint (se_val1 env)) + of_int (sint (se_val2 env)) / 1000000)"
  using sensor_float_half [OF assms(2-4)] by (simp add: pico_dispatch_temp temp_of_answer [OF assms(1)])

lemma pico_half_degrees_exact_witness:
  "\<exists>q. pico_dispatch (sensor_ok\<lparr>se_val1 := - 55, se_val2 := - 500000\<rparr>) PORT_T (mk_packet 1 []) () =
      Inr ((), [Ev_send q, Ev_service q])
    \<and> temp_of_answer q = (0, - 111 / 2)"
proof -
  let ?env = "sensor_ok\<lparr>se_val1 := - 55, se_val2 := - 500000\<rparr>"
  have "sensor_works ?env" by code_simp
  moreover have "sint (se_val1 ?env) = - 55" "sint (se_val2 ?env) = - 500000" by code_simp+
  ultimately show ?thesis
    using pico_half_degrees_exact [of ?env "mk_packet 1 []" "()"] by simp
qed

text \<open>C25: Temperatures that the Pico sends can be compared: when one proper reading is not warmer than
  another, the temperature sent for it is not warmer either, although the division and the
  addition round both; a reading is told as warmer only when it is.\<close>

theorem pico_temp_order:
  assumes "sensor_works env" "proper (se_val1 env) (se_val2 env)"
    and "sensor_works env'" "proper (se_val1 env') (se_val2 env')"
    and "reading (se_val1 env) (se_val2 env) \<le> reading (se_val1 env') (se_val2 env')"
  shows "\<exists>q q'. pico_dispatch env PORT_T p u = Inr ((), [Ev_send q, Ev_service q])
    \<and> pico_dispatch env' PORT_T p' u = Inr ((), [Ev_send q', Ev_service q'])
    \<and> fst (temp_of_answer q) = 0 \<and> fst (temp_of_answer q') = 0
    \<and> snd (temp_of_answer q) \<le> snd (temp_of_answer q')"
  using sensor_float_mono [OF assms(2,4,5)]
  by (simp add: pico_dispatch_temp temp_of_answer [OF assms(1)] temp_of_answer [OF assms(3)])

text \<open>Minus one and a half degrees, and minus one millionth of a degree.\<close>

lemma pico_temp_order_witness:
  "\<exists>q q'. pico_dispatch (sensor_ok\<lparr>se_val1 := - 1, se_val2 := - 500000\<rparr>) PORT_T (mk_packet 1 []) () = Inr ((), [Ev_send q, Ev_service q])
    \<and> pico_dispatch (sensor_ok\<lparr>se_val1 := 0, se_val2 := - 1\<rparr>) PORT_T (mk_packet 2 []) () = Inr ((), [Ev_send q', Ev_service q'])
    \<and> snd (temp_of_answer q) \<le> snd (temp_of_answer q')"
proof -
  let ?env = "sensor_ok\<lparr>se_val1 := - 1, se_val2 := - 500000\<rparr>" and ?env' = "sensor_ok\<lparr>se_val1 := 0, se_val2 := - 1\<rparr>"
  have "sensor_works ?env" "proper (se_val1 ?env) (se_val2 ?env)" "sensor_works ?env'" "proper (se_val1 ?env') (se_val2 ?env')"
    "reading (se_val1 ?env) (se_val2 ?env) \<le> reading (se_val1 ?env') (se_val2 ?env')" by code_simp+
  from pico_temp_order [OF this, of "mk_packet 1 []" "()" "mk_packet 2 []"] show ?thesis by blast
qed

text \<open>On every other port the server hands each packet to the service handler and to nobody
  else: whatever connections arrive, it goes on, and has every buffer given back.\<close>

theorem pico_server_returns_buffers:
  assumes "\<forall>p \<in> conn_packets conns. wf_packet p \<and> pk_ptr p \<notin> own"
    "\<forall>dport ps. Some (dport, ps) \<in> set conns \<longrightarrow> dport \<noteq> PORT_T"
  shows "\<exists>evs. pico_server conns = Inr ((), evs) \<and> own_run own evs = Some own"
proof -
  have "serve pico_dispatch conns () = serve pico_other_ports conns ()"
    using assms(2) by (intro serve_cong) (auto simp: pico_other_ports_def)
  with pico_other.serve_returns [OF TrueI assms(1)] show ?thesis by (simp add: pico_server_def)
qed

lemma pico_server_returns_buffers_witness:
  "\<exists>evs. pico_server [None, Some (1, [(sensor_ok, mk_packet 1 [])]), Some (7, [(sensor_ok, mk_packet 1 [])])]
      = Inr ((), evs) \<and> own_run {2} evs = Some {2}"
proof -
  let ?conns = "[None, Some (1, [(sensor_ok, mk_packet 1 [])]), Some (7, [(sensor_ok, mk_packet 1 [])])]"
  have "\<forall>p \<in> conn_packets ?conns. wf_packet p \<and> pk_ptr p \<notin> {2}"
    by (auto simp: conn_packets_def wf_mk_packet)
  from pico_server_returns_buffers [OF this] show ?thesis by auto
qed

text \<open>The rounds of the main loop leave the node alone and blink: one change of the LED per second
  slept.\<close>

lemma pico_rounds:
  "fold pico_main_round oks b =
     b\<lparr>pb_led := map_option (\<lambda>on. on \<longleftrightarrow> even (length (filter (\<lambda>ok. ok) oks))) (pb_led b),
       pb_uptime := pb_uptime b + length oks\<rparr>"
proof (induction oks arbitrary: b)
  case Nil
  show ?case by (cases "pb_led b") simp_all
next
  case (Cons ok oks)
  show ?case
    unfolding fold_simps Cons.IH by (cases "pb_led b"; cases ok; cases "the (pb_led b)") (simp_all add: pico_main_round_def)
qed

text \<open>C26: The firmware of the Pico reaches its endless loop exactly when its LED works: then the router
  thread runs, and the server thread runs exactly when the serial interface could be added; in
  that case the node is on the bus with address 26. The result of the start is not looked
  at: without an interface the board goes on blinking, and nothing is served.\<close>

theorem pico_start_up:
  assumes "nd_threads (pb_node b) = pico_threads" "\<not> nd_default (pb_node b)"
  shows "(snd (pico_main ready configure error b) \<longleftrightarrow> ready \<and> 0 \<le> configure)
    \<and> (let b' = fold pico_main_round oks (fst (pico_main ready configure error b)); n = pb_node b' in
       (if ready \<and> 0 \<le> configure then
          runs Router_id (nd_threads n)
          \<and> (runs Server_id (nd_threads n) \<longleftrightarrow> error = CSP_ERR_NONE)
          \<and> (on_bus PICO_UART0 PICO_CSP_ADDR n \<longleftrightarrow> error = CSP_ERR_NONE)
          \<and> pb_led b' = Some (even (length (filter (\<lambda>ok. ok) oks)))
        else n = pb_node b)
       \<and> pb_uptime b' = pb_uptime b + length oks)"
  using assms
  by (auto simp: pico_main_def csp_server_start_def router_start_def server_start_def node_defs
      pico_threads_def Let_def runs_start pico_rounds runs_def k_thread_start_def K_THREAD_DEFINE_def)

definition board0 :: pico_board where
  "board0 = \<lparr>pb_node = \<lparr>nd_version = 2, nd_init = False, nd_threads = pico_threads, nd_kiss = None,
       nd_default = False\<rparr>, pb_led = None, pb_uptime = 0\<rparr>"

lemma pico_start_up_witness:
  "let b' = fold pico_main_round [True, True, False] (fst (pico_main True 0 (- 1) board0)) in
     runs Router_id (nd_threads (pb_node b')) \<and> \<not> runs Server_id (nd_threads (pb_node b'))
     \<and> pb_led b' = Some True \<and> pb_uptime b' = 3"
  using pico_start_up [of board0 True 0 "- 1" "[True, True, False]"] by (simp add: board0_def Let_def)

end
