(* ===== verification/PicoReset.thy ===== *)
theory PicoReset
  imports Prelude
begin

text \<open>
  The tool that resets the Pico (\<open>pico-reset/files/main.c\<close>): the calls into libgpiod it
  makes, in order, with the results of those calls as arguments, and what they do to the reset
  line.
\<close>

section \<open>Definitions\<close>

abbreviation (input) PICO_RESET_PIN :: nat where "PICO_RESET_PIN \<equiv> 0"
abbreviation (input) LINE_MODE_OUTPUT :: nat where "LINE_MODE_OUTPUT \<equiv> 0"
abbreviation (input) LINE_OUTPUT_LOW :: nat where "LINE_OUTPUT_LOW \<equiv> 0"
abbreviation (input) LINE_OUTPUT_HIGH :: nat where "LINE_OUTPUT_HIGH \<equiv> 1"
definition PICO_RESET_APP_NAME :: string where "PICO_RESET_APP_NAME = ''pico_reset''"
definition PICO_RESET_CHIP_NAME :: string where "PICO_RESET_CHIP_NAME = ''gpiochip0''"
abbreviation (input) PICO_RESET_LOW_DURATION :: nat where "PICO_RESET_LOW_DURATION \<equiv> 1"
abbreviation (input) EXIT_SUCCESS :: int where "EXIT_SUCCESS \<equiv> 0"
abbreviation (input) EXIT_FAILURE :: int where "EXIT_FAILURE \<equiv> 1"

record gpio_env =
  gp_chip :: bool
  gp_line :: bool
  gp_request :: int
  gp_low :: int
  gp_high :: int

text \<open>The calls; those that can fail carry whether they succeeded.\<close>

datatype gpio_call =
    Chip_open string bool
  | Get_line nat bool
  | Request_output string nat bool     \<comment> \<open>consumer, default value\<close>
  | Set_value nat bool
  | Hold nat                    \<comment> \<open>\<open>sleep(seconds)\<close>\<close>
  | Line_release
  | Chip_close

definition pico_reset :: "gpio_env \<Rightarrow> int \<times> gpio_call list" where
  "pico_reset env =
     (if \<not> gp_chip env then (EXIT_FAILURE, [Chip_open PICO_RESET_CHIP_NAME False])
      else if \<not> gp_line env then (EXIT_FAILURE, [Chip_open PICO_RESET_CHIP_NAME True, Get_line PICO_RESET_PIN False] @ [Chip_close])
      else
        let opened = [Chip_open PICO_RESET_CHIP_NAME True, Get_line PICO_RESET_PIN True];
            release = [Line_release, Chip_close] in
        if gp_request env < 0 then
          (EXIT_FAILURE, opened @ [Request_output PICO_RESET_APP_NAME LINE_MODE_OUTPUT False] @ release)
        else if gp_low env < 0 then
          (EXIT_FAILURE, opened @ [Request_output PICO_RESET_APP_NAME LINE_MODE_OUTPUT True, Set_value LINE_OUTPUT_LOW False] @ release)
        else
          let pulse = [Request_output PICO_RESET_APP_NAME LINE_MODE_OUTPUT True, Set_value LINE_OUTPUT_LOW True,
                       Hold PICO_RESET_LOW_DURATION] in
          if gp_high env < 0 then
            (EXIT_FAILURE, opened @ pulse @ [Set_value LINE_OUTPUT_HIGH False] @ release)
          else (EXIT_SUCCESS, opened @ pulse @ [Set_value LINE_OUTPUT_HIGH True] @ release))"

section \<open>The line\<close>

text \<open>What the tool knows of the line: whether the chip is open, whether the line is reserved, the
  level it drives (\<open>None\<close> when it drives none, or when a call that failed leaves it unknown), for
  how many seconds it has driven the line low, and the level it drove when it released the line.
  What the level of a released line is, is up to the chip and its kernel driver: nothing is said
  of it. A call that libgpiod does not allow in the state gives \<open>None\<close>.\<close>

record gpio_state =
  gs_chip :: bool
  gs_reserved :: bool
  gs_level :: "nat option"
  gs_low_secs :: nat
  gs_released_at :: "nat option"

fun gpio_step :: "gpio_call \<Rightarrow> gpio_state \<Rightarrow> gpio_state option" where
  "gpio_step (Chip_open chip ok) s = (if gs_chip s then None else Some (s\<lparr>gs_chip := ok\<rparr>))"
| "gpio_step (Get_line pin ok) s = (if gs_chip s then Some s else None)"
| "gpio_step (Request_output app v ok) s =
     (if gs_chip s \<and> \<not> gs_reserved s then
        Some (if ok then s\<lparr>gs_reserved := True, gs_level := Some v\<rparr> else s) else None)"
| "gpio_step (Set_value v ok) s =
     (if gs_reserved s then Some (s\<lparr>gs_level := (if ok then Some v else None)\<rparr>) else None)"
| "gpio_step (Hold n) s =
     Some (if gs_level s = Some 0 then s\<lparr>gs_low_secs := gs_low_secs s + n\<rparr> else s)"
| "gpio_step Line_release s =
     (if gs_chip s then Some (s\<lparr>gs_reserved := False, gs_level := None, gs_released_at := gs_level s\<rparr>) else None)"
| "gpio_step Chip_close s = (if gs_chip s \<and> \<not> gs_reserved s then Some (s\<lparr>gs_chip := False\<rparr>) else None)"

fun gpio_run :: "gpio_call list \<Rightarrow> gpio_state \<Rightarrow> gpio_state option" where
  "gpio_run [] s = Some s"
| "gpio_run (c # cs) s = (case gpio_step c s of None \<Rightarrow> None | Some s' \<Rightarrow> gpio_run cs s')"

definition gpio_start :: gpio_state where
  "gpio_start = \<lparr>gs_chip = False, gs_reserved = False, gs_level = None, gs_low_secs = 0, gs_released_at = None\<rparr>"

section \<open>Properties\<close>

text \<open>C35: The reset tool calls libgpiod only in states that allow the call, and whichever call
  fails, it ends with the line released and the chip closed. Its exit code is success exactly
  when every call succeeded, and this is exactly when the tool drives the line high at
  the moment it releases it, after having driven it low for one second; the second is waited
  exactly when the line could be set low. (The level of the line after its release is not
  libgpiod's to promise, and nothing is said of it.)\<close>

theorem pico_reset_pulse:
  "\<exists>s. gpio_run (snd (pico_reset env)) gpio_start = Some s
    \<and> \<not> gs_chip s \<and> \<not> gs_reserved s
    \<and> (fst (pico_reset env) = EXIT_SUCCESS \<longleftrightarrow>
         gp_chip env \<and> gp_line env \<and> 0 \<le> gp_request env \<and> 0 \<le> gp_low env \<and> 0 \<le> gp_high env)
    \<and> gs_low_secs s = (if gp_chip env \<and> gp_line env \<and> 0 \<le> gp_request env \<and> 0 \<le> gp_low env then 1 else 0)
    \<and> (fst (pico_reset env) = EXIT_SUCCESS \<longleftrightarrow> gs_released_at s = Some LINE_OUTPUT_HIGH)"
  by (auto simp: pico_reset_def gpio_start_def Let_def)

end
