(* ===== verification/ConsoleEcho.thy ===== *)
theory ConsoleEcho
  imports Prelude
begin

text \<open>
  The console sample of the Pico (\<open>pico/sample/console-echo/src/main.c\<close>): the interrupt
  handler that collects lines into a buffer of 32 bytes and puts them into a message queue of
  ten, and the main loop that echoes them; and the sample that prints a text every second
  (\<open>pico/sample/console-hello/src/main.c\<close>).
\<close>

section \<open>Definitions\<close>

abbreviation (input) MSG_SIZE :: nat where "MSG_SIZE \<equiv> 32"
abbreviation (input) MSGQ_LEN :: nat where "MSGQ_LEN \<equiv> 10"
abbreviation (input) NL :: u8 where "NL \<equiv> 10"
abbreviation (input) CR :: u8 where "CR \<equiv> 13"

record echo_state =
  rx_buf :: bytes
  rx_buf_pos :: nat
  uart_msgq :: "bytes list"

definition echo_start :: echo_state where
  "echo_start = \<lparr>rx_buf = replicate MSG_SIZE 0, rx_buf_pos = 0, uart_msgq = []\<rparr>"

text \<open>\<open>rx_buf[i] = c\<close>\<close>

definition put_rx :: "nat \<Rightarrow> u8 \<Rightarrow> echo_state \<Rightarrow> echo_state res" where
  "put_rx i c s =
     (if i < length (rx_buf s) then Inr (s\<lparr>rx_buf := (rx_buf s)[i := c]\<rparr>) else Inl Write_overrun)"

text \<open>\<open>k_msgq_put(&uart_msgq, &rx_buf, K_NO_WAIT)\<close>: a full queue drops the message.\<close>

definition k_msgq_put :: "bytes \<Rightarrow> bytes list \<Rightarrow> bytes list" where
  "k_msgq_put msg q = (if length q < MSGQ_LEN then q @ [msg] else q)"

text \<open>One round of the loop of the handler, for the byte \<open>c\<close>.\<close>

definition rx_byte :: "u8 \<Rightarrow> echo_state \<Rightarrow> echo_state res" where
  "rx_byte c s =
     (if (c = NL \<or> c = CR) \<and> 0 < rx_buf_pos s then
        (case put_rx (rx_buf_pos s) 0 s of
           Inl flt \<Rightarrow> Inl flt
         | Inr s1 \<Rightarrow> Inr (s1\<lparr>uart_msgq := k_msgq_put (rx_buf s1) (uart_msgq s1), rx_buf_pos := 0\<rparr>))
      else if rx_buf_pos s < MSG_SIZE - 1 then
        (case put_rx (rx_buf_pos s) c s of
           Inl flt \<Rightarrow> Inl flt
         | Inr s1 \<Rightarrow> Inr (s1\<lparr>rx_buf_pos := rx_buf_pos s1 + 1\<rparr>))
      else Inr s)"

fun rx_bytes :: "bytes \<Rightarrow> echo_state \<Rightarrow> echo_state res" where
  "rx_bytes [] s = Inr s"
| "rx_bytes (c # cs) s = (case rx_byte c s of Inl flt \<Rightarrow> Inl flt | Inr s1 \<Rightarrow> rx_bytes cs s1)"

text \<open>The interrupt handler: \<open>update\<close> and \<open>ready\<close> are the results of
  \<open>uart_irq_update\<close> and \<open>uart_irq_rx_ready\<close>, \<open>fifo\<close> the bytes the FIFO
  delivers.\<close>

definition serial_callback_handler :: "int \<Rightarrow> int \<Rightarrow> bytes \<Rightarrow> echo_state \<Rightarrow> echo_state res" where
  "serial_callback_handler update ready fifo s =
     (if update < 0 then Inr s
      else if ready < 0 then Inr s
      else rx_bytes fifo s)"

text \<open>\<open>print_uart(buf)\<close>: the bytes that go out.\<close>

definition print_uart :: "bytes \<Rightarrow> bytes res" where
  "print_uart buf = (case c_string buf of None \<Rightarrow> Inl Read_overrun | Some s \<Rightarrow> Inr s)"

text \<open>One round of the main loop, with a message in the queue: the bytes that go out. The
  literals are strings with their NUL.\<close>

definition echo_round :: "echo_state \<Rightarrow> (echo_state \<times> bytes) res" where
  "echo_round s =
     (case uart_msgq s of
        [] \<Rightarrow> Inr (s, [])
      | tx_buf # q \<Rightarrow>
        (case print_uart tx_buf of
           Inl flt \<Rightarrow> Inl flt
         | Inr line \<Rightarrow> Inr (s\<lparr>uart_msgq := q\<rparr>, str_bytes ''Echo: '' @ line @ [CR, NL])))"

fun echo_rounds :: "nat \<Rightarrow> echo_state \<Rightarrow> (echo_state \<times> bytes) res" where
  "echo_rounds 0 s = Inr (s, [])"
| "echo_rounds (Suc n) s =
     (case echo_round s of
        Inl flt \<Rightarrow> Inl flt
      | Inr (s1, o1) \<Rightarrow>
        (case echo_rounds n s1 of
           Inl flt \<Rightarrow> Inl flt
         | Inr (s2, o2) \<Rightarrow> Inr (s2, o1 @ o2)))"

text \<open>The start-up, from the results of \<open>device_is_ready\<close> and
  \<open>uart_irq_callback_user_data_set\<close>: the error that is logged, after which the program
  returns 0, or the bytes that go out before the loop.\<close>

datatype console_err = Uart_not_found | Irq_api_not_enabled | No_irq_api | Callback_error int

definition console_main :: "bool \<Rightarrow> int \<Rightarrow> (console_err + bytes) res" where
  "console_main ready ret =
     (if \<not> ready then Inr (Inl Uart_not_found)
      else if ret \<noteq> 0 then
        Inr (Inl (if ret = - ENOTSUP then Irq_api_not_enabled
                  else if ret = - ENOSYS then No_irq_api
                  else Callback_error ret))
      else
        (case print_uart (str_bytes ''Tell me something and press enter:'' @ [CR, NL] @ [0]) of
           Inl flt \<Rightarrow> Inl flt
         | Inr banner \<Rightarrow> Inr (Inr banner)))"

text \<open>The program from its loop on: interrupts arrive between the rounds of the loop (and between
  two calls of \<open>k_msgq_get\<close> that wait), in any order. The handler and
  \<open>k_msgq_get\<close> do not interrupt each other.\<close>

datatype console_act = Irq int int bytes | Main_round

fun console_run :: "console_act list \<Rightarrow> echo_state \<Rightarrow> (echo_state \<times> bytes) res" where
  "console_run [] s = Inr (s, [])"
| "console_run (Irq update ready fifo # acts) s =
     (case serial_callback_handler update ready fifo s of
        Inl flt \<Rightarrow> Inl flt
      | Inr s1 \<Rightarrow> console_run acts s1)"
| "console_run (Main_round # acts) s =
     (case echo_round s of
        Inl flt \<Rightarrow> Inl flt
      | Inr (s1, o1) \<Rightarrow>
        (case console_run acts s1 of
           Inl flt \<Rightarrow> Inl flt
         | Inr (s2, o2) \<Rightarrow> Inr (s2, o1 @ o2)))"

section \<open>console-hello\<close>

datatype hello_call = Log_inf string | Printk string | K_sleep_msec nat

text \<open>The calls of the first \<open>n\<close> rounds of the loop, and of the program up to there.\<close>

fun hello_loop :: "nat \<Rightarrow> hello_call list" where
  "hello_loop 0 = []"
| "hello_loop (Suc n) = [Log_inf ''Log Hello!'', Printk ''Hello World!\<newline>'', K_sleep_msec 1000] @ hello_loop n"

definition hello_main :: "nat \<Rightarrow> hello_call list" where
  "hello_main n = Log_inf ''application started.'' # hello_loop n"

section \<open>What the handler implements\<close>

text \<open>The abstract console: the current line and the messages.\<close>

record console =
  cn_line :: bytes
  cn_msgs :: "bytes list"

definition console_byte :: "u8 \<Rightarrow> console \<Rightarrow> console" where
  "console_byte c k =
     (if (c = NL \<or> c = CR) \<and> cn_line k \<noteq> [] then
        \<lparr>cn_line = [], cn_msgs = (if length (cn_msgs k) < MSGQ_LEN then cn_msgs k @ [cn_line k] else cn_msgs k)\<rparr>
      else if length (cn_line k) < MSG_SIZE - 1 then k\<lparr>cn_line := cn_line k @ [c]\<rparr>
      else k)"

text \<open>A message holds its line, a NUL, and what the buffer held before.\<close>

definition holds_line :: "bytes \<Rightarrow> bytes \<Rightarrow> bool" where
  "holds_line msg line \<longleftrightarrow> length msg = MSG_SIZE \<and> (\<exists>rest. msg = line @ 0 # rest)"

definition echo_rel :: "echo_state \<Rightarrow> console \<Rightarrow> bool" where
  "echo_rel s k \<longleftrightarrow>
     length (rx_buf s) = MSG_SIZE \<and> rx_buf_pos s \<le> MSG_SIZE - 1
     \<and> cn_line k = take (rx_buf_pos s) (rx_buf s)
     \<and> list_all2 holds_line (uart_msgq s) (cn_msgs k)
     \<and> length (uart_msgq s) \<le> MSGQ_LEN"

lemma echo_rel_start: "echo_rel echo_start \<lparr>cn_line = [], cn_msgs = []\<rparr>"
  by (simp add: echo_rel_def echo_start_def)

lemma rx_byte_refines:
  assumes "echo_rel s k"
  shows "\<exists>s'. rx_byte c s = Inr s' \<and> echo_rel s' (console_byte c k)"
proof -
  from assms have r: "length (rx_buf s) = MSG_SIZE" "rx_buf_pos s \<le> MSG_SIZE - 1"
    "cn_line k = take (rx_buf_pos s) (rx_buf s)" "list_all2 holds_line (uart_msgq s) (cn_msgs k)"
    "length (uart_msgq s) \<le> MSGQ_LEN" by (auto simp: echo_rel_def)
  then have len: "length (cn_line k) = rx_buf_pos s" by simp
  have lens: "length (uart_msgq s) = length (cn_msgs k)" using r(4) by (rule list_all2_lengthD)
  consider (msg) "c = NL \<or> c = CR" "0 < rx_buf_pos s"
    | (store) "\<not> ((c = NL \<or> c = CR) \<and> 0 < rx_buf_pos s)" "rx_buf_pos s < MSG_SIZE - 1"
    | (drop) "\<not> ((c = NL \<or> c = CR) \<and> 0 < rx_buf_pos s)" "\<not> rx_buf_pos s < MSG_SIZE - 1" by argo
  then show ?thesis
  proof cases
    case msg
    have "holds_line ((rx_buf s)[rx_buf_pos s := 0]) (cn_line k)"
      using r(1-3) by (auto simp: holds_line_def upd_conv_take_nth_drop)
    with msg r len lens show ?thesis
      by (auto simp: rx_byte_def put_rx_def console_byte_def echo_rel_def k_msgq_put_def
          intro!: list_all2_appendI)
  next
    case store
    then have "take (Suc (rx_buf_pos s)) ((rx_buf s)[rx_buf_pos s := c]) = cn_line k @ [c]"
      using r by (simp add: take_list_update_append)
    with store r len show ?thesis
      by (auto simp: rx_byte_def put_rx_def console_byte_def echo_rel_def)
  next
    case drop
    with r len assms show ?thesis by (auto simp: rx_byte_def console_byte_def echo_rel_def)
  qed
qed

lemma rx_bytes_refines:
  "echo_rel s k \<Longrightarrow> \<exists>s'. rx_bytes cs s = Inr s' \<and> echo_rel s' (fold console_byte cs k)"
proof (induction cs arbitrary: s k)
  case (Cons c cs)
  from rx_byte_refines [OF Cons.prems] obtain s1 where
    "rx_byte c s = Inr s1" "echo_rel s1 (console_byte c k)" by blast
  with Cons.IH [OF this(2)] show ?case by simp
qed simp

text \<open>The echo of a message is its line up to a NUL in it.\<close>

fun upto_nul :: "bytes \<Rightarrow> bytes" where
  "upto_nul [] = []"
| "upto_nul (b # bs) = (if b = 0 then [] else b # upto_nul bs)"

lemma print_uart_line: "holds_line msg line \<Longrightarrow> print_uart msg = Inr (upto_nul line)"
proof -
  have "c_string (line @ 0 # rest) = Some (upto_nul line)" for rest
    by (induction line) auto
  then show "holds_line msg line \<Longrightarrow> ?thesis" by (auto simp: holds_line_def print_uart_def)
qed

definition echo_of :: "bytes \<Rightarrow> bytes" where
  "echo_of line = str_bytes ''Echo: '' @ upto_nul line @ [CR, NL]"

lemma echo_rounds_all:
  assumes "list_all2 holds_line (uart_msgq s) lines"
  shows "echo_rounds (length lines) s = Inr (s\<lparr>uart_msgq := []\<rparr>, concat (map echo_of lines))"
  using assms
proof (induction lines arbitrary: s rule: list.induct)
  case (Cons line lines)
  then obtain msg q where q: "uart_msgq s = msg # q" "holds_line msg line"
    "list_all2 holds_line q lines"
    by (cases "uart_msgq s") auto
  with print_uart_line [OF q(2)] Cons.IH [of "s\<lparr>uart_msgq := q\<rparr>"] show ?case
    by (simp add: echo_round_def echo_of_def)
qed simp

text \<open>Lines that fit, entered into an empty console one after the other.\<close>

definition plain_line :: "bytes \<Rightarrow> bool" where
  "plain_line line \<longleftrightarrow> line \<noteq> [] \<and> length line < MSG_SIZE \<and> set line \<inter> {0, NL, CR} = {}"

lemma console_chars:
  assumes "set cs \<inter> {NL, CR} = {}" "length (cn_line k) + length cs < MSG_SIZE"
  shows "fold console_byte cs k = k\<lparr>cn_line := cn_line k @ cs\<rparr>"
  using assms by (induction cs arbitrary: k) (auto simp: console_byte_def)

lemma console_line:
  assumes "plain_line line" "c = NL \<or> c = CR" "cn_line k = []" "length (cn_msgs k) < MSGQ_LEN"
  shows "fold console_byte (line @ [c]) k = \<lparr>cn_line = [], cn_msgs = cn_msgs k @ [line]\<rparr>"
proof -
  have "fold console_byte line k = k\<lparr>cn_line := line\<rparr>"
    using assms(1,3) by (subst console_chars) (auto simp: plain_line_def)
  then show ?thesis using assms by (auto simp: console_byte_def plain_line_def)
qed

lemma console_lines:
  assumes "\<forall>line \<in> set lines. plain_line line" "length (cn_msgs k) + length lines \<le> MSGQ_LEN" "cn_line k = []"
  shows "fold console_byte (concat (map (\<lambda>line. line @ [CR]) lines)) k =
    \<lparr>cn_line = [], cn_msgs = cn_msgs k @ lines\<rparr>"
  using assms
proof (induction lines arbitrary: k)
  case (Cons line lines)
  then have "fold console_byte (line @ [CR]) k = \<lparr>cn_line = [], cn_msgs = cn_msgs k @ [line]\<rparr>"
    by (intro console_line) auto
  with Cons.IH [of "\<lparr>cn_line = [], cn_msgs = cn_msgs k @ [line]\<rparr>"] Cons.prems show ?case by simp
qed simp

lemma upto_nul_plain: "plain_line line \<Longrightarrow> upto_nul line = line"
proof -
  have "0 \<notin> set xs \<Longrightarrow> upto_nul xs = xs" for xs by (induction xs) auto
  then show "plain_line line \<Longrightarrow> ?thesis" by (auto simp: plain_line_def)
qed

text \<open>The interrupt handler stays within its buffer for every sequence of bytes, and implements the
  abstract console.\<close>

lemma console_handler_refines:
  assumes "echo_rel s k"
  shows "\<exists>s'. serial_callback_handler update ready fifo s = Inr s'
    \<and> echo_rel s' (if update < 0 \<or> ready < 0 then k else fold console_byte fifo k)"
  using rx_bytes_refines [OF assms, of fifo] assms
  by (auto simp: serial_callback_handler_def)

text \<open>The abstract program: a round of the loop echoes the first message, if there is one.\<close>

fun console_spec :: "console_act list \<Rightarrow> console \<Rightarrow> console \<times> bytes list" where
  "console_spec [] k = (k, [])"
| "console_spec (Irq update ready fifo # acts) k =
     console_spec acts (if update < 0 \<or> ready < 0 then k else fold console_byte fifo k)"
| "console_spec (Main_round # acts) k =
     (case cn_msgs k of
        [] \<Rightarrow> console_spec acts k
      | line # lines \<Rightarrow>
        (let (k', out) = console_spec acts (k\<lparr>cn_msgs := lines\<rparr>) in (k', line # out)))"

lemma echo_round_refines:
  assumes "echo_rel s k"
  shows "(cn_msgs k = [] \<and> echo_round s = Inr (s, []))
    \<or> (\<exists>line lines s'. cn_msgs k = line # lines \<and> echo_round s = Inr (s', echo_of line)
        \<and> echo_rel s' (k\<lparr>cn_msgs := lines\<rparr>))"
proof (cases "cn_msgs k")
  case Nil
  with assms show ?thesis by (simp add: echo_rel_def echo_round_def)
next
  case (Cons line lines)
  with assms obtain msg q where q: "uart_msgq s = msg # q" "holds_line msg line" "list_all2 holds_line q lines"
    by (auto simp: echo_rel_def list_all2_Cons2)
  have "echo_rel (s\<lparr>uart_msgq := q\<rparr>) (k\<lparr>cn_msgs := lines\<rparr>)"
    using assms q by (auto simp: echo_rel_def)
  with q Cons print_uart_line [OF q(2)] show ?thesis by (simp add: echo_round_def echo_of_def)
qed

lemma console_run_refines:
  assumes "echo_rel s k"
  shows "\<exists>s'. console_run acts s = Inr (s', concat (map echo_of (snd (console_spec acts k))))
    \<and> echo_rel s' (fst (console_spec acts k))"
  using assms
proof (induction acts arbitrary: s k)
  case (Cons a acts)
  show ?case
  proof (cases a)
    case (Irq update ready fifo)
    from console_handler_refines [OF Cons.prems, of update ready fifo] obtain s1 where
      "serial_callback_handler update ready fifo s = Inr s1"
      "echo_rel s1 (if update < 0 \<or> ready < 0 then k else fold console_byte fifo k)" by blast
    with Cons.IH [OF this(2)] show ?thesis by (simp add: Irq)
  next
    case Main_round
    from echo_round_refines [OF Cons.prems] show ?thesis
    proof (elim disjE exE conjE)
      assume "cn_msgs k = []" "echo_round s = Inr (s, [])"
      with Cons.IH [OF Cons.prems] show ?thesis by (auto simp: Main_round)
    next
      fix line lines s1
      assume *: "cn_msgs k = line # lines" "echo_round s = Inr (s1, echo_of line)"
        "echo_rel s1 (k\<lparr>cn_msgs := lines\<rparr>)"
      from Cons.IH [OF *(3)] *(1,2) show ?thesis by (auto simp: Main_round split: prod.split)
    qed
  qed
qed simp

text \<open>The start-up writes its banner exactly when the device is ready and takes the callback.\<close>

abbreviation banner :: bytes where
  "banner \<equiv> str_bytes ''Tell me something and press enter:'' @ [CR, NL]"

lemma console_start_up:
  "case console_main ready ret of
     Inl flt \<Rightarrow> False
   | Inr (Inl err) \<Rightarrow> \<not> (ready \<and> ret = 0)
   | Inr (Inr out) \<Rightarrow> ready \<and> ret = 0 \<and> out = banner"
proof -
  have "print_uart (str_bytes ''Tell me something and press enter:'' @ [CR, NL] @ [0]) = Inr banner" by code_simp
  then show ?thesis by (simp add: console_main_def)
qed

section \<open>Properties\<close>

text \<open>C21: The console reaches its main loop, with the banner printed, exactly when the device is ready
  and takes the callback. Then, whatever bytes the terminal sends and however the interrupts fall between the rounds of the
  main loop, the console stays within its buffer and its queue and implements the abstract
  console: its output is the echo of the lines taken from the queue, in their order, each up
  to its first NUL; the current line has at most 31 bytes, and a line that finds ten messages
  waiting is dropped.\<close>

theorem console_program_refines:
  "\<exists>s'. console_run acts echo_start =
      Inr (s', concat (map echo_of (snd (console_spec acts \<lparr>cn_line = [], cn_msgs = []\<rparr>))))
    \<and> echo_rel s' (fst (console_spec acts \<lparr>cn_line = [], cn_msgs = []\<rparr>))
    \<and> rx_buf_pos s' < MSG_SIZE \<and> length (uart_msgq s') \<le> MSGQ_LEN
    \<and> (case console_main ready ret of
         Inl flt \<Rightarrow> False
       | Inr (Inl err) \<Rightarrow> \<not> (ready \<and> ret = 0)
       | Inr (Inr out) \<Rightarrow> ready \<and> ret = 0 \<and> out = banner)"
proof -
  from console_run_refines [OF echo_rel_start, of acts] obtain s' where
    "console_run acts echo_start =
      Inr (s', concat (map echo_of (snd (console_spec acts \<lparr>cn_line = [], cn_msgs = []\<rparr>))))"
    "echo_rel s' (fst (console_spec acts \<lparr>cn_line = [], cn_msgs = []\<rparr>))" by blast
  with console_start_up [of ready ret] show ?thesis by (auto simp: echo_rel_def)
qed

lemma console_program_example:
  "case console_run [Irq 1 1 [104, 105, 13], Main_round, Irq 1 1 [121], Main_round, Irq 1 1 [13], Main_round] echo_start of
     Inl _ \<Rightarrow> False
   | Inr (s, out) \<Rightarrow> out = str_bytes ''Echo: '' @ [104, 105, 13, 10] @ str_bytes ''Echo: '' @ [121, 13, 10]"
  by code_simp

text \<open>C22: The console echoes what is typed: up to ten non-empty lines of at most 31 bytes, each ended
  by a carriage return, come back in their order, each as "Echo: ", the line, and a new line,
  however long the main loop waits before it reads them.\<close>

theorem console_echoes_lines:
  assumes "\<forall>line \<in> set lines. plain_line line" "length lines \<le> MSGQ_LEN"
  shows "\<exists>s s'. serial_callback_handler 1 1 (concat (map (\<lambda>line. line @ [CR]) lines)) echo_start = Inr s
    \<and> echo_rounds (length lines) s =
        Inr (s', concat (map (\<lambda>line. str_bytes ''Echo: '' @ line @ [CR, NL]) lines))
    \<and> uart_msgq s' = []"
proof -
  let ?in = "concat (map (\<lambda>line. line @ [CR]) lines)"
  have "fold console_byte ?in \<lparr>cn_line = [], cn_msgs = []\<rparr> = \<lparr>cn_line = [], cn_msgs = lines\<rparr>"
    using console_lines [of lines "\<lparr>cn_line = [], cn_msgs = []\<rparr>"] assms by simp
  with rx_bytes_refines [OF echo_rel_start, of ?in] obtain s where
    s: "rx_bytes ?in echo_start = Inr s" "echo_rel s \<lparr>cn_line = [], cn_msgs = lines\<rparr>" by auto
  have "map echo_of lines = map (\<lambda>line. str_bytes ''Echo: '' @ line @ [CR, NL]) lines"
    using assms(1) by (simp add: echo_of_def upto_nul_plain)
  with s echo_rounds_all [of s lines] show ?thesis
    by (simp add: serial_callback_handler_def echo_rel_def)
qed

lemma console_echoes_lines_witness:
  "\<exists>s s'. serial_callback_handler 1 1 [104, 105, 13, 121, 13] echo_start = Inr s
    \<and> echo_rounds 2 s = Inr (s', str_bytes ''Echo: '' @ [104, 105, 13, 10] @ str_bytes ''Echo: '' @ [121, 13, 10])"
proof -
  have "\<forall>line \<in> set [[104, 105], [121]]. plain_line line" by (simp add: plain_line_def)
  from console_echoes_lines [OF this] show ?thesis by (simp add: numeral_2_eq_2) blast
qed

text \<open>Lines that end with carriage return and line feed, after one of them.\<close>

lemma console_lines_crlf:
  assumes "\<forall>line \<in> set lines. plain_line line \<and> length line < MSG_SIZE - 1"
    and "length (cn_msgs k) + length lines \<le> MSGQ_LEN" "cn_line k = [NL]"
  shows "fold console_byte (concat (map (\<lambda>line. line @ [CR, NL]) lines)) k =
    \<lparr>cn_line = [NL], cn_msgs = cn_msgs k @ map (\<lambda>line. NL # line) lines\<rparr>"
  using assms
proof (induction lines arbitrary: k)
  case (Cons line lines)
  have "fold console_byte line k = k\<lparr>cn_line := NL # line\<rparr>"
    using Cons.prems by (subst console_chars) (auto simp: plain_line_def)
  then have "fold console_byte (line @ [CR, NL]) k = \<lparr>cn_line = [NL], cn_msgs = cn_msgs k @ [NL # line]\<rparr>"
    using Cons.prems(2) by (simp add: console_byte_def)
  with Cons.IH [of "\<lparr>cn_line = [NL], cn_msgs = cn_msgs k @ [NL # line]\<rparr>"] Cons.prems show ?case by simp
qed simp

text \<open>C34: A terminal that ends its lines with carriage return and line feed is not understood: of up
  to ten lines the first comes back as it was, and from the second on every line comes back
  with a line feed in front of it, because the terminator of an empty line is stored as a
  character. (The line feed takes one of the 31 places: lines after the first have at most 30
  bytes here.)\<close>

theorem console_stores_line_feed:
  assumes "plain_line line" "\<forall>l \<in> set lines. plain_line l \<and> length l < MSG_SIZE - 1"
    and "length (line # lines) \<le> MSGQ_LEN"
  shows "\<exists>s s'. serial_callback_handler 1 1 (concat (map (\<lambda>l. l @ [CR, NL]) (line # lines))) echo_start = Inr s
    \<and> echo_rounds (length (line # lines)) s = Inr (s',
        str_bytes ''Echo: '' @ line @ [CR, NL] @ concat (map (\<lambda>l. str_bytes ''Echo: '' @ NL # l @ [CR, NL]) lines))"
proof -
  let ?k0 = "\<lparr>cn_line = [], cn_msgs = []\<rparr> :: console"
  let ?in = "concat (map (\<lambda>l. l @ [CR, NL]) (line # lines))"
  let ?msgs = "line # map (\<lambda>l. NL # l) lines"
  have first: "fold console_byte (line @ [CR]) ?k0 = \<lparr>cn_line = [], cn_msgs = [line]\<rparr>"
    using console_line [OF assms(1), of CR ?k0] by simp
  have "fold console_byte ?in ?k0 = fold console_byte (concat (map (\<lambda>l. l @ [CR, NL]) lines))
      (console_byte NL (fold console_byte (line @ [CR]) ?k0))" by simp
  also have "\<dots> = \<lparr>cn_line = [NL], cn_msgs = ?msgs\<rparr>"
    unfolding first using console_lines_crlf [of lines "\<lparr>cn_line = [NL], cn_msgs = [line]\<rparr>"] assms(2,3)
    by (simp add: console_byte_def)
  finally obtain s where s: "rx_bytes ?in echo_start = Inr s" "echo_rel s \<lparr>cn_line = [NL], cn_msgs = ?msgs\<rparr>"
    using rx_bytes_refines [OF echo_rel_start, of ?in] by metis
  have "list_all2 holds_line (uart_msgq s) ?msgs" using s(2) by (simp add: echo_rel_def)
  from echo_rounds_all [OF this] have
    r: "echo_rounds (length (line # lines)) s = Inr (s\<lparr>uart_msgq := []\<rparr>, concat (map echo_of ?msgs))"
    by simp
  have m: "map echo_of (map (\<lambda>l. NL # l) lines) = map (\<lambda>l. str_bytes ''Echo: '' @ NL # l @ [CR, NL]) lines"
    using assms(2) by (simp add: echo_of_def upto_nul_plain)
  have "concat (map echo_of ?msgs) =
      str_bytes ''Echo: '' @ line @ [CR, NL] @ concat (map (\<lambda>l. str_bytes ''Echo: '' @ NL # l @ [CR, NL]) lines)"
    by (simp only: list.map concat.simps m) (simp add: echo_of_def upto_nul_plain [OF assms(1)])
  moreover have "serial_callback_handler 1 1 ?in echo_start = Inr s"
    by (simp only: serial_callback_handler_def s(1)) simp
  ultimately show ?thesis using r by metis
qed

lemma console_stores_line_feed_witness:
  "\<exists>s s'. serial_callback_handler 1 1 [65, 13, 10, 66, 13, 10, 67, 13, 10] echo_start = Inr s
    \<and> echo_rounds 3 s = Inr (s', str_bytes ''Echo: '' @ [65, 13, 10] @ str_bytes ''Echo: '' @ [10, 66, 13, 10]
        @ str_bytes ''Echo: '' @ [10, 67, 13, 10])"
  using console_stores_line_feed [of "[65]" "[[66], [67]]"] by (simp add: plain_line_def numeral_3_eq_3)

end
