(* ===== verification/CspSamples.thy ===== *)
theory CspSamples
  imports Pico
begin

text \<open>
  The CSP samples: the sender and the server for the Pico (\<open>pico/sample/csp-send\<close>,
  \<open>pico/sample/csp-server\<close>), and libcsp's server and client program with its pthread part
  (\<open>csp-server-client/files\<close>). Their properties are in theory \<open>CspProps\<close>.
\<close>

section \<open>The server tasks\<close>

abbreviation (input) SERVER_PORT :: nat where "SERVER_PORT \<equiv> 10"
abbreviation (input) MY_SERVER_PORT :: nat where "MY_SERVER_PORT \<equiv> 10"
abbreviation (input) SEND_SERVER_PORT :: nat where "SEND_SERVER_PORT \<equiv> 10"
abbreviation (input) CSP_DST_ADDR :: nat where "CSP_DST_ADDR \<equiv> 24"
abbreviation (input) SEND_SRC_ADDR :: nat where "SEND_SRC_ADDR \<equiv> 26"

text \<open>\<open>%s\<close> of the packet's data reads up to the first NUL of the data area.\<close>

definition sample_dispatch :: "unit \<Rightarrow> nat \<Rightarrow> csp_packet \<Rightarrow> bytes list \<Rightarrow> (bytes list \<times> event list) res" where
  "sample_dispatch u dport packet texts =
     (if dport = SERVER_PORT then
        (case c_string (pk_data packet) of
           None \<Rightarrow> Inl Read_overrun
         | Some s \<Rightarrow> Inr (texts @ [s], [Ev_free (pk_ptr packet)]))
      else Inr (texts, [Ev_service packet]))"

definition sample_server :: "unit conn list \<Rightarrow> (bytes list \<times> event list) res" where
  "sample_server conns = serve sample_dispatch conns []"

text \<open>The server of \<open>csp_server_client.c\<close> counts the packets as well
  (\<open>server_received\<close>, an unsigned int).\<close>

record my_server =
  ms_log :: "bytes list"
  ms_received :: u32

definition my_dispatch :: "unit \<Rightarrow> nat \<Rightarrow> csp_packet \<Rightarrow> my_server \<Rightarrow> (my_server \<times> event list) res" where
  "my_dispatch u dport packet s =
     (if dport = MY_SERVER_PORT then
        (case c_string (pk_data packet) of
           None \<Rightarrow> Inl Read_overrun
         | Some str \<Rightarrow> Inr (s\<lparr>ms_log := ms_log s @ [str], ms_received := ms_received s + 1\<rparr>,
                          [Ev_free (pk_ptr packet)]))
      else Inr (s, [Ev_service packet]))"

definition my_server_task :: "unit conn list \<Rightarrow> my_server \<Rightarrow> (my_server \<times> event list) res" where
  "my_server_task = serve my_dispatch"

section \<open>The senders\<close>

text \<open>\<open>strlen\<close> of a memory block.\<close>

definition strlen :: "bytes \<Rightarrow> nat res" where
  "strlen bs = (case c_string bs of None \<Rightarrow> Inl Read_overrun | Some s \<Rightarrow> Inr (length s))"

text \<open>One round of the loop of \<open>csp-send\<close>: \<open>conn\<close> whether the connection was made,
  \<open>buf\<close> the buffer got, \<open>dbg\<close> whether debug messages are compiled in. The outcome is an
  exit code or the end of the round. The debug message prints the packet.\<close>

definition csp_send_round :: "bool \<Rightarrow> bool \<Rightarrow> csp_packet option \<Rightarrow> (int option \<times> event list) res" where
  "csp_send_round dbg conn buf =
     (if \<not> conn then Inr (Some 1, [])
      else
        (case buf of
           None \<Rightarrow> Inr (Some 1, [Ev_connect CSP_DST_ADDR SEND_SERVER_PORT])
         | Some packet \<Rightarrow>
           let packet1 = put_data packet (str_bytes ''Hello World'' @ [0]) in
           (case strlen (pk_data packet1) of
              Inl flt \<Rightarrow> Inl flt
            | Inr n \<Rightarrow>
              let packet2 = packet1\<lparr>pk_length := of_nat (n + 1)\<rparr> in
              Inr (None, [Ev_connect CSP_DST_ADDR SEND_SERVER_PORT, Ev_get (pk_ptr packet), Ev_send packet2, Ev_conn_close]
                         @ (if dbg then [Ev_show (pk_ptr packet)] else []) @ [Ev_sleep 1]))))"

text \<open>The loop, until a round ends the program: the exit code, if it has ended.\<close>

fun csp_send_loop :: "bool \<Rightarrow> (bool \<times> csp_packet option) list \<Rightarrow> (int option \<times> event list) res" where
  "csp_send_loop dbg [] = Inr (None, [])"
| "csp_send_loop dbg ((conn, buf) # rounds) =
     (case csp_send_round dbg conn buf of
        Inl flt \<Rightarrow> Inl flt
      | Inr (Some code, evs1) \<Rightarrow> Inr (Some code, evs1)
      | Inr (None, evs1) \<Rightarrow>
        (case csp_send_loop dbg rounds of
           Inl flt \<Rightarrow> Inl flt
         | Inr (code, evs2) \<Rightarrow> Inr (code, evs1 @ evs2)))"

text \<open>One round of \<open>client\<close>: a pause, a ping and a reboot request, then the message.
  \<open>count\<close> is the unsigned counter, of which one byte is copied; the outcome is whether the
  loop goes on.\<close>

definition client_round ::
    "bool \<Rightarrow> u8 \<Rightarrow> bool \<Rightarrow> csp_packet option \<Rightarrow> u32 \<Rightarrow> (bool \<times> u32 \<times> event list) res" where
  "client_round test_mode server_address conn buf count =
     (let evs0 = [Ev_usleep (if test_mode then 200000 else 1000000),
                  Ev_ping server_address, Ev_reboot server_address] in
      if \<not> conn then Inr (False, count, evs0)
      else
        (case buf of
           None \<Rightarrow> Inr (False, count, evs0 @ [Ev_connect (unat server_address) MY_SERVER_PORT])
         | Some packet \<Rightarrow>
           let packet1 = put_data packet (str_bytes ''Hello world '' @ [ucast count] @ [0]) in
           (case strlen (pk_data packet1) of
              Inl flt \<Rightarrow> Inl flt
            | Inr n \<Rightarrow>
              let packet2 = packet1\<lparr>pk_length := of_nat (n + 1)\<rparr> in
              Inr (True, count + 1,
                   evs0 @ [Ev_connect (unat server_address) MY_SERVER_PORT, Ev_get (pk_ptr packet), Ev_send packet2, Ev_conn_close]))))"

fun client_loop ::
    "bool \<Rightarrow> u8 \<Rightarrow> (bool \<times> csp_packet option) list \<Rightarrow> u32 \<Rightarrow> (u32 \<times> event list) res" where
  "client_loop test_mode server_address [] count = Inr (count, [])"
| "client_loop test_mode server_address ((conn, buf) # rounds) count =
     (case client_round test_mode server_address conn buf count of
        Inl flt \<Rightarrow> Inl flt
      | Inr (continues, count1, evs1) \<Rightarrow>
        if continues then
          (case client_loop test_mode server_address rounds count1 of
             Inl flt \<Rightarrow> Inl flt
           | Inr (count2, evs2) \<Rightarrow> Inr (count2, evs1 @ evs2))
        else Inr (count1, evs1))"

definition client ::
    "bool \<Rightarrow> u8 \<Rightarrow> (bool \<times> csp_packet option) list \<Rightarrow> (u32 \<times> event list) res" where
  "client test_mode server_address rounds =
     client_loop test_mode server_address rounds (of_char (CHR ''A''))"

section \<open>The start of the Pico's samples\<close>

abbreviation (input) CSP_SRC_ADDR :: nat where "CSP_SRC_ADDR \<equiv> 26"

definition SAMPLE_UART :: usart_conf where
  "SAMPLE_UART = \<lparr>uc_device = ''uart@40034000'', uc_baudrate = 115200, uc_databits = 8,
     uc_stopbits = 1, uc_paritysetting = 0\<rparr>"

text \<open>The sender has no threads of its own. The start, with the exit code when the interface cannot
  be added.\<close>

definition csp_send_main :: "int \<Rightarrow> csp_node \<Rightarrow> int option \<times> csp_node" where
  "csp_send_main error n =
     (let (err, n1) = csp_usart_open_and_add_kiss_interface error SAMPLE_UART SEND_SRC_ADDR
                        (csp_init (n\<lparr>nd_version := 1\<rparr>)) in
      if err \<noteq> CSP_ERR_NONE then (Some 1, n1) else (None, n1\<lparr>nd_default := True\<rparr>))"

text \<open>The threads of the server (\<open>thread.c\<close>) and its start.\<close>

abbreviation (input) SAMPLE_ROUTER_STACK_SIZE :: nat where "SAMPLE_ROUTER_STACK_SIZE \<equiv> 256"
abbreviation (input) SAMPLE_SERVER_STACK_SIZE :: nat where "SAMPLE_SERVER_STACK_SIZE \<equiv> 1024"
abbreviation (input) SAMPLE_ROUTER_PRIO :: nat where "SAMPLE_ROUTER_PRIO \<equiv> 0"
abbreviation (input) SAMPLE_SERVER_PRIO :: nat where "SAMPLE_SERVER_PRIO \<equiv> 0"

definition sample_threads :: threads where
  "sample_threads =
     [Router_id \<mapsto> K_THREAD_DEFINE SAMPLE_ROUTER_STACK_SIZE SAMPLE_ROUTER_PRIO,
      Server_id \<mapsto> K_THREAD_DEFINE SAMPLE_SERVER_STACK_SIZE SAMPLE_SERVER_PRIO]"

fun sample_router_task :: "nat \<Rightarrow> route_call list" where
  "sample_router_task 0 = []"
| "sample_router_task (Suc n) = Csp_route_work # sample_router_task n"

definition sample_server_task :: "unit conn list \<Rightarrow> (bytes list \<times> event list) res" where
  "sample_server_task conns = sample_server conns"

definition sample_router_start :: "csp_node \<Rightarrow> csp_node" where
  "sample_router_start = on_threads (k_thread_start Router_id)"

definition sample_server_start :: "csp_node \<Rightarrow> csp_node" where
  "sample_server_start = on_threads (k_thread_start Server_id)"

definition sample_server_main :: "int \<Rightarrow> csp_node \<Rightarrow> int option \<times> csp_node" where
  "sample_server_main error n =
     (let n1 = sample_router_start (csp_init (n\<lparr>nd_version := 1\<rparr>));
          (err, n2) = csp_usart_open_and_add_kiss_interface error SAMPLE_UART CSP_SRC_ADDR n1 in
      if err \<noteq> CSP_ERR_NONE then (Some 1, n2)
      else (None, sample_server_start (n2\<lparr>nd_default := True\<rparr>)))"

section \<open>csp_server_client_posix.c\<close>

datatype posix_task = Task_router | Task_server | Task_client

instantiation posix_task :: enum
begin

definition "enum_posix_task = [Task_router, Task_server, Task_client]"

definition "enum_all_posix_task P \<longleftrightarrow> P Task_router \<and> P Task_server \<and> P Task_client"

definition "enum_ex_posix_task P \<longleftrightarrow> P Task_router \<or> P Task_server \<or> P Task_client"

instance
proof
  show UNIV: "(UNIV :: posix_task set) = set enum_class.enum"
    using posix_task.exhaust by (auto simp: enum_posix_task_def)
  show "distinct (enum_class.enum :: posix_task list)" by (simp add: enum_posix_task_def)
  show "enum_class.enum_all P \<longleftrightarrow> Ball UNIV P" "enum_class.enum_ex P \<longleftrightarrow> Bex UNIV P" for P :: "posix_task \<Rightarrow> bool"
    unfolding UNIV by (simp_all add: enum_posix_task_def enum_all_posix_task_def enum_ex_posix_task_def)
qed

end

text \<open>\<open>env\<close> has the results of \<open>pthread_attr_init\<close> and \<open>pthread_create\<close> for each task;
  the state is the list of the running tasks.\<close>

definition csp_pthread_create ::
    "(posix_task \<Rightarrow> int \<times> int) \<Rightarrow> posix_task \<Rightarrow> posix_task list \<Rightarrow> int \<times> posix_task list" where
  "csp_pthread_create env routine ts =
     (let (attr_init, create) = env routine in
      if attr_init \<noteq> 0 then (CSP_ERR_NOMEM, ts)
      else if create \<noteq> 0 then (create, ts)
      else (CSP_ERR_NONE, ts @ [routine]))"

fun posix_task_router :: "nat \<Rightarrow> route_call list" where
  "posix_task_router 0 = []"
| "posix_task_router (Suc n) = Csp_route_work # posix_task_router n"

definition posix_task_server :: "unit conn list \<Rightarrow> my_server \<Rightarrow> (my_server \<times> event list) res" where
  "posix_task_server = my_server_task"

definition posix_task_client ::
    "bool \<Rightarrow> u8 \<Rightarrow> (bool \<times> csp_packet option) list \<Rightarrow> (u32 \<times> event list) res" where
  "posix_task_client = client"

definition posix_router_start where
  "posix_router_start env = csp_pthread_create env Task_router"

definition posix_server_start where
  "posix_server_start env = csp_pthread_create env Task_server"

definition posix_client_start where
  "posix_client_start env = csp_pthread_create env Task_client"

section \<open>The options and the start of csp_server_client.c\<close>

text \<open>\<open>atoi\<close>: white space, a sign, digits.\<close>

fun digits_value :: "int \<Rightarrow> string \<Rightarrow> int" where
  "digits_value acc [] = acc"
| "digits_value acc (c # cs) =
     (if c \<in> set ''0123456789'' then digits_value (acc * 10 + (of_char c - 48)) cs else acc)"

fun atoi :: "string \<Rightarrow> int" where
  "atoi [] = 0"
| "atoi (c # cs) =
     (if of_char c \<in> {32, 9, 10, 11, 12, 13 :: nat} then atoi cs
      else if c = CHR ''-'' then - digits_value 0 cs
      else if c = CHR ''+'' then digits_value 0 cs
      else digits_value 0 (c # cs))"

text \<open>\<open>getopt\<close> of the C library, for short options: what the calls return one after the other
  for the words of the command line, option and argument. An option that the option string
  does not have, or whose argument is missing, is returned as a question mark; words that are
  no options are skipped, and two dashes end the options.\<close>

fun opt_kind :: "string \<Rightarrow> char \<Rightarrow> bool option" where
  "opt_kind [] c = None"
| "opt_kind (x # xs) c =
     (if x = c \<and> c \<noteq> CHR '':'' then Some (xs \<noteq> [] \<and> hd xs = CHR '':'') else opt_kind xs c)"

fun getopt_word :: "string \<Rightarrow> string \<Rightarrow> string list \<Rightarrow> (char \<times> string) list \<times> string list" where
  "getopt_word optstring [] ws = ([], ws)"
| "getopt_word optstring (c # cs) ws =
     (case opt_kind optstring c of
        None \<Rightarrow> (let (opts, ws') = getopt_word optstring cs ws in ((CHR ''?'', []) # opts, ws'))
      | Some False \<Rightarrow> (let (opts, ws') = getopt_word optstring cs ws in ((c, []) # opts, ws'))
      | Some True \<Rightarrow>
        if cs \<noteq> [] then ([(c, cs)], ws)
        else (case ws of [] \<Rightarrow> ([(CHR ''?'', [])], []) | w # ws' \<Rightarrow> ([(c, w)], ws')))"

lemma getopt_word_shrinks: "getopt_word optstring cs ws = (opts, ws') \<Longrightarrow> length ws' \<le> length ws"
  by (induction cs arbitrary: opts)
    (auto split: option.splits bool.splits list.splits if_splits prod.splits)

function getopt :: "string \<Rightarrow> string list \<Rightarrow> (char \<times> string) list" where
  "getopt optstring [] = []"
| "getopt optstring (w # ws) =
     (if w = ''--'' then []
      else if 2 \<le> length w \<and> hd w = CHR ''-'' then
        fst (getopt_word optstring (tl w) ws) @ getopt optstring (snd (getopt_word optstring (tl w) ws))
      else getopt optstring ws)"
  by pat_completeness auto
termination
proof (relation "measure (\<lambda>(optstring, ws). length ws)")
  fix optstring w and ws :: "string list"
  have "length (snd (getopt_word optstring (tl w) ws)) \<le> length ws"
    by (metis getopt_word_shrinks surjective_pairing)
  then show "((optstring, snd (getopt_word optstring (tl w) ws)), optstring, w # ws)
      \<in> measure (\<lambda>(optstring, ws). length ws)" by simp
qed simp_all

text \<open>What the program is built with.\<close>

record build_cfg =
  have_socketcan :: bool
  have_zmq :: bool
  use_rtable :: bool

record options =
  op_address :: u8
  op_server_address :: u8
  op_can :: "string option"
  op_kiss :: "string option"
  op_zmq :: "string option"
  op_rtable :: "string option"
  op_test_mode :: bool

definition default_options :: options where
  "default_options = \<lparr>op_address = 0, op_server_address = 255, op_can = None, op_kiss = None,
     op_zmq = None, op_rtable = None, op_test_mode = False\<rparr>"

datatype default_if = Kiss | Can | Zmq

text \<open>What is printed before an exit: the usage text, or the interface or routing table that failed
  with libcsp's result.\<close>

datatype exit_msg = Usage "string list" | Interface_failed default_if string int | Rtable_failed string int

text \<open>The usage text, one string per line.\<close>

definition print_usage :: "build_cfg \<Rightarrow> string list" where
  "print_usage cfg =
     [''Usage:'', '' -a <address>     local CSP address'', '' -r <address>     run client against server address'']
     @ (if have_socketcan cfg then ['' -c <can-device>  add CAN device''] else [])
     @ ['' -k <kiss-device> add KISS device (serial)'']
     @ (if have_zmq cfg then ['' -z <zmq-device>  add ZMQ device, e.g. \"localhost\"''] else [])
     @ (if use_rtable cfg then ['' -R <rtable>      set routing table''] else [])
     @ ['' -t               enable test mode'', '' -h               print help'']"

text \<open>The loop over what \<open>getopt\<close> returns: an exit code, with the usage text printed, or the
  options.\<close>

fun parse_options :: "build_cfg \<Rightarrow> (char \<times> string) list \<Rightarrow> options \<Rightarrow> (int \<times> exit_msg) + options" where
  "parse_options cfg [] ops = Inr ops"
| "parse_options cfg ((opt, optarg) # rest) ops =
     (if opt = CHR ''a'' then parse_options cfg rest (ops\<lparr>op_address := word_of_int (atoi optarg)\<rparr>)
      else if opt = CHR ''r'' then parse_options cfg rest (ops\<lparr>op_server_address := word_of_int (atoi optarg)\<rparr>)
      else if opt = CHR ''c'' \<and> have_socketcan cfg then parse_options cfg rest (ops\<lparr>op_can := Some optarg\<rparr>)
      else if opt = CHR ''k'' then parse_options cfg rest (ops\<lparr>op_kiss := Some optarg\<rparr>)
      else if opt = CHR ''z'' \<and> have_zmq cfg then parse_options cfg rest (ops\<lparr>op_zmq := Some optarg\<rparr>)
      else if opt = CHR ''t'' then parse_options cfg rest (ops\<lparr>op_test_mode := True\<rparr>)
      else if opt = CHR ''R'' \<and> use_rtable cfg then parse_options cfg rest (ops\<lparr>op_rtable := Some optarg\<rparr>)
      else if opt = CHR ''h'' then Inl (0, Usage (print_usage cfg))
      else Inl (1, Usage (print_usage cfg)))"

text \<open>The results of the libcsp calls that add interfaces and load the routing table.\<close>

record csp_results =
  cr_kiss :: int
  cr_can :: int
  cr_zmq :: int
  cr_rtable :: int

record started =
  sd_default :: "default_if option"
  sd_default_route :: bool
  sd_server_address :: u8
  sd_tasks :: "posix_task list"

text \<open>\<open>main\<close> up to its waiting loop, for the words of the command line: an exit code and what is
  printed before it (the usage text or an error message), or what has been started.\<close>

definition server_client_main ::
    "build_cfg \<Rightarrow> (posix_task \<Rightarrow> int \<times> int) \<Rightarrow> string list \<Rightarrow> csp_results \<Rightarrow> (int \<times> exit_msg) + started" where
  "server_client_main cfg env argv res =
     (case parse_options cfg (getopt ''a:r:c:k:z:tR:h'' argv) default_options of
        Inl code \<Rightarrow> Inl code
      | Inr ops \<Rightarrow>
        let ts1 = snd (posix_router_start env []) in
        if op_kiss ops \<noteq> None \<and> cr_kiss res \<noteq> CSP_ERR_NONE then Inl (1, Interface_failed Kiss (the (op_kiss ops)) (cr_kiss res))
        else let i1 = (if op_kiss ops \<noteq> None then Some Kiss else None) in
        if op_can ops \<noteq> None \<and> cr_can res \<noteq> CSP_ERR_NONE then Inl (1, Interface_failed Can (the (op_can ops)) (cr_can res))
        else let i2 = (if op_can ops \<noteq> None then Some Can else i1) in
        if op_zmq ops \<noteq> None \<and> cr_zmq res \<noteq> CSP_ERR_NONE then Inl (1, Interface_failed Zmq (the (op_zmq ops)) (cr_zmq res))
        else let i3 = (if op_zmq ops \<noteq> None then Some Zmq else i2) in
        if op_rtable ops \<noteq> None \<and> cr_rtable res < 1 then Inl (1, Rtable_failed (the (op_rtable ops)) (cr_rtable res))
        else
          let server_address = (if i3 = None then op_address ops else op_server_address ops);
              ts2 = (if server_address = 255 \<or> i3 = None then snd (posix_server_start env ts1) else ts1);
              ts3 = (if server_address \<noteq> 255 \<or> i3 = None then snd (posix_client_start env ts2) else ts2) in
          Inr \<lparr>sd_default = i3,
               sd_default_route = (use_rtable cfg \<and> op_rtable ops = None \<and> i3 \<noteq> None),
               sd_server_address = server_address, sd_tasks = ts3\<rparr>)"

text \<open>One round of the waiting loop: the exit code in test mode.\<close>

definition wait_round :: "bool \<Rightarrow> u32 \<Rightarrow> int option" where
  "wait_round test_mode server_received =
     (if test_mode then (if server_received < 5 then Some 1 else Some 0) else None)"

end
