(* ===== verification/CspProps.thy ===== *)
theory CspProps
  imports CspSamples
begin

text \<open>
  The CSP samples: the servers that print what they receive, as instances of one contract; the
  senders with any outcome of their calls; the way of the messages from a sender to a server;
  and what the sample program starts for which options.
\<close>

section \<open>Servers that print texts\<close>

text \<open>A packet whose data area holds a NUL can be printed.\<close>

definition printable :: "csp_packet \<Rightarrow> bool" where
  "printable p \<longleftrightarrow> 0 \<in> set (pk_data p)"

lemma printable_c_string: "printable p \<longleftrightarrow> c_string (pk_data p) \<noteq> None"
  by (simp add: printable_def c_string_None_iff del: not_None_eq)

abbreviation text_of :: "csp_packet \<Rightarrow> bytes" where
  "text_of p \<equiv> the (c_string (pk_data p))"

definition printing :: "('e \<Rightarrow> nat \<Rightarrow> csp_packet \<Rightarrow> 's \<Rightarrow> ('s \<times> event list) res) \<Rightarrow>
    'e \<Rightarrow> nat \<Rightarrow> csp_packet \<Rightarrow> 's \<Rightarrow> ('s \<times> event list) res" where
  "printing dispatch e dport p s =
     (if printable p then dispatch e dport p s else Inr (s, [Ev_service p]))"

text \<open>The contract: a packet for the port is printed up to its NUL and freed, which is out of
  bounds without a NUL, and any other packet goes to libcsp.\<close>

locale text_server =
  fixes dispatch :: "'e \<Rightarrow> nat \<Rightarrow> csp_packet \<Rightarrow> 's \<Rightarrow> ('s \<times> event list) res"
    and port :: nat
    and take_text :: "bytes \<Rightarrow> 's \<Rightarrow> 's"
  assumes on_port: "dispatch e port p s =
      (case c_string (pk_data p) of
         None \<Rightarrow> Inl Read_overrun
       | Some str \<Rightarrow> Inr (take_text str s, [Ev_free (pk_ptr p)]))"
    and off_port: "dport \<noteq> port \<Longrightarrow> dispatch e dport p s = Inr (s, [Ev_service p])"
begin

lemma read_loop_texts:
  "\<forall>(e, p) \<in> set ps. dport = port \<longrightarrow> printable p \<Longrightarrow>
    \<exists>evs. read_loop dispatch dport ps s =
      Inr (if dport = port then fold take_text (map (text_of \<circ> snd) ps) s else s, evs)"
proof (induction ps arbitrary: s)
  case (Cons ep ps)
  obtain e p where ep: "ep = (e, p)" by fastforce
  show ?case
  proof (cases "dport = port")
    case True
    with Cons.prems obtain str where "c_string (pk_data p) = Some str"
      by (auto simp: ep printable_c_string)
    with Cons.IH [of "take_text str s"] Cons.prems True show ?thesis by (auto simp: ep on_port)
  next
    case False
    with Cons.IH [of s] Cons.prems show ?thesis by (auto simp: ep off_port)
  qed
qed simp

text \<open>The server prints the text of every packet of its port in the order of their arrival.\<close>

lemma serve_texts:
  assumes "\<forall>p \<in> set (packets_to port conns). printable p"
  shows "\<exists>evs. serve dispatch conns s = Inr (fold take_text (map text_of (packets_to port conns)) s, evs)"
  using assms
proof (induction conns arbitrary: s)
  case (Cons c conns)
  have rest: "\<forall>p \<in> set (packets_to port conns). printable p"
    using Cons.prems by (auto simp: packets_to_def)
  show ?case
  proof (cases c)
    case None
    with Cons.IH [OF rest] show ?thesis by (simp add: packets_to_def)
  next
    case (Some dp)
    obtain dport ps where c: "c = Some (dport, ps)" using Some by (cases dp) auto
    have "\<forall>(e, p) \<in> set ps. dport = port \<longrightarrow> printable p"
      using Cons.prems by (force simp: c packets_to_def)
    from read_loop_texts [OF this, of s] obtain evs1 where
      r: "read_loop dispatch dport ps s =
        Inr (if dport = port then fold take_text (map (text_of \<circ> snd) ps) s else s, evs1)" by blast
    obtain evs2 where "serve dispatch conns (if dport = port then fold take_text (map (text_of \<circ> snd) ps) s else s) =
        Inr (fold take_text (map text_of (packets_to port conns))
              (if dport = port then fold take_text (map (text_of \<circ> snd) ps) s else s), evs2)"
      using Cons.IH [OF rest] by blast
    with r show ?thesis by (simp add: c packets_to_def comp_def)
  qed
qed (simp add: packets_to_def)

text \<open>Nothing is lost by restricting the contract to packets that can be printed.\<close>

lemma printing_same: "dport = port \<longrightarrow> printable p \<Longrightarrow> printing dispatch e dport p s = dispatch e dport p s"
  by (auto simp: printing_def off_port)

end

sublocale text_server \<subseteq> tidy: tidy_server "printing dispatch" "\<lambda>_. True"
proof unfold_locales
  fix e dport p s s' evs
  assume "printing dispatch e dport p s = Inr (s', evs)"
  then have "evs = [Ev_free (pk_ptr p)] \<or> evs = [Ev_service p]"
    using on_port [of e p s] off_port [of dport e p s]
    by (cases "dport = port") (auto simp: printing_def printable_c_string split: if_splits option.splits)
  then show "Events.linear (pk_ptr p) evs" "acquired evs = {} \<and> (\<exists>kept. own_run {pk_ptr p} evs = Some kept \<and> {} \<subseteq> {} \<union> kept)"
    by (auto simp: Events.linear_def)
next
  fix e dport p s
  show "safe (printing dispatch e dport p s)"
    using on_port [of e p s] off_port [of dport e p s]
    by (cases "dport = port") (auto simp: printing_def printable_c_string safe_def)
qed simp_all

interpretation sample: text_server sample_dispatch SERVER_PORT "\<lambda>str texts. texts @ [str]"
  by unfold_locales (auto simp: sample_dispatch_def split: option.split)

interpretation my: text_server my_dispatch MY_SERVER_PORT
  "\<lambda>str s. s\<lparr>ms_log := ms_log s @ [str], ms_received := ms_received s + 1\<rparr>"
  by unfold_locales (auto simp: my_dispatch_def split: option.split)

lemma fold_texts: "fold (\<lambda>str texts. texts @ [str]) strs texts = texts @ strs"
  by (induction strs arbitrary: texts) simp_all

lemma fold_my:
  "fold (\<lambda>str s. s\<lparr>ms_log := ms_log s @ [str], ms_received := ms_received s + 1\<rparr>) strs s =
    s\<lparr>ms_log := ms_log s @ strs, ms_received := ms_received s + of_nat (length strs)\<rparr>"
  by (induction strs arbitrary: s) simp_all

lemma sample_server_prints:
  assumes "\<forall>p \<in> set (packets_to SERVER_PORT conns). printable p"
  shows "\<exists>evs. sample_server_task conns = Inr (map text_of (packets_to SERVER_PORT conns), evs)"
  using sample.serve_texts [OF assms, of "[]"] by (simp add: sample_server_task_def sample_server_def fold_texts)

text \<open>When every packet of its port can be printed, libcsp's sample server serves every connection
  without leaving a buffer, prints the text of every packet of its port in the order of their
  arrival, counts them modulo 2 to the 32, and gives every buffer back.\<close>

theorem my_server_serves:
  assumes "\<forall>p \<in> conn_packets conns. wf_packet p \<and> pk_ptr p \<notin> own"
    and "\<forall>p \<in> set (packets_to MY_SERVER_PORT conns). printable p"
  shows "\<exists>s' evs. my_server_task conns s = Inr (s', evs) \<and> own_run own evs = Some own
    \<and> ms_log s' = ms_log s @ map text_of (packets_to MY_SERVER_PORT conns)
    \<and> ms_received s' = ms_received s + of_nat (length (packets_to MY_SERVER_PORT conns))"
proof -
  have "serve (printing my_dispatch) conns s = serve my_dispatch conns s"
    using assms(2) by (intro serve_cong my.printing_same) (force simp: packets_to_def)
  with my.tidy.serve_returns [OF TrueI assms(1), of s] my.serve_texts [OF assms(2), of s] show ?thesis
    by (auto simp: my_server_task_def fold_my)
qed

lemma my_server_serves_witness:
  "\<exists>s' evs. my_server_task [Some (10, [((), mk_packet 1 [72, 105])]), Some (1, [((), mk_packet 1 [])])]
      \<lparr>ms_log = [], ms_received = 0\<rparr> = Inr (s', evs) \<and> ms_log s' = [[72, 105]] \<and> ms_received s' = 1"
proof -
  let ?conns = "[Some (10, [((), mk_packet 1 [72, 105])]), Some (1, [((), mk_packet 1 [])])]"
  have "printable (mk_packet 1 [72, 105])" by code_simp
  moreover have "\<forall>p \<in> conn_packets ?conns. wf_packet p \<and> pk_ptr p \<notin> {}"
    by (auto simp: conn_packets_def wf_mk_packet)
  moreover have "text_of (mk_packet 1 [72, 105]) = [72, 105]" by code_simp
  ultimately show ?thesis
    using my_server_serves [of ?conns "{}" "\<lparr>ms_log = [], ms_received = 0\<rparr>"]
    by (auto simp: packets_to_def)
qed

section \<open>The senders\<close>

text \<open>The buffers of the rounds before the first one that fails: no connection, or no buffer.\<close>

fun buffers :: "(bool \<times> csp_packet option) list \<Rightarrow> csp_packet list" where
  "buffers [] = []"
| "buffers ((conn, buf) # rounds) =
     (if conn then (case buf of None \<Rightarrow> [] | Some b \<Rightarrow> b # buffers rounds) else [])"

definition wf_rounds :: "(bool \<times> csp_packet option) list \<Rightarrow> bool" where
  "wf_rounds rounds \<longleftrightarrow> (\<forall>(conn, buf) \<in> set rounds. case buf of None \<Rightarrow> True | Some b \<Rightarrow> wf_packet b)"

abbreviation hello_world :: bytes where
  "hello_world \<equiv> str_bytes ''Hello World''"

lemma csp_send_round_sends:
  assumes "wf_packet buf"
  obtains q where "csp_send_round dbg True (Some buf) = Inr (None,
      [Ev_connect CSP_DST_ADDR SEND_SERVER_PORT, Ev_get (pk_ptr buf), Ev_send q, Ev_conn_close]
        @ (if dbg then [Ev_show (pk_ptr buf)] else []) @ [Ev_sleep 1])"
    "pk_ptr q = pk_ptr buf" "payload q = hello_world @ [0]"
proof -
  let ?q = "(put_data buf (hello_world @ [0]))\<lparr>pk_length := 12\<rparr>"
  have "0 \<notin> set hello_world" by code_simp
  then have "c_string (pk_data (put_data buf (hello_world @ [0]))) = Some hello_world"
    by (simp add: c_string_append)
  then have "csp_send_round dbg True (Some buf) = Inr (None,
      [Ev_connect CSP_DST_ADDR SEND_SERVER_PORT, Ev_get (pk_ptr buf), Ev_send ?q, Ev_conn_close]
        @ (if dbg then [Ev_show (pk_ptr buf)] else []) @ [Ev_sleep 1])"
    by (simp add: csp_send_round_def strlen_def Let_def)
  then show thesis by (rule that) (simp_all add: payload_def)
qed

lemma csp_send_loop_sends:
  assumes "wf_rounds rounds"
  shows "\<exists>evs. csp_send_loop dbg rounds =
      Inr (if length (buffers rounds) = length rounds then None else Some 1, evs)
    \<and> map payload (sent evs) = replicate (length (buffers rounds)) (hello_world @ [0])
    \<and> own_run {} evs = (if dbg \<and> buffers rounds \<noteq> [] then None else Some {})"
  using assms
proof (induction rounds)
  case (Cons r rounds)
  obtain conn buf where r: "r = (conn, buf)" by fastforce
  show ?case
  proof (cases "conn \<and> buf \<noteq> None")
    case False
    then show ?thesis by (cases buf) (auto simp: r csp_send_round_def)
  next
    case True
    then obtain b where b: "conn" "buf = Some b" by auto
    with Cons.prems have "wf_packet b" "wf_rounds rounds" by (auto simp: r wf_rounds_def)
    from csp_send_round_sends [OF this(1), of dbg] obtain q where
      q: "csp_send_round dbg True (Some b) = Inr (None,
          [Ev_connect CSP_DST_ADDR SEND_SERVER_PORT, Ev_get (pk_ptr b), Ev_send q, Ev_conn_close]
            @ (if dbg then [Ev_show (pk_ptr b)] else []) @ [Ev_sleep 1])"
        "pk_ptr q = pk_ptr b" "payload q = hello_world @ [0]" .
    from Cons.IH [OF \<open>wf_rounds rounds\<close>] q show ?thesis by (auto simp: r b)
  qed
qed simp

text \<open>What libcsp's sample client sends for a value of its counter.\<close>

definition client_text :: "u32 \<Rightarrow> bytes" where
  "client_text count =
     str_bytes ''Hello world '' @ (if ucast count = (0 :: u8) then [] else [ucast count])"

lemma client_text_nul: "0 \<notin> set (client_text count)"
proof -
  have "0 \<notin> set (str_bytes ''Hello world '')" by code_simp
  then show ?thesis by (auto simp: client_text_def)
qed

text \<open>Each round of the client pings the server, asks it to reboot and sends a message:
  the text with the low byte of the counter behind it, one byte shorter when that byte is zero,
  because its length is taken with \<open>strlen\<close>; the buffer goes to libcsp, the connection
  is closed and the counter moves on.\<close>

theorem client_message:
  assumes "wf_packet buf"
  shows "\<exists>q. client_round tm addr True (Some buf) count =
      Inr (True, count + 1, [Ev_usleep (if tm then 200000 else 1000000), Ev_ping addr, Ev_reboot addr,
        Ev_connect (unat addr) MY_SERVER_PORT, Ev_get (pk_ptr buf), Ev_send q, Ev_conn_close])
    \<and> pk_ptr q = pk_ptr buf \<and> payload q = client_text count @ [0]"
proof -
  let ?p = "put_data buf (str_bytes ''Hello world '' @ [ucast count] @ [0])"
  let ?q = "?p\<lparr>pk_length := of_nat (length (client_text count) + 1)\<rparr>"
  have "\<exists>post. pk_data ?p = client_text count @ 0 # post"
    by (cases "ucast count = (0 :: u8)") (auto simp: client_text_def)
  with client_text_nul have "c_string (pk_data ?p) = Some (client_text count)" by (metis c_string_append)
  then have "client_round tm addr True (Some buf) count = Inr (True, count + 1,
      [Ev_usleep (if tm then 200000 else 1000000), Ev_ping addr, Ev_reboot addr,
       Ev_connect (unat addr) MY_SERVER_PORT, Ev_get (pk_ptr buf), Ev_send ?q, Ev_conn_close])"
    by (simp add: client_round_def strlen_def Let_def)
  moreover have "payload ?q = client_text count @ [0]"
    by (cases "ucast count = (0 :: u8)") (simp_all add: payload_def client_text_def)
  ultimately show ?thesis by (intro exI [of _ ?q]) simp
qed

lemma client_message_witness:
  "\<exists>q. client_round True 7 True (Some (mk_packet 1 [])) 256 =
      Inr (True, 257, [Ev_usleep 200000, Ev_ping 7, Ev_reboot 7, Ev_connect 7 10, Ev_get 1, Ev_send q, Ev_conn_close])
    \<and> payload q = str_bytes ''Hello world '' @ [0]"
proof -
  have z: "client_text 256 = str_bytes ''Hello world ''" by code_simp
  from client_message [OF wf_mk_packet, of "[]" True 7 1 256] show ?thesis unfolding z by auto
qed

lemma client_loop_sends:
  assumes "wf_rounds rounds"
  shows "\<exists>evs. client_loop tm addr rounds count = Inr (count + of_nat (length (buffers rounds)), evs)
    \<and> map payload (sent evs) = map (\<lambda>k. client_text (count + of_nat k) @ [0]) [0..<length (buffers rounds)]
    \<and> own_run {} evs = Some {}"
  using assms
proof (induction rounds arbitrary: count)
  case (Cons r rounds)
  obtain conn buf where r: "r = (conn, buf)" by fastforce
  show ?case
  proof (cases "conn \<and> buf \<noteq> None")
    case False
    then show ?thesis by (cases buf) (auto simp: r client_round_def Let_def)
  next
    case True
    then obtain b where b: "conn" "buf = Some b" by auto
    with Cons.prems have "wf_packet b" "wf_rounds rounds" by (auto simp: r wf_rounds_def)
    from client_message [OF this(1), of tm addr count] obtain q where
      q: "client_round tm addr True (Some b) count = Inr (True, count + 1,
          [Ev_usleep (if tm then 200000 else 1000000), Ev_ping addr, Ev_reboot addr,
           Ev_connect (unat addr) MY_SERVER_PORT, Ev_get (pk_ptr b), Ev_send q, Ev_conn_close])"
        "pk_ptr q = pk_ptr b" "payload q = client_text count @ [0]" by blast
    let ?n = "length (buffers rounds)"
    from Cons.IH [OF \<open>wf_rounds rounds\<close>, of "count + 1"] obtain evs where
      evs: "client_loop tm addr rounds (count + 1) = Inr (count + 1 + of_nat ?n, evs)"
        "map payload (sent evs) = map (\<lambda>k. client_text (count + 1 + of_nat k) @ [0]) [0..<?n]"
        "own_run {} evs = Some {}" by blast
    have "map (\<lambda>k. client_text (count + of_nat k) @ [0]) [0..<Suc ?n] =
        (client_text count @ [0]) # map (\<lambda>k. client_text (count + 1 + of_nat k) @ [0]) [0..<?n]"
      by (subst upt_conv_Cons) (simp_all add: map_Suc_upt [symmetric] comp_def add.assoc del: upt_Suc)
    with evs q show ?thesis by (simp add: r b add.assoc del: upt_Suc)
  qed
qed simp

text \<open>A client that gets no buffer ends without closing the connection it has just made; in every other
  case every connection is closed.\<close>

fun out_of_buffers :: "(bool \<times> csp_packet option) list \<Rightarrow> bool" where
  "out_of_buffers [] \<longleftrightarrow> False"
| "out_of_buffers ((conn, buf) # rounds) \<longleftrightarrow>
     conn \<and> (case buf of None \<Rightarrow> True | Some b \<Rightarrow> out_of_buffers rounds)"

fun left_open :: "event list \<Rightarrow> int" where
  "left_open [] = 0"
| "left_open (Ev_connect addr port # es) = left_open es + 1"
| "left_open (Ev_conn_close # es) = left_open es - 1"
| "left_open (_ # es) = left_open es"

lemma left_open_append: "left_open (xs @ ys) = left_open xs + left_open ys"
  by (induction xs rule: left_open.induct) simp_all

lemma client_connections:
  "client_loop tm addr rounds count = Inr (count', evs) \<Longrightarrow>
    left_open evs = (if out_of_buffers rounds then 1 else 0)"
proof (induction rounds arbitrary: count evs)
  case (Cons r rounds)
  obtain conn buf where r: "r = (conn, buf)" by fastforce
  show ?case
  proof (cases "conn \<and> buf \<noteq> None")
    case False
    with Cons.prems show ?thesis by (cases buf) (auto simp: r client_round_def Let_def)
  next
    case True
    with Cons.prems obtain evs2 count1 where
      "client_loop tm addr rounds count1 = Inr (count', evs2)" "left_open evs = left_open evs2"
      by (auto simp: r client_round_def Let_def strlen_def split: sum.splits option.splits)
    with Cons.IH True show ?thesis by (auto simp: r)
  qed
qed simp

section \<open>From a sender to a server\<close>

text \<open>What libcsp promises of the messages sent to a port: the connections deliver packets
  with their payloads, in their order. Buffers, and the bytes behind the payload, are its own.\<close>

definition delivers :: "nat \<Rightarrow> 'e conn list \<Rightarrow> csp_packet list \<Rightarrow> bool" where
  "delivers port conns qs \<longleftrightarrow>
     (\<forall>p \<in> conn_packets conns. wf_packet p) \<and> map payload (packets_to port conns) = map payload qs"

lemma payload_text:
  assumes "payload p = str @ [0]" "0 \<notin> set str"
  shows "c_string (pk_data p) = Some str"
proof -
  have "pk_data p = str @ 0 # drop (unat (pk_length p)) (pk_data p)"
    using assms(1) unfolding payload_def
    by (metis append.assoc append_Cons append_Nil append_take_drop_id)
  then show ?thesis using c_string_append [OF assms(2)] by metis
qed

text \<open>Messages that end in their first NUL arrive as they were sent.\<close>

lemma delivered_texts:
  assumes "delivers port conns qs" "map payload qs = map (\<lambda>str. str @ [0]) strs" "\<forall>str \<in> set strs. 0 \<notin> set str"
  shows "(\<forall>p \<in> set (packets_to port conns). printable p) \<and> map text_of (packets_to port conns) = strs"
proof -
  have "map payload (packets_to port conns) = map (\<lambda>str. str @ [0]) strs"
    using assms(1,2) by (simp add: delivers_def)
  then have "list_all2 (\<lambda>p str. payload p = str @ [0]) (packets_to port conns) strs"
    by (simp add: list_all2_conv_all_nth list_eq_iff_nth_eq)
  then show ?thesis using assms(3)
    by (induction rule: list_all2_induct) (auto simp: payload_text printable_c_string)
qed

lemma delivered_wf: "delivers port conns qs \<Longrightarrow> \<forall>p \<in> conn_packets conns. wf_packet p \<and> pk_ptr p \<notin> {}"
  by (simp add: delivers_def)

text \<open>C38: What the Pico's sender sends, the servers print. Whatever the outcome of its calls, the
  sender runs until the first round without connection or buffer, and exits then with 1; every
  round before it sent the twelve bytes of "Hello World" with its NUL. When libcsp delivers
  what was sent, in however many connections and among packets for other ports, the Pico's
  server prints "Hello World" once for each of these rounds, and so does libcsp's sample
  server, which counts them as well. The sender gives every buffer to libcsp - but with
  debug messages it prints the packet after it has been sent: it reads a buffer that is no
  longer its own.\<close>

theorem hello_world_arrives:
  assumes "wf_rounds rounds"
  shows "\<exists>evs. csp_send_loop dbg rounds =
      Inr (if length (buffers rounds) = length rounds then None else Some 1, evs)
    \<and> map payload (sent evs) = replicate (length (buffers rounds)) (hello_world @ [0])
    \<and> own_run {} evs = (if dbg \<and> buffers rounds \<noteq> [] then None else Some {})
    \<and> (\<forall>conns. delivers SEND_SERVER_PORT conns (sent evs) \<longrightarrow>
        (\<exists>evs'. sample_server_task conns = Inr (replicate (length (buffers rounds)) hello_world, evs'))
      \<and> (\<exists>s evs'. my_server_task conns \<lparr>ms_log = [], ms_received = 0\<rparr> = Inr (s, evs')
          \<and> ms_log s = replicate (length (buffers rounds)) hello_world
          \<and> ms_received s = of_nat (length (buffers rounds))))"
proof -
  let ?n = "length (buffers rounds)"
  have nul: "\<forall>str \<in> set (replicate ?n hello_world). 0 \<notin> set str" by simp code_simp
  from csp_send_loop_sends [OF assms, of dbg] obtain evs where
    evs: "csp_send_loop dbg rounds = Inr (if ?n = length rounds then None else Some 1, evs)"
      "map payload (sent evs) = map (\<lambda>str. str @ [0]) (replicate ?n hello_world)"
      "own_run {} evs = (if dbg \<and> buffers rounds \<noteq> [] then None else Some {})" by auto
  have "(\<exists>evs'. sample_server_task conns = Inr (replicate ?n hello_world, evs'))
      \<and> (\<exists>s evs'. my_server_task conns \<lparr>ms_log = [], ms_received = 0\<rparr> = Inr (s, evs')
          \<and> ms_log s = replicate ?n hello_world \<and> ms_received s = of_nat ?n)"
    if d: "delivers SEND_SERVER_PORT conns (sent evs)" for conns :: "unit conn list"
  proof -
    note texts = delivered_texts [OF d evs(2) nul]
    then have len: "length (packets_to SEND_SERVER_PORT conns) = ?n" by (metis length_map length_replicate)
    from sample_server_prints [of conns] texts
    have "\<exists>evs'. sample_server_task conns = Inr (replicate ?n hello_world, evs')" by metis
    moreover from my_server_serves [of conns "{}" "\<lparr>ms_log = [], ms_received = 0\<rparr>"] texts delivered_wf [OF d] len
    have "\<exists>s evs'. my_server_task conns \<lparr>ms_log = [], ms_received = 0\<rparr> = Inr (s, evs')
        \<and> ms_log s = replicate ?n hello_world \<and> ms_received s = of_nat ?n" by fastforce
    ultimately show ?thesis by blast
  qed
  with evs show ?thesis by auto
qed

lemma hello_world_arrives_witness:
  "\<exists>evs. csp_send_loop False [(True, Some (mk_packet 1 [])), (True, Some (mk_packet 2 [])), (True, None)] = Inr (Some 1, evs)
    \<and> own_run {} evs = Some {}
    \<and> (\<exists>evs'. sample_server_task [Some (10, [((), mk_packet 4 (hello_world @ [0]))]), Some (1, [((), mk_packet 3 [])]),
        Some (10, [((), mk_packet 5 (hello_world @ [0]))])] = Inr ([hello_world, hello_world], evs'))"
proof -
  let ?rounds = "[(True, Some (mk_packet 1 [])), (True, Some (mk_packet 2 [])), (True, None)]"
  let ?conns = "[Some (10, [((), mk_packet 4 (hello_world @ [0]))]), Some (1, [((), mk_packet 3 [])]),
    Some (10, [((), mk_packet 5 (hello_world @ [0]))])]"
  have "wf_rounds ?rounds" by (simp add: wf_rounds_def wf_mk_packet)
  from hello_world_arrives [OF this, of False] obtain evs where
    evs: "csp_send_loop False ?rounds = Inr (Some 1, evs)"
      "map payload (sent evs) = [hello_world @ [0], hello_world @ [0]]" "own_run {} evs = Some {}"
      "\<And>conns. delivers SEND_SERVER_PORT conns (sent evs) \<Longrightarrow>
        \<exists>evs'. sample_server_task conns = Inr ([hello_world, hello_world], evs')" by (auto simp: numeral_2_eq_2)
  have "delivers SEND_SERVER_PORT ?conns (sent evs)"
    by (auto simp: delivers_def evs(2) conn_packets_def packets_to_def wf_mk_packet payload_mk_packet)
  with evs show ?thesis by blast
qed

text \<open>C36: The loopback test of libcsp's sample program. Started without interfaces the program is
  server and client at once. Its client sends, until a round has no connection or no buffer,
  "Hello world" with the letters from A on, gives every buffer to libcsp, and closes every
  connection, but for the last one when it ends for want of a buffer. When the waiting
  loop of the main thread looks, and libcsp has delivered the first \<open>m\<close> of these messages, then
  the server has printed exactly these messages, in their order, and in test mode the program
  exits with 0 if they are five or more and with 1 otherwise.\<close>

theorem loopback_test:
  assumes "wf_rounds rounds" "m \<le> length (buffers rounds)" "m < 2 ^ 32"
  shows "\<exists>count evs. posix_task_client True addr rounds = Inr (count, evs) \<and> own_run {} evs = Some {}
    \<and> left_open evs = (if out_of_buffers rounds then 1 else 0)
    \<and> map payload (sent evs) = map (\<lambda>k. client_text (of_char (CHR ''A'') + of_nat k) @ [0]) [0..<length (buffers rounds)]
    \<and> (\<forall>conns. delivers MY_SERVER_PORT conns (take m (sent evs)) \<longrightarrow>
        (\<exists>s evs'. posix_task_server conns \<lparr>ms_log = [], ms_received = 0\<rparr> = Inr (s, evs')
          \<and> ms_log s = map (\<lambda>k. client_text (of_char (CHR ''A'') + of_nat k)) [0..<m]
          \<and> wait_round True (ms_received s) = Some (if m < 5 then 1 else 0)))"
proof -
  let ?A = "of_char (CHR ''A'') :: u32" and ?strs = "map (\<lambda>k. client_text (of_char (CHR ''A'') + of_nat k)) [0..<m]"
  from client_loop_sends [OF assms(1), of True addr ?A] obtain evs where
    evs: "posix_task_client True addr rounds = Inr (?A + of_nat (length (buffers rounds)), evs)"
      "map payload (sent evs) = map (\<lambda>k. client_text (?A + of_nat k) @ [0]) [0..<length (buffers rounds)]"
      "own_run {} evs = Some {}"
    unfolding posix_task_client_def client_def by blast
  have sent: "map payload (take m (sent evs)) = map (\<lambda>str. str @ [0]) ?strs"
    using assms(2) by (simp add: take_map [symmetric] evs(2)) (simp add: take_map)
  have "\<exists>s evs'. posix_task_server conns \<lparr>ms_log = [], ms_received = 0\<rparr> = Inr (s, evs')
      \<and> ms_log s = ?strs \<and> wait_round True (ms_received s) = Some (if m < 5 then 1 else 0)"
    if d: "delivers MY_SERVER_PORT conns (take m (sent evs))" for conns :: "unit conn list"
  proof -
    have "\<forall>str \<in> set ?strs. 0 \<notin> set str" using client_text_nul by auto
    note texts = delivered_texts [OF d sent this]
    then have len: "length (packets_to MY_SERVER_PORT conns) = m" by (metis length_map length_upt minus_nat.diff_0)
    from my_server_serves [of conns "{}" "\<lparr>ms_log = [], ms_received = 0\<rparr>"] texts delivered_wf [OF d] len
    obtain s evs' where s: "my_server_task conns \<lparr>ms_log = [], ms_received = 0\<rparr> = Inr (s, evs')"
      "ms_log s = ?strs" "ms_received s = of_nat m" by auto
    have "ms_received s < 5 \<longleftrightarrow> m < 5"
      using assms(3) by (simp add: s(3) word_less_nat_alt unat_of_nat)
    with s show ?thesis by (auto simp: posix_task_server_def wait_round_def)
  qed
  moreover have "left_open evs = (if out_of_buffers rounds then 1 else 0)"
    using evs(1) client_connections unfolding posix_task_client_def client_def by blast
  ultimately show ?thesis using evs by blast
qed

lemma loopback_test_witness:
  "\<exists>count evs s evs'. posix_task_client True 0 [(True, Some (mk_packet 1 [])), (False, None)] = Inr (count, evs)
    \<and> own_run {} evs = Some {}
    \<and> posix_task_server [Some (10, [((), mk_packet 5 (str_bytes ''Hello world A'' @ [0]))])]
        \<lparr>ms_log = [], ms_received = 0\<rparr> = Inr (s, evs')
    \<and> ms_log s = [str_bytes ''Hello world A''] \<and> wait_round True (ms_received s) = Some 1"
proof -
  let ?rounds = "[(True, Some (mk_packet 1 [])), (False, None)]"
  let ?conns = "[Some (10, [((), mk_packet 5 (str_bytes ''Hello world A'' @ [0]))])]"
  have A: "client_text 65 = str_bytes ''Hello world A''" by code_simp
  have "wf_rounds ?rounds" by (simp add: wf_rounds_def wf_mk_packet)
  from loopback_test [OF this, of 1 0] obtain count evs where
    evs: "posix_task_client True 0 ?rounds = Inr (count, evs)" "own_run {} evs = Some {}"
      "map payload (sent evs) = [client_text 65 @ [0]]"
      "\<And>conns. delivers MY_SERVER_PORT conns (take 1 (sent evs)) \<Longrightarrow>
        \<exists>s evs'. posix_task_server conns \<lparr>ms_log = [], ms_received = 0\<rparr> = Inr (s, evs')
          \<and> ms_log s = [client_text 65] \<and> wait_round True (ms_received s) = Some 1"
    by auto
  have "map payload (take 1 (sent evs)) = [str_bytes ''Hello world A'' @ [0]]"
    by (simp add: take_map [symmetric] evs(3) A)
  then have "delivers MY_SERVER_PORT ?conns (take 1 (sent evs))"
    by (auto simp: delivers_def conn_packets_def packets_to_def wf_mk_packet payload_mk_packet)
  from evs(4) [OF this] evs(1,2) show ?thesis unfolding A by blast
qed

section \<open>What the programs start\<close>

text \<open>The tasks the options ask for, and the running ones.\<close>

definition roles :: "started \<Rightarrow> posix_task list" where
  "roles st = Task_router # (if sd_default st = None then [Task_server, Task_client]
     else if sd_server_address st = 255 then [Task_server] else [Task_client])"

definition created :: "(posix_task \<Rightarrow> int \<times> int) \<Rightarrow> posix_task \<Rightarrow> posix_task list" where
  "created env t = (if env t = (0, 0) then [t] else [])"

lemma posix_starts:
  "snd (posix_router_start env ts) = ts @ created env Task_router"
  "snd (posix_server_start env ts) = ts @ created env Task_server"
  "snd (posix_client_start env ts) = ts @ created env Task_client"
  by (cases "env Task_router"; cases "env Task_server"; cases "env Task_client";
    simp add: posix_router_start_def posix_server_start_def posix_client_start_def
      csp_pthread_create_def created_def)+

lemma created_roles:
  "filter (\<lambda>t. env t = (0, 0)) (roles st) = created env Task_router
    @ (if sd_server_address st = 255 \<or> sd_default st = None then created env Task_server else [])
    @ (if sd_server_address st \<noteq> 255 \<or> sd_default st = None then created env Task_client else [])"
  by (simp add: roles_def created_def)

lemma server_client_main_result:
  "(case server_client_main cfg env argv res of
      Inl (code, msg) \<Rightarrow> code = 1
        \<or> parse_options cfg (getopt ''a:r:c:k:z:tR:h'' argv) default_options = Inl (code, msg)
    | Inr st \<Rightarrow> sd_tasks st = filter (\<lambda>t. env t = (0, 0)) (roles st))"
proof (cases "parse_options cfg (getopt ''a:r:c:k:z:tR:h'' argv) default_options")
  case (Inl e)
  then show ?thesis by (cases e) (simp add: server_client_main_def)
next
  case (Inr ops)
  show ?thesis
    unfolding server_client_main_def Inr sum.case created_roles Let_def
    by (cases "op_kiss ops"; cases "op_can ops"; cases "op_zmq ops"; cases "op_rtable ops")
      (simp_all add: posix_starts)
qed

lemma started_tasks:
  assumes "server_client_main cfg env argv res = Inr st"
  shows "sd_tasks st = filter (\<lambda>t. env t = (0, 0)) (roles st)"
  using server_client_main_result [where cfg = cfg and env = env and argv = argv and res = res]
  by (simp add: assms)

text \<open>The sample program has the server and the client as tasks when it has no interface, with its
  own address as the server's; with an interface it is either the server (no server address,
  or 255, was given) or the client. A task whose thread cannot be created is missing, and
  nobody notices. It exits only with 0, after the usage text, or with 1.\<close>

theorem sample_program_roles:
  "(case server_client_main cfg env argv res of
      Inl (code, msg) \<Rightarrow> (code = 0 \<and> msg = Usage (print_usage cfg)) \<or> code = 1
    | Inr st \<Rightarrow> sd_tasks st = filter (\<lambda>t. env t = (0, 0)) (roles st))"
proof -
  have codes: "parse_options cfg args ops = Inl (code, msg) \<Longrightarrow> (code = 0 \<and> msg = Usage (print_usage cfg)) \<or> code = 1" for args ops code msg
    by (induction cfg args ops rule: parse_options.induct) (auto split: if_splits)
  then show ?thesis
    using server_client_main_result [where cfg = cfg and env = env and argv = argv and res = res]
    by (fastforce split: sum.splits prod.splits)
qed

lemma sample_program_example:
  "server_client_main \<lparr>have_socketcan = True, have_zmq = False, use_rtable = True\<rparr> (\<lambda>_. (0, 0))
     [''-k'', ''/dev/ttyS0'', ''-tr24''] \<lparr>cr_kiss = 0, cr_can = 0, cr_zmq = 0, cr_rtable = 1\<rparr>
   = Inr \<lparr>sd_default = Some Kiss, sd_default_route = True, sd_server_address = 24, sd_tasks = [Task_router, Task_client]\<rparr>"
  by code_simp

text \<open>With every thread created the roles are exactly those of the options.\<close>

lemma sample_program_all_created:
  assumes "\<forall>t. env t = (0, 0)" "server_client_main cfg env argv res = Inr st"
  shows "sd_tasks st = roles st"
  using started_tasks [OF assms(2)] assms(1) by simp

lemma all_created_example: "\<forall>t. (\<lambda>t :: posix_task. (0, 0)) t = (0 :: int, 0 :: int)"
  by code_simp

text \<open>The server sample serves exactly when its interface works; otherwise it exits with 1, its
  router already running.\<close>

lemma sample_server_start_up:
  assumes "nd_threads n = sample_threads"
  shows "(fst (sample_server_main error n) = None \<longleftrightarrow> error = CSP_ERR_NONE)
    \<and> runs Router_id (nd_threads (snd (sample_server_main error n)))
    \<and> (runs Server_id (nd_threads (snd (sample_server_main error n))) \<longleftrightarrow> error = CSP_ERR_NONE)
    \<and> (error = CSP_ERR_NONE \<longrightarrow> on_bus SAMPLE_UART CSP_SRC_ADDR (snd (sample_server_main error n)))"
  using assms
  by (auto simp: sample_server_main_def sample_router_start_def sample_server_start_def node_defs
      sample_threads_def Let_def runs_start) (auto simp: runs_def k_thread_start_def K_THREAD_DEFINE_def)

text \<open>C39: The samples of the Pico go on exactly when their serial interface can be added, and exit with 1
  otherwise. The server is then on the bus and its router and server threads run; without the
  interface its router runs already. The sender starts no thread. Both take the address 26: the
  node 24, to which the sender sends, is neither of them.\<close>

theorem samples_start_up:
  assumes "nd_threads n = sample_threads" "\<not> nd_default n" "\<not> nd_default n'"
  shows "(let (code, s) = sample_server_main error n in
      code = (if error = CSP_ERR_NONE then None else Some 1)
      \<and> runs Router_id (nd_threads s)
      \<and> (runs Server_id (nd_threads s) \<longleftrightarrow> error = CSP_ERR_NONE)
      \<and> (on_bus SAMPLE_UART CSP_SRC_ADDR s \<longleftrightarrow> error = CSP_ERR_NONE)
      \<and> \<not> on_bus SAMPLE_UART CSP_DST_ADDR s)
    \<and> (let (code, c) = csp_send_main error' n' in
      code = (if error' = CSP_ERR_NONE then None else Some 1)
      \<and> nd_threads c = nd_threads n'
      \<and> (on_bus SAMPLE_UART SEND_SRC_ADDR c \<longleftrightarrow> error' = CSP_ERR_NONE)
      \<and> \<not> on_bus SAMPLE_UART CSP_DST_ADDR c)"
proof
  note defs = sample_server_main_def sample_router_start_def sample_server_start_def csp_send_main_def node_defs Let_def
  show "let (code, s) = sample_server_main error n in
      code = (if error = CSP_ERR_NONE then None else Some 1)
      \<and> runs Router_id (nd_threads s)
      \<and> (runs Server_id (nd_threads s) \<longleftrightarrow> error = CSP_ERR_NONE)
      \<and> (on_bus SAMPLE_UART CSP_SRC_ADDR s \<longleftrightarrow> error = CSP_ERR_NONE)
      \<and> \<not> on_bus SAMPLE_UART CSP_DST_ADDR s"
    using sample_server_start_up [OF assms(1), of error] assms(2) by (auto simp: defs)
  show "let (code, c) = csp_send_main error' n' in
      code = (if error' = CSP_ERR_NONE then None else Some 1)
      \<and> nd_threads c = nd_threads n'
      \<and> (on_bus SAMPLE_UART SEND_SRC_ADDR c \<longleftrightarrow> error' = CSP_ERR_NONE)
      \<and> \<not> on_bus SAMPLE_UART CSP_DST_ADDR c"
    using assms(3) by (simp add: defs)
qed

lemma samples_start_up_witness:
  "let (code, s) = sample_server_main (- 1)
       \<lparr>nd_version = 2, nd_init = False, nd_threads = sample_threads, nd_kiss = None, nd_default = False\<rparr> in
     code = Some 1 \<and> runs Router_id (nd_threads s) \<and> \<not> runs Server_id (nd_threads s)"
  using samples_start_up [of "\<lparr>nd_version = 2, nd_init = False, nd_threads = sample_threads, nd_kiss = None, nd_default = False\<rparr>"
      "\<lparr>nd_version = 2, nd_init = False, nd_threads = Map.empty, nd_kiss = None, nd_default = False\<rparr>" "- 1" 0]
  by (auto simp: Let_def)

end
