(* ===== verification/CommandLine.thy ===== *)
theory CommandLine
  imports CspProps Decimal
begin

text \<open>
  The command line of libcsp's server and client program: the settings a user can ask for, the
  words that express them, and that \<open>main\<close> reads the settings back from the words and starts
  what they ask for. Read forwards it is a round trip of \<open>getopt\<close>, \<open>atoi\<close> and the option loop.
\<close>

section \<open>Settings and their words\<close>

datatype setting =
    Own_address u32 | Server_address u32
  | Can_device string | Kiss_device string | Zmq_device string | Routes string
  | Test_mode | Help

definition dec_int :: "int \<Rightarrow> string" where
  "dec_int n = (if n < 0 then CHR ''-'' # dec (nat (- n)) else dec (nat n))"

text \<open>The option letter and the argument; addresses are numbers that an \<open>int\<close> holds.\<close>

fun opt_of :: "setting \<Rightarrow> char \<times> string" where
  "opt_of (Own_address n) = (CHR ''a'', dec_int (sint n))"
| "opt_of (Server_address n) = (CHR ''r'', dec_int (sint n))"
| "opt_of (Can_device dev) = (CHR ''c'', dev)"
| "opt_of (Kiss_device dev) = (CHR ''k'', dev)"
| "opt_of (Zmq_device dev) = (CHR ''z'', dev)"
| "opt_of (Routes table) = (CHR ''R'', table)"
| "opt_of Test_mode = (CHR ''t'', [])"
| "opt_of Help = (CHR ''h'', [])"

abbreviation flag :: "setting \<Rightarrow> bool" where
  "flag s \<equiv> s = Test_mode \<or> s = Help"

text \<open>The argument is a word of its own, or glued to the letter; an empty one cannot be glued.\<close>

definition words_of :: "bool \<Rightarrow> setting \<Rightarrow> string list" where
  "words_of glued s =
     (if flag s then [[CHR ''-'', fst (opt_of s)]]
      else if glued \<and> snd (opt_of s) \<noteq> [] then [CHR ''-'' # fst (opt_of s) # snd (opt_of s)]
      else [[CHR ''-'', fst (opt_of s)], snd (opt_of s)])"

definition command_line :: "(bool \<times> setting) list \<Rightarrow> string list" where
  "command_line ss = concat (map (\<lambda>(glued, s). words_of glued s) ss)"

section \<open>What the settings ask for\<close>

text \<open>Later settings replace earlier ones; numbers are cut to a byte.\<close>

fun set_option :: "setting \<Rightarrow> options \<Rightarrow> options" where
  "set_option (Own_address n) ops = ops\<lparr>op_address := scast n\<rparr>"
| "set_option (Server_address n) ops = ops\<lparr>op_server_address := scast n\<rparr>"
| "set_option (Can_device dev) ops = ops\<lparr>op_can := Some dev\<rparr>"
| "set_option (Kiss_device dev) ops = ops\<lparr>op_kiss := Some dev\<rparr>"
| "set_option (Zmq_device dev) ops = ops\<lparr>op_zmq := Some dev\<rparr>"
| "set_option (Routes table) ops = ops\<lparr>op_rtable := Some table\<rparr>"
| "set_option Test_mode ops = ops\<lparr>op_test_mode := True\<rparr>"
| "set_option Help ops = ops"

text \<open>What the program has been built for.\<close>

fun built_in :: "build_cfg \<Rightarrow> setting \<Rightarrow> bool" where
  "built_in cfg (Can_device dev) = have_socketcan cfg"
| "built_in cfg (Zmq_device dev) = have_zmq cfg"
| "built_in cfg (Routes table) = use_rtable cfg"
| "built_in cfg s = True"

fun asked :: "build_cfg \<Rightarrow> setting list \<Rightarrow> options \<Rightarrow> (int \<times> exit_msg) + options" where
  "asked cfg [] ops = Inr ops"
| "asked cfg (s # ss) ops =
     (if s = Help then Inl (0, Usage (print_usage cfg))
      else if built_in cfg s then asked cfg ss (set_option s ops)
      else Inl (1, Usage (print_usage cfg)))"

section \<open>Reading the words back\<close>

lemma digits_value_append:
  "set s \<subseteq> set digits \<Longrightarrow> digits_value acc (s @ t) = digits_value (digits_value acc s) t"
  by (induction s arbitrary: acc) (simp_all del: list.set add: list.set(2))

lemma digits_value_digit:
  assumes "n < 10"
  shows "digits_value acc [char_of (48 + n)] = acc * 10 + int n"
proof -
  have "digits ! n \<in> set digits" by (rule nth_mem) (use assms in simp)
  moreover have "\<forall>n \<in> set [0..<10]. of_char (digits ! n) = 48 + int n" by code_simp
  then have "of_char (digits ! n) = 48 + int n" using assms by simp
  ultimately show ?thesis unfolding char_of_digit [OF assms] by (simp del: list.set)
qed

lemma digits_value_dec: "digits_value 0 (dec n) = int n"
proof (induction n rule: dec.induct)
  case (1 n)
  show ?case
  proof (cases "n < 10")
    case True
    then show ?thesis using digits_value_digit [OF True, of 0] by (simp only: dec.simps [of n] if_True)
  next
    case False
    with 1 have IH: "digits_value 0 (dec (n div 10)) = int (n div 10)" by simp
    have "n mod 10 < 10" by simp
    note last = digits_value_digit [OF this, of "int (n div 10)"]
    have "digits_value 0 (dec n) = int (n div 10) * 10 + int (n mod 10)"
      using False by (simp only: dec.simps [of n] if_False digits_value_append [OF dec_digits] IH last)
    also have "\<dots> = int n" by presburger
    finally show ?thesis .
  qed
qed

lemma atoi_dec_int: "atoi (dec_int n) = n"
proof -
  have dec: "atoi (dec m) = int m" for m
  proof (cases "dec m")
    case Nil
    then show ?thesis using dec_nonempty by simp
  next
    case (Cons c cs)
    with dec_digits [of m] have c: "c \<in> set digits" by (simp del: list.set(2) add: subset_iff list.set(2))
    have "\<forall>c \<in> set digits. of_char c \<notin> {32, 9, 10, 11, 12, 13 :: nat} \<and> c \<noteq> CHR ''-'' \<and> c \<noteq> CHR ''+''" by code_simp
    with c have "atoi (c # cs) = digits_value 0 (c # cs)" by (simp del: digits_value.simps list.set)
    with digits_value_dec [of m] show ?thesis by (simp only: Cons)
  qed
  show ?thesis
    using digits_value_dec [of "nat (- n)"] dec [of "nat n"] by (auto simp: dec_int_def)
qed

abbreviation (input) optstring :: string where "optstring \<equiv> ''a:r:c:k:z:tR:h''"

lemma getopt_words: "getopt optstring (words_of glued s @ ws) = opt_of s # getopt optstring ws"
  by (cases s) (auto simp: words_of_def neq_Nil_conv)

lemma getopt_command_line: "getopt optstring (command_line ss) = map (opt_of \<circ> snd) ss"
proof (induction ss)
  case (Cons gs ss)
  obtain g s where "gs = (g, s)" by fastforce
  with Cons getopt_words [of g s "command_line ss"] show ?case by (simp add: command_line_def del: getopt.simps)
qed (simp add: command_line_def)

lemma parse_settings:
  "parse_options cfg (map (opt_of \<circ> snd) ss) ops = asked cfg (map snd ss) ops"
proof (induction ss arbitrary: ops)
  case (Cons gs ss)
  then show ?case by (cases "snd gs") (simp_all add: atoi_dec_int)
qed simp

section \<open>What the program starts\<close>

text \<open>Whether the interfaces that were asked for come up and the routing table is loaded.\<close>

definition comes_up :: "options \<Rightarrow> csp_results \<Rightarrow> bool" where
  "comes_up ops res \<longleftrightarrow> (op_kiss ops \<noteq> None \<longrightarrow> cr_kiss res = CSP_ERR_NONE)
     \<and> (op_can ops \<noteq> None \<longrightarrow> cr_can res = CSP_ERR_NONE)
     \<and> (op_zmq ops \<noteq> None \<longrightarrow> cr_zmq res = CSP_ERR_NONE)
     \<and> (op_rtable ops \<noteq> None \<longrightarrow> 1 \<le> cr_rtable res)"

definition alone :: "options \<Rightarrow> bool" where
  "alone ops \<longleftrightarrow> op_kiss ops = None \<and> op_can ops = None \<and> op_zmq ops = None"

definition roles_asked :: "options \<Rightarrow> posix_task list" where
  "roles_asked ops = Task_router # (if alone ops then [Task_server, Task_client]
     else if op_server_address ops = 255 then [Task_server] else [Task_client])"

lemma main_after_options:
  assumes "parse_options cfg (getopt optstring argv) default_options = Inr ops"
  shows "if comes_up ops res
    then \<exists>st. server_client_main cfg env argv res = Inr st
      \<and> sd_tasks st = filter (\<lambda>t. env t = (0, 0)) (roles_asked ops)
      \<and> sd_server_address st = (if alone ops then op_address ops else op_server_address ops)
    else \<exists>msg. server_client_main cfg env argv res = Inl (1, msg)"
proof (cases "comes_up ops res")
  case True
  then obtain st where st: "server_client_main cfg env argv res = Inr st"
    and i: "sd_default st = None \<longleftrightarrow> alone ops"
      "sd_server_address st = (if alone ops then op_address ops else op_server_address ops)"
    unfolding server_client_main_def assms sum.case Let_def
    by (cases "op_kiss ops"; cases "op_can ops"; cases "op_zmq ops"; cases "op_rtable ops")
      (simp_all add: comes_up_def alone_def)
  from started_tasks [OF st] i have "sd_tasks st = filter (\<lambda>t. env t = (0, 0)) (roles_asked ops)"
    by (simp add: roles_def roles_asked_def)
  with st i True show ?thesis by simp
next
  case False
  then show ?thesis
    unfolding server_client_main_def assms sum.case Let_def
    by (cases "op_kiss ops"; cases "op_can ops"; cases "op_zmq ops"; cases "op_rtable ops")
      (auto simp: comes_up_def not_le)
qed

section \<open>Property\<close>

text \<open>C37: libcsp's sample program does what its command line asks for. Whatever settings are written
  down, in whatever order and number, with their arguments glued or as words of their own,
  \<open>getopt\<close>, \<open>atoi\<close> and the option loop read back exactly these settings, of which the later ones
  count: a request for help, or for something the program has not been built with, ends it with
  the usage text and 0 or 1. Otherwise it ends with 1 when an interface or the routing table
  fails, and else starts the router and, of those threads that can be created, the server and the
  client when it has no interface, with its own address as the server's, and with an interface
  the server when no server address (or 255) was given and the client when one was.\<close>

theorem command_line_obeyed:
  "parse_options cfg (getopt optstring (command_line ss)) default_options = asked cfg (map snd ss) default_options
   \<and> (case asked cfg (map snd ss) default_options of
        Inl (code, msg) \<Rightarrow> server_client_main cfg env (command_line ss) res = Inl (code, msg)
      | Inr ops \<Rightarrow>
          if comes_up ops res
          then \<exists>st. server_client_main cfg env (command_line ss) res = Inr st
            \<and> sd_tasks st = filter (\<lambda>t. env t = (0, 0)) (roles_asked ops)
            \<and> sd_server_address st = (if alone ops then op_address ops else op_server_address ops)
          else \<exists>msg. server_client_main cfg env (command_line ss) res = Inl (1, msg))"
proof -
  have r: "parse_options cfg (getopt optstring (command_line ss)) default_options = asked cfg (map snd ss) default_options"
    by (simp only: getopt_command_line parse_settings)
  show ?thesis
  proof (cases "asked cfg (map snd ss) default_options")
    case (Inl e)
    with r show ?thesis by (cases e) (simp add: server_client_main_def)
  next
    case (Inr ops)
    with main_after_options [OF r [unfolded Inr], of res env] r show ?thesis by simp
  qed
qed

text \<open>A client of the node 24 over a serial line, and the loopback test.\<close>

lemma command_line_examples:
  "command_line [(False, Kiss_device ''/dev/ttyS0''), (False, Test_mode), (True, Server_address 24)] =
    [''-k'', ''/dev/ttyS0'', ''-t'', ''-r24'']"
  "asked \<lparr>have_socketcan = True, have_zmq = False, use_rtable = True\<rparr> [Test_mode, Own_address (- 2)] default_options =
    Inr (default_options\<lparr>op_test_mode := True, op_address := 254\<rparr>)"
  by code_simp+

end
