(* ===== verification/Spec2Isabelle.thy ===== *)
theory Spec2Isabelle
  imports UploadProps ShellProps DaemonProps SharedDisk Replies Transfers Acks PhotoSession Pico PicoReset ConsoleEcho CommandLine
begin

text \<open>
  Verification library of the on-board software of SC-Sat1's Raspberry Pi board: the CSP daemon
  \<open>cspd\<close> of the Raspberry Pi Zero (\<open>zero/meta-csp/recipes-cspd/csp-handler/files\<close>), the
  firmware of the Raspberry Pi Pico (\<open>pico/src\<close>), the tool that resets the Pico
  (\<open>zero/meta-pico-update\<close>), and the sample programs. Paths below are relative to
  \<open>src/\<close>, and a bare file name is one of the daemon's.

  THE PROGRAM. The daemon's \<open>main\<close> sets up libcsp with a CAN and a UART interface, starts a file
  worker, a shell worker and a router thread, and becomes the CSP server: it accepts
  connections, reads their packets, and dispatches each on its destination port. Requests for
  the hardware test (port 11) and the version (16) are answered at once; requests for the shell
  (10) and for files (13) are put into a queue that the worker of the component empties;
  everything else goes to libcsp's service handler. Each packet buffer belongs to whoever
  handles it until it is sent, freed, or handed to the service handler.

  CONVENTIONS. A C function is a HOL function on explicit state; a record holds the static
  variables of a component. What the surroundings decide (results of system calls, of libcsp,
  glib, libgpiod and Zephyr calls, bytes read, contents of uninitialised memory) is an argument,
  usually an environment record, over which the theorems quantify. Undefined behaviour is a
  value: \<open>'a res = c_fault + 'a\<close>, with \<open>Inl\<close> for an access beyond an array, the
  dereference of NULL or the use of a closed file. Calls that take or give buffers, pipes,
  descriptors, and the packets that are sent, are the events of a trace, in order. Machine
  integers are words of their width. The target is little-endian with a 64-bit
  \<open>unsigned long\<close>, as the Yocto configuration has it. Journal messages are left out.

  THEORIES.
  - \<open>Prelude\<close>: words, bytes, faults, \<open>errno\<close>, little-endian images, \<open>strcpy\<close>,
    \<open>memcpy\<close>, \<open>strncpy\<close>, lists cut into pieces. \<open>Decimal\<close>: decimal numbers as
    \<open>%d\<close> prints them, for the names of the frames and for the command line.
  - \<open>Events\<close>: the CSP packet (\<open>csp_packet_t\<close>), the events, and the ownership of buffers:
    \<open>own_run\<close> replays a trace on the buffers in hand; a trace is \<open>linear\<close> when the packet
    it was given goes back exactly once, it \<open>leaks\<close> or \<open>misuses\<close> otherwise. The frame
    lemma \<open>own_run_frame\<close> lets the traces of several packets be put together.
  - \<open>Telemetry\<close>: the packed structs of the headers, their images, the receivers' parsers, and
    the locale \<open>packed_struct\<close> with its ten interpretations (round trip, length, fit).
  - \<open>Stdio\<close>: \<open>FILE\<close> handles over a map of files, after the C standard; locale
    \<open>file_store\<close>.
  - \<open>Upload\<close> (\<open>upload.c\<close>, definitions), \<open>SessionPool\<close> (the two session lists as a
    \<open>slot_pool\<close>, the invariant \<open>upload_inv\<close>), \<open>UploadOps\<close> and \<open>UploadCmds\<close> (what
    each function and each command does on every branch), \<open>UploadSpec\<close> (the abstract service:
    a map from session to path and a map from path to contents, with \<open>upload_abs\<close>),
    \<open>UploadTransfer\<close> (whole transfers and the acknowledgements over any number of chunks),
    \<open>UploadScenario\<close> (concrete surroundings), \<open>UploadProps\<close> (the properties).
  - \<open>WorkQueue\<close>: the operations of \<open>GQueue\<close>, the loop of a worker thread, and the locales
    \<open>work_queue\<close> and \<open>queue_worker\<close>, interpreted by both workers.
  - \<open>FileWork\<close> (\<open>file.c\<close>): queue, dispatch to the upload commands, worker.
  - \<open>Shell\<close>, \<open>ShellOps\<close>, \<open>ShellProps\<close> (\<open>shell.c\<close>): the command, its output loop, its exits,
    the replies a command promises (\<open>outcome_of\<close>, \<open>promised\<close>), and the session of
    commands the worker serves.
  - \<open>System\<close> (\<open>system.c\<close>); \<open>Camera\<close> (\<open>camera.c\<close>), \<open>TempSensor\<close> (\<open>temp.c\<close>),
    \<open>Hwtest\<close> (\<open>hwtest.c\<close>) and \<open>HwtestProps\<close>: the components answered in the server thread.
    \<open>PhotoSession\<close>: the camera commands with the camera programs they start in the background.
    \<open>PhotoSession\<close> counts the programs of earlier captures that still run at an INIT. The
    temperature service runs on an I2C bus (\<open>i2c_bus\<close>) that remembers the slave that
    \<open>ioctl\<close> has addressed and the register that \<open>write\<close> has selected.
  - \<open>CspServer\<close>: the accept loop that all servers of the repository share, and the locales
    \<open>csp_server\<close> (a dispatcher that may keep packets) and \<open>tidy_server\<close> (one that gives
    every packet back), interpreted by the daemon, the Pico and the samples.
  - \<open>Daemon\<close> (\<open>handler.c\<close>, \<open>main.c\<close>, \<open>router.c\<close>), \<open>DaemonOps\<close>,
    \<open>DaemonProps\<close>: dispatch, start-up, and the three threads as the inductive relation
    \<open>daemon_reach\<close>, whose steps (one packet of the server, one turn of a worker, a change of the
    photo directory by other programs) interleave at will.
  - \<open>Schedule\<close>: the same steps as an executable function \<open>daemon_run\<close> on a list of turns,
    and that it reaches what the relation reaches. \<open>Interleave\<close>: the jobs a schedule hands to
    each worker (\<open>file_jobs\<close>, \<open>shell_jobs\<close>), the locale \<open>interleaved_worker\<close> (a worker
    among other threads does what it does alone with these jobs) with its interpretations for
    both workers, and the equivalence of schedules. \<open>SharedDisk\<close>: the same turns on one file
    system (\<open>shared_run\<close>), on which INIT removes uploaded files of the photo directory and
    uploads there become entries of it; when no transfer is for a file in the photo directory
    (\<open>keeps_off_photos\<close>), a run on it is a run of \<open>daemon_run\<close>, where uploads and
    photo directory are apart (\<open>shared_run_agrees\<close>), and what a schedule does depends only on
    the turns of each thread; when one is, \<open>init_loses_open_transfer\<close> says what becomes of it.
    \<open>Progress\<close>: what a schedule must grant a
    worker for its queue to be emptied (\<open>keeps_up\<close>), endless fair schedules, and the shell
    session in any interleaving. \<open>Transfers\<close>: a transfer among the requests of others
    (\<open>foreign\<close>, \<open>exclusive\<close>, \<open>receiving\<close>). \<open>Acks\<close>: its acknowledgements among
    the answers to others (\<open>answers\<close>, \<open>stranger\<close>, \<open>acked\<close>). \<open>Replies\<close>: every packet the daemon
    transmits answers the request of the turn, in the type of its port and command (\<open>answers\<close>,
    \<open>transmits\<close>), one constructor for each of the ten telemetry structures.
  - \<open>Zephyr\<close>: threads and their start, and the node that the firmware sets up. \<open>Float32\<close>:
    IEEE binary32 as an executable function on rationals (round to nearest even), for the
    \<open>float\<close> of the Pico.
  - \<open>PicoReset\<close> (\<open>pico-reset/files/main.c\<close>), \<open>Pico\<close> (\<open>pico/src\<close>), \<open>ConsoleEcho\<close>
    (\<open>pico/sample/console-echo\<close> with the interrupts between the rounds of its main loop, and
    \<open>pico/sample/console-hello\<close>), \<open>CspSamples\<close> (\<open>pico/sample/csp-send\<close>,
    \<open>pico/sample/csp-server\<close>, and \<open>csp-server-client/files\<close> with its options, read as
    \<open>getopt\<close> reads them, its roles and its POSIX threads). \<open>CspProps\<close>: their properties; the
    servers that print texts as instances of the locale \<open>text_server\<close>, which extends to a
    \<open>tidy_server\<close>, and the way of the messages from the senders to them (\<open>delivers\<close> states what
    libcsp promises: the payloads arrive in order; the buffers and the bytes behind are its own).
    \<open>CommandLine\<close>: the settings of the libcsp program (\<open>setting\<close>), the words a user writes
    for them (\<open>command_line\<close>), and what \<open>main\<close> makes of these words (\<open>asked\<close>,
    \<open>comes_up\<close>, \<open>roles_asked\<close>).
  - this theory: the properties that span server, queues, workers and upload.

  WHAT IS SHOWN. Invariants over all reachable states (sessions, open files, batches, queues,
  buffers in hand); the upload commands implement an abstract file service, and a transfer delivers
  its file from the connections to the disk, also over a file that was there before;
  acknowledgements, also those of concurrent transfers, and shell replies are complete, in order and
  numbered; every component's faults are characterised exactly by the requests that cause them;
  every branch gives its packet back once, except where the code does not; a worker empties its
  queue exactly under the schedules that give it enough turns, and no request starves under a fair
  one; concurrent transfers each deliver their file; as long as no transfer is for a file in the
  photo directory, schedules with the same turns of each thread cannot be told apart, on the one
  disk they share, and the file service depends on nothing but its own requests; every transmitted
  packet answers its request in the type of its command; the Pico's temperature is within ten microdegrees of the
  sensor's reading and keeps the order of the readings; what the sample senders send is what the
  sample servers print; the libcsp program reads back the settings its command line was written for
  and starts what they ask for; the frame count follows the finished captures; and the places where
  the code does not do what it means to are theorems of their own.

  BOUNDS. Loops over arguments are structural or have a measure: the output loop of the shell
  counts up to 50, \<open>pieces\<close> and \<open>chunks\<close> shorten their list, \<open>getopt\<close> consumes the words
  of the command line. The endless loops of the threads take one element of a list per round
  (\<open>work_loop\<close>, \<open>serve\<close>, \<open>read_loop\<close>, \<open>console_run\<close>, \<open>csp_send_loop\<close>,
  \<open>client_loop\<close>) or count their rounds (\<open>router\<close>, \<open>hello_loop\<close>), and the theorems about
  them say for which number of rounds the work is done, or hold for every number.

  NOT MODELLED. libcsp, glib, stdio of the system, libgpiod and Zephyr beyond what is said above (the
  level of a GPIO line after its release, and what libcsp's routing table makes of the calls);
  links and \<open>..\<close> in paths, which are compared as they are written; what the commands of the shell
  service do to files; that a transfer can be for a file in the photo directory, outside
  \<open>SharedDisk\<close>;
  data races on the queues, which server and workers share without a lock (the model takes each
  queue operation as atomic); journal messages, and the tables that libcsp prints at start-up;
  the Yocto and Zephyr build files and the Python tools; and
  \<open>zero/meta-arducam/.../arducam_pivariety.hpp\<close>, the declarations of a prebuilt third-party
  library that no program of the repository calls.
\<close>

section \<open>Properties that span the components\<close>

text \<open>C2: A file that is uplinked to the daemon arrives: when connections bring, on the file port and
  among any traffic on the other ports, an OPEN request for a file, the chunks of its
  contents in any order and with repetitions, and a CLOSE request, the server thread queues
  them, and the file worker, with one turn per request, empties its queue and leaves exactly
  these contents under the name and every other file and transfer as they were. A file of that
  name that was there before is not emptied: if it was longer, the rest of it stays behind the
  new contents. The system calls of the worker are assumed to succeed.\<close>

theorem uplink_delivers_file:
  assumes "daemon_inv d" "dm_file_queue d = []" "session_unused (dm_upload d) \<noteq> []"
    and "sp_sess (upload_abs (dm_upload d)) sid = None"
    and "0 \<notin> set fname" "length fname < FILE_NAME_MAX_LEN"
    and "set cs = set (chunks 0 bs)" "length bs < 2 ^ 32"
    and "length envs = length (packets_to PORT_FILE conns)"
    and "carry_all (zip envs (packets_to PORT_FILE conns))
           (open_payload sid fname # map (chunk_payload sid) cs @ [close_payload sid])"
  shows "\<exists>d' evs us evs'. handle_csp_packet conns d = Inr (d', evs)
    \<and> file_work_thread envs (dm_file_queue d') (dm_upload d') = Inr ([], us, evs')
    \<and> upload_abs us = (upload_abs (dm_upload d))\<lparr>sp_fs := (sp_fs (upload_abs (dm_upload d)))
        (fname \<mapsto> uploaded bs (sp_contents (upload_abs (dm_upload d)) fname))\<rparr>"
proof -
  from serve_total [of conns d] obtain d' evs where h: "handle_csp_packet conns d = Inr (d', evs)"
    by (auto simp: safe_def)
  with serve_queues [OF h] assms(2) have
    q: "dm_file_queue d' = packets_to PORT_FILE conns" "dm_upload d' = dm_upload d" by auto
  have "upload_inv (dm_upload d)" using assms(1) by (simp add: daemon_inv_def)
  from run_transfer [OF this assms(3-8,10)] obtain us evs' where
    r: "run_work file_work (zip envs (packets_to PORT_FILE conns)) (dm_upload d) = Inr (us, evs')"
    and abs: "upload_abs us = (upload_abs (dm_upload d))\<lparr>sp_fs := (sp_fs (upload_abs (dm_upload d)))
        (fname \<mapsto> uploaded bs (sp_contents (upload_abs (dm_upload d)) fname))\<rparr>"
    by blast
  from file_worker.loop_drains [of envs "dm_file_queue d'"] r assms(9)
  have "file_work_thread envs (dm_file_queue d') (dm_upload d') = Inr ([], us, evs')"
    by (auto simp: q file_work_thread_def)
  with h abs show ?thesis by blast
qed

text \<open>The start on a disk that has a file of five bytes.\<close>

definition d_old :: daemon where
  "d_old = d_start\<lparr>dm_upload := upload_handler_init (upload_statics
             (st_empty\<lparr>st_fs := [[102] \<mapsto> [9, 9, 9, 8, 7]]\<rparr>))\<rparr>"

lemma d_old_facts:
  "daemon_inv d_old" "dm_file_queue d_old = []" "session_unused (dm_upload d_old) = [0, 1, 2, 3, 4]"
  "upload_abs (dm_upload d_old) = \<lparr>sp_sess = Map.empty, sp_fs = [[102] \<mapsto> [9, 9, 9, 8, 7]]\<rparr>"
proof -
  have "upload_inv (dm_upload d_old)" by (simp add: d_old_def upload_inv_init stdio_inv_def)
  then show "daemon_inv d_old"
    by (simp add: d_old_def d_start_def daemon_inv_def queued_def queued_ptrs_def)
  have u: "dm_upload d_old = (upload_statics (st_empty\<lparr>st_fs := [[102] \<mapsto> [9, 9, 9, 8, 7]]\<rparr>))
      \<lparr>session_unused := [0, 1, 2, 3, 4]\<rparr>"
    by (simp add: d_old_def upload_handler_init_statics)
  show "session_unused (dm_upload d_old) = [0, 1, 2, 3, 4]"
    "upload_abs (dm_upload d_old) = \<lparr>sp_sess = Map.empty, sp_fs = [[102] \<mapsto> [9, 9, 9, 8, 7]]\<rparr>"
    by (simp_all add: u upload_statics_def upload_abs_def search_used_session_def)
qed (simp add: d_old_def d_start_def)

lemma uplink_delivers_file_witness:
  "\<exists>d' evs us evs'. handle_csp_packet conns_upload d_old = Inr (d', evs)
    \<and> file_work_thread [env_ok, env_ok, env_ok] (dm_file_queue d') (dm_upload d') = Inr ([], us, evs')
    \<and> sp_fs (upload_abs us) = [[102] \<mapsto> [1, 2, 3, 8, 7]]"
proof -
  have chunks: "chunks 0 [1, 2, 3] = [(0, [1, 2, 3])]" by (simp add: chunks.simps)
  have "carry_all (zip [env_ok, env_ok, env_ok] (packets_to PORT_FILE conns_upload))
    (open_payload 7 [102] # map (chunk_payload 7) [(0, [1, 2, 3])] @ [close_payload 7])"
    using carries_examples good_env_ok by (simp add: carry_all_def conns_upload_facts)
  from uplink_delivers_file [OF d_old_facts(1,2) _ _ _ _ _ _ _ this, of "[1, 2, 3]"] chunks
  show ?thesis by (fastforce simp: d_old_facts conns_upload_facts sp_contents_def uploaded_def)
qed

text \<open>An uplinked file arrives in every interleaving of the threads: whatever else the server and
  the shell worker do between its requests, when the jobs of the file worker carry an OPEN for
  a file, the chunks of its contents in any order and with repetitions, and a CLOSE, and no
  shell job faults, the run returns with exactly these contents under the name, before the rest
  of a longer file that was there, and every other file and transfer as they were.\<close>

theorem uplink_in_any_interleaving:
  assumes "upload_inv (dm_upload d)" "session_unused (dm_upload d) \<noteq> []"
    and "sp_sess (upload_abs (dm_upload d)) sid = None"
    and "0 \<notin> set fname" "length fname < FILE_NAME_MAX_LEN"
    and "set cs = set (chunks 0 bs)" "length bs < 2 ^ 32"
    and "carry_all (fst (file_jobs ts (dm_file_queue d)))
           (open_payload sid fname # map (chunk_payload sid) cs @ [close_payload sid])"
    and "safe (run_work shell_work (fst (shell_jobs ts (dm_shell_queue d))) (dm_seq_number d))"
  shows "\<exists>d' tr. daemon_run ts d = Inr (d', tr)
    \<and> upload_abs (dm_upload d') = (upload_abs (dm_upload d))\<lparr>sp_fs := (sp_fs (upload_abs (dm_upload d)))
        (fname \<mapsto> uploaded bs (sp_contents (upload_abs (dm_upload d)) fname))\<rparr>"
proof -
  from run_transfer [OF assms(1-8)] obtain us evs where
    r: "run_work file_work (fst (file_jobs ts (dm_file_queue d))) (dm_upload d) = Inr (us, evs)"
    and abs: "upload_abs us = (upload_abs (dm_upload d))\<lparr>sp_fs := (sp_fs (upload_abs (dm_upload d)))
        (fname \<mapsto> uploaded bs (sp_contents (upload_abs (dm_upload d)) fname))\<rparr>"
    by blast
  with assms(9) obtain d' tr where run: "daemon_run ts d = Inr (d', tr)"
    using daemon_run_safe [of ts d] by (auto simp: safe_def)
  from file_view.runs_its_jobs [OF run] r abs run show ?thesis by auto
qed

definition sched_upload :: "turn list" where
  "sched_upload = [File_turn env_ok, Serve srv_ok PORT_FILE p_open, Serve srv_ok PORT_SHELL p_ls, File_turn env_ok,
     Serve srv_ok PORT_FILE p_data, Shell_turn (sh_ok [97]), Serve srv_ok PORT_FILE p_close,
     Serve srv_ok PORT_HWTEST (p_capture 5), File_turn env_ok, File_turn env_ok]"

lemma uplink_in_any_interleaving_witness:
  "\<exists>d' tr. daemon_run sched_upload d_start = Inr (d', tr) \<and> sp_fs (upload_abs (dm_upload d')) = [[102] \<mapsto> [1, 2, 3]]"
proof -
  have chunks: "chunks 0 [1, 2, 3] = [(0, [1, 2, 3])]" by (simp add: chunks.simps)
  have jobs: "fst (file_jobs sched_upload (dm_file_queue d_start)) = [(env_ok, p_open), (env_ok, p_data), (env_ok, p_close)]"
    "fst (shell_jobs sched_upload (dm_shell_queue d_start)) = [(sh_ok [97], p_ls)]"
    by (simp_all add: sched_upload_def d_start_def)
  have "carry_all (fst (file_jobs sched_upload (dm_file_queue d_start)))
    (open_payload 7 [102] # map (chunk_payload 7) [(0, [1, 2, 3])] @ [close_payload 7])"
    unfolding jobs using carries_examples good_env_ok by (simp add: carry_all_def)
  moreover have "safe (run_work shell_work (fst (shell_jobs sched_upload (dm_shell_queue d_start))) (dm_seq_number d_start))"
    unfolding jobs using p_ls_safe [of "[97]" "dm_seq_number d_start"] by (auto simp: safe_def)
  ultimately show ?thesis
    using uplink_in_any_interleaving [of d_start 7 "[102]" "[(0, [1, 2, 3])]" "[1, 2, 3]" sched_upload] chunks
    by (fastforce simp: d_start_def us_start_inv sp_contents_def)
qed

text \<open>C40: The daemon starts exactly when both interfaces can be added, and exits with code 1
  otherwise; then the CAN interface is the default one and libcsp has been asked for two routes,
  first one over the UART and then one over CAN. The addresses are those of the options of the
  build, or else 2 and 3 for the interfaces and 4 and 1 for the routes: with the options of
  the recipe the interfaces are the nodes 24 and 25, the first route goes to the address that
  the Pico's firmware takes (26), and the second to the node 8. The router thread runs
  exactly when its attributes could be set up and it could be created, whether they can be
  destroyed or not. Whether it and the two workers could be started has no influence: a daemon
  whose router has not started, and whose workers do not exist because \<open>pthread_create\<close> returned a
  (positive) error number, runs on and has logged the start of the workers.\<close>

theorem daemon_start_up:
  "(case daemon_main env us cs of
      Inl code \<Rightarrow> code = 1 \<and> \<not> (be_can env \<and> be_usart env = 0)
    | Inr r \<Rightarrow> be_can env \<and> be_usart env = 0
        \<and> nt_default (rn_net r) = Some Can_iface
        \<and> nt_addr (rn_net r) Can_iface = Some (ifndef (be_defines env) ''RPI_ZERO_CAN_ADDR'' 2)
        \<and> nt_addr (rn_net r) Usart_iface = Some (ifndef (be_defines env) ''RPI_ZERO_UART_ADDR'' 3)
        \<and> nt_rtable_set (rn_net r) =
            [(ifndef (be_defines env) ''RPI_PICO_UART_ADDR'' 4, be_host_bits env, Usart_iface),
             (ifndef (be_defines env) ''MAIN_OBC_CAN_ADDR'' 1, be_host_bits env, Can_iface)]
        \<and> (rn_router r \<longleftrightarrow> pt_attr_init (be_router env) = 0 \<and> pt_setdetach (be_router env) = 0
                          \<and> pt_create (be_router env) = 0)
        \<and> (rn_file_log r = Started \<longleftrightarrow> 0 \<le> be_file_thread env)
        \<and> (rn_shell_log r = Started \<longleftrightarrow> 0 \<le> be_shell_thread env))
   \<and> (case daemon_main (env\<lparr>be_defines := recipe_defines\<rparr>) us cs of
        Inl code \<Rightarrow> code = 1
      | Inr r \<Rightarrow> nt_addr (rn_net r) = [Can_iface \<mapsto> 24, Usart_iface \<mapsto> 25]
          \<and> nt_rtable_set (rn_net r) =
              [(PICO_CSP_ADDR, be_host_bits env, Usart_iface), (8, be_host_bits env, Can_iface)])"
proof -
  note addrs = RPI_ZERO_CAN_ADDR_def RPI_ZERO_UART_ADDR_def RPI_PICO_UART_ADDR_def MAIN_OBC_CAN_ADDR_def
  have nodes: "RPI_ZERO_CAN_ADDR recipe_defines = 24" "RPI_ZERO_UART_ADDR recipe_defines = 25"
    "RPI_PICO_UART_ADDR recipe_defines = 26" "MAIN_OBC_CAN_ADDR recipe_defines = 8"
    by (simp_all add: addrs ifndef_def recipe_defines_def)
  let ?built = "daemon_main (env\<lparr>be_defines := recipe_defines\<rparr>) us cs"
  note built = daemon_main_outcome [of "env\<lparr>be_defines := recipe_defines\<rparr>" us cs]
  have "case ?built of Inl code \<Rightarrow> code = 1
      | Inr r \<Rightarrow> nt_addr (rn_net r) = [Can_iface \<mapsto> 24, Usart_iface \<mapsto> 25]
          \<and> nt_rtable_set (rn_net r) =
              [(PICO_CSP_ADDR, be_host_bits env, Usart_iface), (8, be_host_bits env, Can_iface)]"
  proof (cases ?built)
    case (Inl code)
    then show ?thesis using built by simp
  next
    case (Inr r)
    have "nt_addr (rn_net r) i = [Can_iface \<mapsto> 24, Usart_iface \<mapsto> 25] i" for i
      using built unfolding Inr by (cases i) (simp_all add: nodes)
    then show ?thesis using built unfolding Inr by (auto simp: nodes)
  qed
  then show ?thesis
    using daemon_main_outcome [of env us cs] unfolding addrs by blast
qed

end
